(* ===== verification/Prelude.thy ===== *)
theory Prelude
  imports Complex_Main
    "HOL-Library.Char_ord"
    "HOL-Library.List_Lexorder"
    "HOL-Library.Product_Lexorder"
    "HOL-Library.Multiset"
begin

section \<open>Shared vocabulary of the development\<close>

text \<open>
  What every component of delta-works uses: the results of fallible Go functions, Go's error
  values with \<open>errors.Is\<close> over wrapped causes, instants and durations of the \<open>time\<close> package, the
  few functions of \<open>strings\<close> the code calls, exact decimals, and the generic lemmas on lists,
  sums and maximal elements that the component proofs share.
\<close>

named_theorems store_simps \<open>equations of the SQL statements and of the stores built on them\<close>
named_theorems machine_simps \<open>equations of the order state machine\<close>
named_theorems ledger_simps \<open>equations of lot selection and posting\<close>

subsection \<open>Results\<close>

text \<open>
  A Go function returning \<open>(T, error)\<close> is a sum: \<open>Inl\<close> carries the error, \<open>Inr\<close> the value.
  \<open>bindR\<close> is the \<open>if err != nil { return err }\<close> of the code, and \<open>foldR\<close> is a
  \<open>for\<close> loop whose body may return early with an error.
\<close>

fun bindR :: "'e + 'a \<Rightarrow> ('a \<Rightarrow> 'e + 'b) \<Rightarrow> 'e + 'b" where
  "bindR (Inl e) f = Inl e"
| "bindR (Inr x) f = f x"

fun foldR :: "('x \<Rightarrow> 's \<Rightarrow> 'e + 's) \<Rightarrow> 'x list \<Rightarrow> 's \<Rightarrow> 'e + 's" where
  "foldR f [] s = Inr s"
| "foldR f (x # xs) s = bindR (f x s) (foldR f xs)"

lemma bindR_Inr_iff [simp]: "bindR m f = Inr y \<longleftrightarrow> (\<exists>x. m = Inr x \<and> f x = Inr y)"
  by (cases m) auto

lemma bindR_Inl_iff: "bindR m f = Inl e \<longleftrightarrow> m = Inl e \<or> (\<exists>x. m = Inr x \<and> f x = Inl e)"
  by (cases m) auto

lemma bindR_cong [fundef_cong]:
  "m = m' \<Longrightarrow> (\<And>x. m' = Inr x \<Longrightarrow> f x = f' x) \<Longrightarrow> bindR m f = bindR m' f'"
  by (cases m') auto

text \<open>An invariant of the loop body is an invariant of the loop that ends normally.\<close>

lemma foldR_invariant:
  assumes "foldR f xs s = Inr t" and "P s"
    and "\<And>x s s'. x \<in> set xs \<Longrightarrow> f x s = Inr s' \<Longrightarrow> P s \<Longrightarrow> P s'"
  shows "P t"
  using assms
proof (induction xs arbitrary: s)
  case Nil
  then show ?case by simp
next
  case (Cons x xs)
  from Cons.prems(1) obtain u where u: "f x s = Inr u" "foldR f xs u = Inr t"
    by auto
  from Cons.prems(2,3) u(1) have "P u" by (meson list.set_intros(1))
  with u(2) Cons.prems(3) show ?case
    by (intro Cons.IH [of u]) auto
qed

subsection \<open>Errors\<close>

text \<open>
  Go errors form trees: a sentinel, an opaque text, or \<open>fmt.Errorf\<close> of literal pieces and of the
  causes its \<open>%w\<close> verbs wrap. \<open>errors.Is\<close> searches the whole tree for a sentinel, and
  \<open>Error()\<close> concatenates the pieces. The sentinels are those the packages under \<open>internal/\<close>
  declare, and the three of the standard library the code tests for.
\<close>

datatype Sentinel =
    ErrNotFound \<comment> \<open>ports/store.go\<close>
  | ErrNoVenueOrderID \<comment> \<open>ports/trading.go\<close>
  | ErrVenueUnavailable | ErrAuth | ErrRateLimited | ErrUnsupportedAccount | ErrTradingUnsupported
      \<comment> \<open>ports/exchange.go\<close>
  | ErrSubmitUnsettled | ErrIdentityMismatch | ErrTerminal | ErrVenueNotConfigured
      \<comment> \<open>service/order/order.go\<close>
  | ErrInvalidArgument \<comment> \<open>api/orders.go\<close>
  | ErrLimiterWait \<comment> \<open>exchange/middleware.go\<close>
  | ContextCanceled | ContextDeadlineExceeded | FsErrNotExist

datatype Err = ESentinel Sentinel | EText string | Errorf "Piece list"
and Piece = Lit string | Cause Err

primrec errors_Is :: "Err \<Rightarrow> Sentinel \<Rightarrow> bool"
  and piece_Is :: "Piece \<Rightarrow> Sentinel \<Rightarrow> bool" where
  "errors_Is (ESentinel s) t = (s = t)"
| "errors_Is (EText _) t = False"
| "errors_Is (Errorf ps) t = list_ex (\<lambda>b. b) (map (\<lambda>p. piece_Is p t) ps)"
| "piece_Is (Lit _) t = False"
| "piece_Is (Cause e) t = errors_Is e t"

fun sentinel_text :: "Sentinel \<Rightarrow> string" where
  "sentinel_text ErrNotFound = ''not found''"
| "sentinel_text ErrNoVenueOrderID = ''venue order ID is required''"
| "sentinel_text ErrVenueUnavailable = ''venue unavailable''"
| "sentinel_text ErrAuth = ''authentication failed''"
| "sentinel_text ErrRateLimited = ''rate limited by venue''"
| "sentinel_text ErrUnsupportedAccount = ''unsupported account type''"
| "sentinel_text ErrTradingUnsupported = ''venue adapter does not support trading''"
| "sentinel_text ErrSubmitUnsettled = ''submit unsettled; order remains pending''"
| "sentinel_text ErrIdentityMismatch = ''client order ID identity mismatch''"
| "sentinel_text ErrTerminal = ''order is terminal''"
| "sentinel_text ErrVenueNotConfigured = ''venue not configured for trading''"
| "sentinel_text ErrInvalidArgument = ''invalid argument''"
| "sentinel_text ErrLimiterWait = ''local rate limiter wait''"
| "sentinel_text ContextCanceled = ''context canceled''"
| "sentinel_text ContextDeadlineExceeded = ''context deadline exceeded''"
| "sentinel_text FsErrNotExist = ''file does not exist''"

primrec err_Error :: "Err \<Rightarrow> string"
  and piece_Error :: "Piece \<Rightarrow> string" where
  "err_Error (ESentinel s) = sentinel_text s"
| "err_Error (EText t) = t"
| "err_Error (Errorf ps) = concat (map piece_Error ps)"
| "piece_Error (Lit t) = t"
| "piece_Error (Cause e) = err_Error e"

text \<open>\<open>fmt.Errorf("<text>: %w", e)\<close> and \<open>fmt.Errorf("%w: %w", e, f)\<close>, the two usual shapes.\<close>

definition wrap :: "string \<Rightarrow> Err \<Rightarrow> Err" where
  "wrap t e = Errorf [Lit (t @ '': ''), Cause e]"

definition wrap2 :: "Err \<Rightarrow> Err \<Rightarrow> Err" where
  "wrap2 e f = Errorf [Cause e, Lit '': '', Cause f]"

definition sentinel_with :: "Sentinel \<Rightarrow> string \<Rightarrow> Err" where
  "sentinel_with s t = Errorf [Cause (ESentinel s), Lit ('': '' @ t)]"

lemma errors_Is_wrap [simp]: "errors_Is (wrap t e) s = errors_Is e s"
  by (simp add: wrap_def)

lemma errors_Is_wrap2 [simp]: "errors_Is (wrap2 e f) s = (errors_Is e s \<or> errors_Is f s)"
  by (simp add: wrap2_def)

lemma errors_Is_sentinel_with [simp]: "errors_Is (sentinel_with s t) u = (s = u)"
  by (simp add: sentinel_with_def)

text \<open>\<open>%q\<close> of \<open>fmt\<close> on printable ASCII: double quotes, with quote and backslash escaped.\<close>

definition fmt_q :: "string \<Rightarrow> string" where
  "fmt_q s = CHR 0x22 # concat (map (\<lambda>c. if c = CHR 0x22 \<or> c = CHR 0x5C then [CHR 0x5C, c] else [c]) s)
     @ [CHR 0x22]"

text \<open>\<open>%d\<close> of \<open>fmt\<close>.\<close>

fun fmt_nat :: "nat \<Rightarrow> string" where
  "fmt_nat n = (if n < 10 then [char_of (48 + n)] else fmt_nat (n div 10) @ [char_of (48 + n mod 10)])"

declare fmt_nat.simps [simp del]

definition fmt_d :: "int \<Rightarrow> string" where
  "fmt_d i = (if i < 0 then CHR 0x2D # fmt_nat (nat (- i)) else fmt_nat (nat i))"

subsection \<open>Stateful operations\<close>

text \<open>
  A method that reads and writes shared state and may fail is a function from the state to a
  result and the state it leaves, also when it fails. \<open>bindS\<close> sequences two of them and stops at the
  first error, \<open>wrapS\<close> is \<open>fmt.Errorf("<text>: %w", err)\<close> around a failing call, and \<open>forS\<close> is a
  \<open>for\<close> loop that returns at the first error.
\<close>

type_synonym ('s, 'a) op = "'s \<Rightarrow> (Err + 'a) \<times> 's"

definition returnS :: "'a \<Rightarrow> ('s, 'a) op" where "returnS x s = (Inr x, s)"
definition failS :: "Err \<Rightarrow> ('s, 'a) op" where "failS e s = (Inl e, s)"

definition bindS :: "('s, 'a) op \<Rightarrow> ('a \<Rightarrow> ('s, 'b) op) \<Rightarrow> ('s, 'b) op" where
  "bindS m f s = (case m s of (Inl e, s') \<Rightarrow> (Inl e, s') | (Inr x, s') \<Rightarrow> f x s')"

definition mapErrS :: "(Err \<Rightarrow> Err) \<Rightarrow> ('s, 'a) op \<Rightarrow> ('s, 'a) op" where
  "mapErrS g m s = (case m s of (Inl e, s') \<Rightarrow> (Inl (g e), s') | (Inr x, s') \<Rightarrow> (Inr x, s'))"

definition wrapS :: "string \<Rightarrow> ('s, 'a) op \<Rightarrow> ('s, 'a) op" where
  "wrapS t = mapErrS (wrap t)"

fun forS :: "('x \<Rightarrow> ('s, unit) op) \<Rightarrow> 'x list \<Rightarrow> ('s, unit) op" where
  "forS f [] = returnS ()"
| "forS f (x # xs) = bindS (f x) (\<lambda>_. forS f xs)"

lemma returnS_eq [simp]: "returnS x s = (r, s') \<longleftrightarrow> r = Inr x \<and> s' = s"
  by (auto simp: returnS_def)

lemma failS_eq [simp]: "failS e s = (r, s') \<longleftrightarrow> r = Inl e \<and> s' = s"
  by (auto simp: failS_def)

lemma bindS_Inr_iff [simp]:
  "bindS m f s = (Inr y, t) \<longleftrightarrow> (\<exists>x u. m s = (Inr x, u) \<and> f x u = (Inr y, t))"
  by (auto simp: bindS_def split: prod.splits sum.splits)

lemma bindS_Inl_iff:
  "bindS m f s = (Inl e, t) \<longleftrightarrow> m s = (Inl e, t) \<or> (\<exists>x u. m s = (Inr x, u) \<and> f x u = (Inl e, t))"
  by (auto simp: bindS_def split: prod.splits sum.splits)

lemma wrapS_Inr_iff [simp]: "wrapS w m s = (Inr y, t) \<longleftrightarrow> m s = (Inr y, t)"
  by (auto simp: wrapS_def mapErrS_def split: prod.splits sum.splits)

lemma mapErrS_Inr_iff [simp]: "mapErrS g m s = (Inr y, t) \<longleftrightarrow> m s = (Inr y, t)"
  by (auto simp: mapErrS_def split: prod.splits sum.splits)

lemma wrapS_Inl_iff: "wrapS w m s = (Inl e, t) \<longleftrightarrow> (\<exists>e'. m s = (Inl e', t) \<and> e = wrap w e')"
  by (auto simp: wrapS_def mapErrS_def split: prod.splits sum.splits)

lemma snd_wrapS [simp]: "snd (wrapS w m s) = snd (m s)"
  by (auto simp: wrapS_def mapErrS_def split: prod.splits sum.splits)

text \<open>
  A relation between the states before and after that is reflexive and transitive holds for a
  sequence when it holds for its parts, whether they succeed or fail.
\<close>

definition keeps :: "('s \<Rightarrow> 's \<Rightarrow> bool) \<Rightarrow> ('s, 'a) op \<Rightarrow> bool" where
  "keeps R m \<longleftrightarrow> (\<forall>s. R s (snd (m s)))"

lemma keeps_return [simp]: "reflp R \<Longrightarrow> keeps R (returnS x)"
  by (simp add: keeps_def returnS_def reflp_def)

lemma keeps_fail [simp]: "reflp R \<Longrightarrow> keeps R (failS e)"
  by (simp add: keeps_def failS_def reflp_def)

lemma keeps_wrap [simp]: "keeps R (wrapS w m) = keeps R m"
  by (simp add: keeps_def)

lemma keeps_bind:
  assumes "transp R" "keeps R m" "\<And>x. keeps R (f x)"
  shows "keeps R (bindS m f)"
  unfolding keeps_def
proof
  fix s
  have m: "R s (snd (m s))" and f: "R t (snd (f x t))" for x t
    using assms(2,3) by (auto simp: keeps_def)
  show "R s (snd (bindS m f s))"
  proof (cases "m s")
    case (Pair r t)
    with m have "R s t" by simp
    with f Pair assms(1) show ?thesis
      by (cases r) (auto simp: bindS_def dest: transpD)
  qed
qed

lemma keeps_for:
  assumes "reflp R" "transp R" "\<And>x. keeps R (f x)"
  shows "keeps R (forS f xs)"
  using assms by (induction xs) (auto intro: keeps_bind)

subsection \<open>Instants and durations\<close>

text \<open>
  \<open>time.Time\<close> is an instant; the model counts nanoseconds from Go's zero instant, so that
  \<open>IsZero\<close> is a comparison with 0. \<open>time.Duration\<close> is a 64-bit count of nanoseconds: \<open>Time.Sub\<close>
  saturates at its bounds and \<open>2 * d\<close> wraps around.
\<close>

datatype Time = Time (nanos: int)

instantiation Time :: linorder
begin

definition less_eq_Time :: "Time \<Rightarrow> Time \<Rightarrow> bool" where
  "less_eq_Time t u \<longleftrightarrow> nanos t \<le> nanos u"

definition less_Time :: "Time \<Rightarrow> Time \<Rightarrow> bool" where
  "less_Time t u \<longleftrightarrow> nanos t < nanos u"

instance
  by intro_classes (auto simp: less_eq_Time_def less_Time_def intro: Time.expand)

end

type_synonym Duration = int

definition zeroTime :: Time where "zeroTime = Time 0"

definition IsZero :: "Time \<Rightarrow> bool" where "IsZero t \<longleftrightarrow> nanos t = 0"

definition minDuration :: Duration where "minDuration = - (2 ^ 63)"
definition maxDuration :: Duration where "maxDuration = 2 ^ 63 - 1"

definition time_Sub :: "Time \<Rightarrow> Time \<Rightarrow> Duration" where
  "time_Sub t u = max minDuration (min maxDuration (nanos t - nanos u))"

definition time_Add :: "Time \<Rightarrow> Duration \<Rightarrow> Time" where
  "time_Add t d = Time (nanos t + d)"

definition wrap64 :: "int \<Rightarrow> int" where
  "wrap64 i = (i + 2 ^ 63) mod 2 ^ 64 - 2 ^ 63"

lemma wrap64_id: "- (2 ^ 63) \<le> i \<Longrightarrow> i < 2 ^ 63 \<Longrightarrow> wrap64 i = i"
  by (simp add: wrap64_def)

lemma wrap64_range: "- (2 ^ 63) \<le> wrap64 i \<and> wrap64 i < 2 ^ 63"
  by (simp add: wrap64_def)

definition second :: Duration where "second = 1000000000"
definition millisecond :: Duration where "millisecond = 1000000"
definition minute :: Duration where "minute = 60 * second"
definition hour :: Duration where "hour = 60 * minute"

lemmas duration_defs = second_def millisecond_def minute_def hour_def

subsection \<open>Floats\<close>

text \<open>
  A \<open>float64\<close>, by its value: the code only passes them on and compares them with zero, which is false
  of NaN whichever way it is written.
\<close>

datatype Float64 = Finite rat | PosInf | NegInf | NaN

fun float_le0 :: "Float64 \<Rightarrow> bool" where
  "float_le0 (Finite x) = (x \<le> 0)"
| "float_le0 PosInf = False"
| "float_le0 NegInf = True"
| "float_le0 NaN = False"

subsection \<open>Strings\<close>

text \<open>
  Go strings are byte sequences. Case mapping and space trimming are written out for ASCII, the
  alphabet of currency codes, venue names and symbols; other bytes are left alone.
\<close>

definition upper_char :: "char \<Rightarrow> char" where
  "upper_char c = (if 97 \<le> (of_char c :: nat) \<and> (of_char c :: nat) \<le> 122
     then char_of ((of_char c :: nat) - 32) else c)"

definition lower_char :: "char \<Rightarrow> char" where
  "lower_char c = (if 65 \<le> (of_char c :: nat) \<and> (of_char c :: nat) \<le> 90
     then char_of ((of_char c :: nat) + 32) else c)"

definition is_space :: "char \<Rightarrow> bool" where
  "is_space c \<longleftrightarrow> (of_char c :: nat) \<in> {9, 10, 11, 12, 13, 32}"

definition ToUpper :: "string \<Rightarrow> string" where "ToUpper s = map upper_char s"
definition ToLower :: "string \<Rightarrow> string" where "ToLower s = map lower_char s"

definition TrimSpace :: "string \<Rightarrow> string" where
  "TrimSpace s = rev (dropWhile is_space (rev (dropWhile is_space s)))"

definition HasPrefix :: "string \<Rightarrow> string \<Rightarrow> bool" where
  "HasPrefix s p \<longleftrightarrow> take (length p) s = p"

definition CutPrefix :: "string \<Rightarrow> string \<Rightarrow> string option" where
  "CutPrefix s p = (if HasPrefix s p then Some (drop (length p) s) else None)"

text \<open>\<open>strings.Cut(s, sep)\<close> for a one-byte separator: the parts around its first occurrence.\<close>

definition Cut :: "string \<Rightarrow> char \<Rightarrow> (string \<times> string) option" where
  "Cut s sep = (if sep \<in> set s
     then Some (takeWhile (\<lambda>c. c \<noteq> sep) s, tl (dropWhile (\<lambda>c. c \<noteq> sep) s)) else None)"

lemma of_char_upper: "(of_char (upper_char c) :: nat) =
    (if 97 \<le> (of_char c :: nat) \<and> (of_char c :: nat) \<le> 122 then of_char c - 32 else of_char c)"
  by (auto simp: upper_char_def)

lemma of_char_lower: "(of_char (lower_char c) :: nat) =
    (if 65 \<le> (of_char c :: nat) \<and> (of_char c :: nat) \<le> 90 then of_char c + 32 else of_char c)"
  by (auto simp: lower_char_def)

lemma char_eqI: "(of_char c :: nat) = of_char d \<Longrightarrow> c = d"
  using of_char_eq_iff by blast

lemma upper_char_idem [simp]: "upper_char (upper_char c) = upper_char c"
  by (rule char_eqI) (auto simp: of_char_upper)

lemma lower_char_idem [simp]: "lower_char (lower_char c) = lower_char c"
  by (rule char_eqI) (auto simp: of_char_lower)

lemma is_space_upper [simp]: "is_space (upper_char c) = is_space c"
  by (auto simp: is_space_def of_char_upper)

lemma is_space_lower [simp]: "is_space (lower_char c) = is_space c"
  by (auto simp: is_space_def of_char_lower)

lemma ToUpper_idem [simp]: "ToUpper (ToUpper s) = ToUpper s"
  by (simp add: ToUpper_def)

lemma ToLower_idem [simp]: "ToLower (ToLower s) = ToLower s"
  by (simp add: ToLower_def)

lemma dropWhile_idem: "dropWhile P (dropWhile P xs) = dropWhile P xs"
  by (induction xs) auto

lemma trim_map:
  assumes "\<And>c. is_space (f c) = is_space c"
  shows "TrimSpace (map f s) = map f (TrimSpace s)"
  using assms by (simp add: TrimSpace_def dropWhile_map comp_def rev_map)

text \<open>What is left after trimming starts and ends with no space, so trimming again does nothing.\<close>

lemma dropWhile_eq_self_iff: "dropWhile P xs = xs \<longleftrightarrow> xs = [] \<or> \<not> P (hd xs)"
proof (cases xs)
  case (Cons a as)
  have "length (dropWhile P as) < length xs"
    by (simp add: Cons length_dropWhile_le le_imp_less_Suc)
  then have "dropWhile P as \<noteq> xs" by auto
  with Cons show ?thesis by auto
qed simp

lemma TrimSpace_hd: "TrimSpace s \<noteq> [] \<Longrightarrow> \<not> is_space (hd (TrimSpace s))"
proof -
  let ?t = "dropWhile is_space s"
  assume ne: "TrimSpace s \<noteq> []"
  then have "?t \<noteq> []" unfolding TrimSpace_def by (metis dropWhile.simps(1) rev.simps(1))
  then have h: "\<not> is_space (hd ?t)" by (rule hd_dropWhile)
  have "\<exists>zs. ?t = TrimSpace s @ zs"
    using dropWhile_append [of is_space] takeWhile_dropWhile_id [of is_space "rev ?t"]
    by (metis TrimSpace_def rev_append rev_rev_ident)
  with ne h show ?thesis by (metis hd_append2)
qed

lemma TrimSpace_idem [simp]: "TrimSpace (TrimSpace s) = TrimSpace s"
proof -
  have "dropWhile is_space (TrimSpace s) = TrimSpace s"
    using TrimSpace_hd dropWhile_eq_self_iff by blast
  then show ?thesis
    by (simp add: TrimSpace_def [of "TrimSpace s"]) (simp add: TrimSpace_def dropWhile_idem)
qed

lemma set_TrimSpace: "set (TrimSpace s) \<subseteq> set s"
  unfolding TrimSpace_def by (metis set_dropWhileD set_rev subsetI)

lemma Cut_append: "sep \<notin> set a \<Longrightarrow> Cut (a @ sep # b) sep = Some (a, b)"
  by (induction a) (auto simp: Cut_def)

lemma Cut_Some: "Cut s sep = Some (a, b) \<Longrightarrow> s = a @ sep # b \<and> sep \<notin> set a"
proof -
  assume c: "Cut s sep = Some (a, b)"
  then have "sep \<in> set s" and a: "a = takeWhile (\<lambda>c. c \<noteq> sep) s"
    and b: "b = tl (dropWhile (\<lambda>c. c \<noteq> sep) s)"
    by (auto simp: Cut_def split: if_splits)
  then have ne: "dropWhile (\<lambda>c. c \<noteq> sep) s \<noteq> []" by (auto simp: dropWhile_eq_Nil_conv)
  then have "hd (dropWhile (\<lambda>c. c \<noteq> sep) s) = sep" using hd_dropWhile by blast
  with ne b have "dropWhile (\<lambda>c. c \<noteq> sep) s = sep # b" by (metis list.collapse)
  moreover have "sep \<notin> set a" using a by (auto dest: set_takeWhileD)
  ultimately show ?thesis using a takeWhile_dropWhile_id by metis
qed

subsection \<open>Decimals\<close>

text \<open>
  \<open>decimal.Decimal\<close> of shopspring is an exact decimal: addition, subtraction, multiplication and
  comparison lose nothing, so its values are the rationals they denote. Division, which rounds,
  and the conversions from text and from floats are parameters of the definitions that use them.
\<close>

type_synonym Decimal = rat

abbreviation IsPositive :: "Decimal \<Rightarrow> bool" where "IsPositive d \<equiv> 0 < d"
abbreviation IsNegative :: "Decimal \<Rightarrow> bool" where "IsNegative d \<equiv> d < 0"

subsection \<open>Lists and sums\<close>

text \<open>Rows of a table with one field changed where a key matches.\<close>

definition update_where :: "('a \<Rightarrow> bool) \<Rightarrow> ('a \<Rightarrow> 'a) \<Rightarrow> 'a list \<Rightarrow> 'a list" where
  "update_where P f xs = map (\<lambda>x. if P x then f x else x) xs"

lemma map_update_where: "(\<And>x. P x \<Longrightarrow> g (f x) = g x) \<Longrightarrow> map g (update_where P f xs) = map g xs"
  by (simp add: update_where_def)

lemma set_update_where: "set (update_where P f xs) = f ` {x \<in> set xs. P x} \<union> {x \<in> set xs. \<not> P x}"
  by (auto simp: update_where_def)

lemma length_update_where [simp]: "length (update_where P f xs) = length xs"
  by (simp add: update_where_def)

lemma update_where_append [simp]:
  "update_where P f (xs @ ys) = update_where P f xs @ update_where P f ys"
  by (simp add: update_where_def)

lemma update_where_none: "(\<And>x. x \<in> set xs \<Longrightarrow> \<not> P x) \<Longrightarrow> update_where P f xs = xs"
  by (simp add: update_where_def map_idI)

lemma distinct_map_inj: "distinct (map k xs) \<Longrightarrow> x \<in> set xs \<Longrightarrow> y \<in> set xs \<Longrightarrow> k x = k y \<Longrightarrow> x = y"
  by (metis distinct_map inj_onD)

text \<open>
  \<open>find\<close> by a key that is unique in the table returns exactly the row with that key.
\<close>

lemma find_key_Some_iff:
  "distinct (map k xs) \<Longrightarrow> find (\<lambda>x. k x = a) xs = Some r \<longleftrightarrow> r \<in> set xs \<and> k r = a"
  by (induction xs) auto

lemma find_key_None_iff: "find (\<lambda>x. k x = a) xs = None \<longleftrightarrow> a \<notin> k ` set xs"
  by (auto simp: find_None_iff)

lemma find_update_where:
  assumes "\<And>x. k (f x) = k x"
  shows "find (\<lambda>x. k x = a) (update_where (\<lambda>x. k x = b) f xs) =
    map_option (\<lambda>x. if a = b then f x else x) (find (\<lambda>x. k x = a) xs)"
  using assms by (induction xs) (auto simp: update_where_def)

lemma sum_list_update_one:
  fixes g :: "'a \<Rightarrow> 'b::ab_group_add"
  assumes "distinct (map k xs)" "r \<in> set xs"
  shows "(\<Sum>x\<leftarrow>update_where (\<lambda>x. k x = k r) f xs. g x) = (\<Sum>x\<leftarrow>xs. g x) - g r + g (f r)"
  using assms
proof (induction xs)
  case Nil
  then show ?case by simp
next
  case (Cons x xs)
  show ?case
  proof (cases "x = r")
    case True
    with Cons.prems have "update_where (\<lambda>x. k x = k r) f xs = xs"
      by (intro update_where_none) (auto simp: image_iff)
    with True show ?thesis by (simp add: update_where_def)
  next
    case False
    with Cons.prems have "r \<in> set xs" and "k x \<noteq> k r" by auto
    with Cons show ?thesis by (simp add: update_where_def)
  qed
qed

lemma sum_list_nonneg_rat: "(\<And>x. x \<in> set xs \<Longrightarrow> (0::rat) \<le> g x) \<Longrightarrow> 0 \<le> (\<Sum>x\<leftarrow>xs. g x)"
  by (induction xs) auto

lemma sum_list_filter_if:
  "(\<Sum>x\<leftarrow>filter P xs. g x) = (\<Sum>x\<leftarrow>xs. if P x then g x else (0::'b::monoid_add))"
  by (induction xs) auto

lemma sum_list_if_none: "(\<And>x. x \<in> set xs \<Longrightarrow> \<not> P x) \<Longrightarrow> (\<Sum>x\<leftarrow>xs. if P x then g x else 0) = (0::'b::monoid_add)"
  by (induction xs) auto

lemma sort_key_Nil_iff [simp]: "sort_key k xs = [] \<longleftrightarrow> xs = []"
  by (metis length_0_conv length_sort)

text \<open>The greatest element of a list, never below a start value: what a fold with \<open>max\<close> computes.\<close>

lemma fold_max_eq: "fold max xs (m::'a::linorder) = Max (insert m (set xs))"
proof (induction xs arbitrary: m)
  case Nil
  then show ?case by simp
next
  case (Cons x xs)
  have "insert (max x m) (set xs) \<noteq> {}" by simp
  have "fold max (x # xs) m = Max (insert (max x m) (set xs))" by (simp add: Cons.IH)
  also have "\<dots> = Max (insert m (set (x # xs)))"
    by (cases "xs = []") (simp_all add: max.assoc max.commute max.left_commute)
  finally show ?case .
qed

lemma fold_max_upt: "fold max (map int [1..<Suc n]) 0 = int n"
  by (induction n) auto

end
