(* ===== verification/Instrument.thy ===== *)
theory Instrument
  imports Prelude
begin

section \<open>Currencies, venues and instruments\<close>

text \<open>
  \<open>internal/domain/money\<close>, \<open>internal/domain/instrument\<close>, \<open>internal/domain/account\<close> and
  \<open>internal/domain/marketdata\<close>: canonical currency codes and venue names, the instrument record with its map key
  and its pair text, the parser of pairs, account references and balances. Currencies and venue
  identifiers are Go strings, so equality of instruments is equality of their canonical texts.
\<close>

type_synonym Currency = string
type_synonym VenueID = string

definition NewCurrency :: "string \<Rightarrow> Currency" where
  "NewCurrency code = ToUpper (TrimSpace code)"

definition NewVenueID :: "string \<Rightarrow> VenueID" where
  "NewVenueID name = ToLower (TrimSpace name)"

type_synonym InstrumentType = string

definition TypeSpot :: InstrumentType where "TypeSpot = ''spot''"

record Rules =
  PriceIncrement :: Decimal
  QtyIncrement :: Decimal
  MinQty :: Decimal
  MinNotional :: Decimal

record Instrument =
  i_Venue :: VenueID
  i_Type :: InstrumentType
  i_Base :: Currency
  i_Quote :: Currency
  i_VenueSymbol :: string
  i_Rules :: Rules

definition noRules :: Rules where
  "noRules = \<lparr>PriceIncrement = 0, QtyIncrement = 0, MinQty = 0, MinNotional = 0\<rparr>"

definition Key :: "Instrument \<Rightarrow> string" where
  "Key i = i_Venue i @ '':'' @ i_Type i @ '':'' @ i_Base i @ ''/'' @ i_Quote i"

definition Pair :: "Instrument \<Rightarrow> string" where
  "Pair i = i_Base i @ ''/'' @ i_Quote i"

text \<open>\<open>ParsePair\<close> cuts at the first slash, canonicalises both sides and refuses the rest.\<close>

definition ParsePair :: "string \<Rightarrow> Err + (Currency \<times> Currency)" where
  "ParsePair s = (case Cut s CHR ''/'' of
      None \<Rightarrow> Inl (EText (''parse pair '' @ fmt_q s @ '': missing '' @ [CHR 0x27, CHR ''/'', CHR 0x27]))
    | Some (left, right) \<Rightarrow>
       (let base = NewCurrency left; quote = NewCurrency right in
        if base = [] \<or> quote = []
          then Inl (EText (''parse pair '' @ fmt_q s @ '': empty base or quote''))
        else if CHR ''/'' \<in> set quote
          then Inl (EText (''parse pair '' @ fmt_q s @ '': more than one '' @ [CHR 0x27, CHR ''/'', CHR 0x27]))
        else Inr (base, quote)))"

subsection \<open>Accounts\<close>

type_synonym AccountType = string

definition AccTypeSpot :: AccountType where "AccTypeSpot = ''spot''"
definition AccTypeFunding :: AccountType where "AccTypeFunding = ''funding''"
definition AccTypeUnified :: AccountType where "AccTypeUnified = ''unified''"
definition AccTypeMargin :: AccountType where "AccTypeMargin = ''margin''"

definition Valid :: "AccountType \<Rightarrow> bool" where
  "Valid t \<longleftrightarrow> t = AccTypeSpot \<or> t = AccTypeFunding \<or> t = AccTypeUnified \<or> t = AccTypeMargin"

record AccountRef =
  a_Venue :: VenueID
  a_Type :: AccountType

record Balance =
  b_Currency :: Currency
  b_Total :: Decimal
  b_Free :: Decimal
  b_Locked :: Decimal

record AccountSnapshot =
  s_Account :: AccountRef
  s_TakenAt :: Time
  s_Balances :: "Balance list"

fun nonZeroLoop :: "Balance list \<Rightarrow> Balance list \<Rightarrow> Balance list" where
  "nonZeroLoop out [] = out"
| "nonZeroLoop out (b # bs) = nonZeroLoop (if b_Total b \<noteq> 0 then out @ [b] else out) bs"

definition NonZero :: "AccountSnapshot \<Rightarrow> Balance list" where
  "NonZero s = nonZeroLoop [] (s_Balances s)"

subsection \<open>Market data\<close>

record Ticker =
  t_Instrument :: Instrument
  t_Bid :: Decimal
  t_Ask :: Decimal
  t_Last :: Decimal
  t_BidSize :: Decimal
  t_AskSize :: Decimal
  t_At :: Time

subsection \<open>Canonical forms\<close>

definition canonical :: "Currency \<Rightarrow> bool" where
  "canonical c \<longleftrightarrow> NewCurrency c = c"

lemma NewCurrency_idem [simp]: "NewCurrency (NewCurrency c) = NewCurrency c"
  unfolding NewCurrency_def by (simp add: ToUpper_def trim_map)

lemma NewVenueID_idem [simp]: "NewVenueID (NewVenueID v) = NewVenueID v"
  unfolding NewVenueID_def by (simp add: ToLower_def trim_map)

lemma canonical_NewCurrency [simp]: "canonical (NewCurrency c)"
  by (simp add: canonical_def)

lemma upper_slash [simp]: "upper_char c = CHR ''/'' \<longleftrightarrow> c = CHR ''/''"
proof -
  have "upper_char c = CHR ''/'' \<longleftrightarrow> (of_char (upper_char c) :: nat) = 47"
    using char_eqI [of "upper_char c" "CHR ''/''"] by auto
  also have "\<dots> \<longleftrightarrow> (of_char c :: nat) = 47"
    by (auto simp: of_char_upper)
  also have "\<dots> \<longleftrightarrow> c = CHR ''/''"
    using char_eqI [of c "CHR ''/''"] by auto
  finally show ?thesis .
qed

lemma NewCurrency_slash: "CHR ''/'' \<in> set (NewCurrency s) \<Longrightarrow> CHR ''/'' \<in> set s"
proof -
  assume "CHR ''/'' \<in> set (NewCurrency s)"
  then obtain c where "c \<in> set (TrimSpace s)" "upper_char c = CHR ''/''"
    unfolding NewCurrency_def ToUpper_def by (metis image_iff list.set_map)
  then show ?thesis using set_TrimSpace by auto
qed

lemma ParsePair_Pair:
  assumes "canonical (i_Base i)" "canonical (i_Quote i)" "i_Base i \<noteq> []" "i_Quote i \<noteq> []"
    and "CHR ''/'' \<notin> set (i_Base i)" "CHR ''/'' \<notin> set (i_Quote i)"
  shows "ParsePair (Pair i) = Inr (i_Base i, i_Quote i)"
  using assms by (simp add: ParsePair_def Pair_def Cut_append canonical_def)

lemma ParsePair_sound:
  assumes "ParsePair s = Inr (b, q)"
  shows "canonical b \<and> canonical q \<and> b \<noteq> [] \<and> q \<noteq> [] \<and> CHR ''/'' \<notin> set b \<and> CHR ''/'' \<notin> set q"
proof -
  from assms obtain l r where c: "Cut s CHR ''/'' = Some (l, r)"
    and b: "b = NewCurrency l" and q: "q = NewCurrency r"
    and ne: "b \<noteq> []" "q \<noteq> []" "CHR ''/'' \<notin> set q"
    by (auto simp: ParsePair_def Let_def split: option.splits if_splits)
  from Cut_Some [OF c] have "CHR ''/'' \<notin> set l" by blast
  then have "CHR ''/'' \<notin> set b" using NewCurrency_slash b by blast
  with b q ne show ?thesis by simp
qed

lemma nonZeroLoop_eq: "nonZeroLoop out bs = out @ filter (\<lambda>b. b_Total b \<noteq> 0) bs"
  by (induction bs arbitrary: out) auto

lemma NonZero_eq: "NonZero s = filter (\<lambda>b. b_Total b \<noteq> 0) (s_Balances s)"
  by (simp add: NonZero_def nonZeroLoop_eq)



end
