(* ===== verification/Ledger.thy ===== *)
theory Ledger
  imports Instrument
begin

section \<open>Inventory lots and lot selection\<close>

text \<open>
  \<open>internal/domain/ledger\<close>: a buy fill opens a lot, a sell fill closes shares of lots. The policy
  that picks the lots is the interface \<open>LotSelector\<close>, here the locale \<open>lot_selector\<close> with the laws
  the posting code relies on; \<open>FIFO\<close> is its only implementation and interprets the locale.
\<close>

record Lot =
  l_ID :: string
  l_BotID :: string
  l_Venue :: VenueID
  l_Base :: Currency
  l_Quote :: Currency
  l_Qty :: Decimal
  l_RemainingQty :: Decimal
  l_CostPrice :: Decimal
  l_OpenedAt :: Time

record Closure =
  c_LotID :: string
  c_Qty :: Decimal

record Allocation =
  Closures :: "Closure list"
  Unmatched :: Decimal

record Outcome =
  UnmatchedQty :: Decimal

text \<open>
  The comparator \<open>Select\<close> hands to \<open>sort.Slice\<close>, and its key: the opening time, then the lot ID.
\<close>

definition lot_less :: "Lot \<Rightarrow> Lot \<Rightarrow> bool" where
  "lot_less a b = (if l_OpenedAt a = l_OpenedAt b then l_ID a < l_ID b
     else l_OpenedAt a < l_OpenedAt b)"

definition lot_key :: "Lot \<Rightarrow> Time \<times> string" where
  "lot_key l = (l_OpenedAt l, l_ID l)"

text \<open>The \<open>for\<close> loop over the sorted lots: \<open>break\<close> when nothing remains, \<open>continue\<close> over empty lots.\<close>

fun selectLoop :: "Decimal \<Rightarrow> Closure list \<Rightarrow> Lot list \<Rightarrow> Allocation" where
  "selectLoop remaining cs [] = \<lparr>Closures = cs, Unmatched = remaining\<rparr>"
| "selectLoop remaining cs (lot # lots) =
    (if \<not> IsPositive remaining then \<lparr>Closures = cs, Unmatched = remaining\<rparr>
     else if \<not> IsPositive (l_RemainingQty lot) then selectLoop remaining cs lots
     else let qty = min remaining (l_RemainingQty lot) in
       selectLoop (remaining - qty) (cs @ [\<lparr>c_LotID = l_ID lot, c_Qty = qty\<rparr>]) lots)"

definition FIFO_Select :: "Lot list \<Rightarrow> Decimal \<Rightarrow> Allocation" where
  "FIFO_Select open_lots sellQty = selectLoop sellQty [] (sort_key lot_key open_lots)"

subsection \<open>The interface\<close>

text \<open>
  What a caller of a \<open>LotSelector\<close> may rely on, for a positive quantity and lots with distinct IDs:
  nothing is lost between the closures and the unmatched rest, every closure is a positive share of
  one of the lots and never more than it has left, and no lot is closed twice.
\<close>

definition total_closed :: "Allocation \<Rightarrow> Decimal" where
  "total_closed a = (\<Sum>c\<leftarrow>Closures a. c_Qty c)"

locale lot_selector =
  fixes Select :: "Lot list \<Rightarrow> Decimal \<Rightarrow> Allocation"
  assumes conserve: "0 < q \<Longrightarrow> total_closed (Select ls q) + Unmatched (Select ls q) = q"
    and unmatched_nonneg: "0 < q \<Longrightarrow> 0 \<le> Unmatched (Select ls q)"
    and closure_pos: "0 < q \<Longrightarrow> c \<in> set (Closures (Select ls q)) \<Longrightarrow> 0 < c_Qty c"
    and closure_lot: "0 < q \<Longrightarrow> c \<in> set (Closures (Select ls q)) \<Longrightarrow>
      \<exists>l\<in>set ls. l_ID l = c_LotID c \<and> c_Qty c \<le> l_RemainingQty l"
    and closure_distinct: "0 < q \<Longrightarrow> distinct (map l_ID ls) \<Longrightarrow>
      distinct (map c_LotID (Closures (Select ls q)))"
begin

lemma closed_le_demand: "0 < q \<Longrightarrow> total_closed (Select ls q) \<le> q"
  using conserve [of q ls] unmatched_nonneg [of q ls] by linarith

lemma closure_ids: "0 < q \<Longrightarrow> c_LotID ` set (Closures (Select ls q)) \<subseteq> l_ID ` set ls"
  by (rule image_subsetI) (metis closure_lot image_eqI)

end

subsection \<open>The loop\<close>

lemma selectLoop_acc:
  "Closures (selectLoop q cs ls) = cs @ Closures (selectLoop q [] ls)"
  "Unmatched (selectLoop q cs ls) = Unmatched (selectLoop q [] ls)"
proof -
  have "Closures (selectLoop q cs ls) = cs @ Closures (selectLoop q [] ls)
      \<and> Unmatched (selectLoop q cs ls) = Unmatched (selectLoop q [] ls)" for cs
  proof (induction ls arbitrary: q cs)
    case Nil
    then show ?case by simp
  next
    case (Cons l ls)
    show ?case
      using Cons.IH [of q cs] Cons.IH [of "q - min q (l_RemainingQty l)"
          "cs @ [\<lparr>c_LotID = l_ID l, c_Qty = min q (l_RemainingQty l)\<rparr>]"]
        Cons.IH [of "q - min q (l_RemainingQty l)" "[\<lparr>c_LotID = l_ID l, c_Qty = min q (l_RemainingQty l)\<rparr>]"]
      by (simp add: Let_def)
  qed
  then show "Closures (selectLoop q cs ls) = cs @ Closures (selectLoop q [] ls)"
    "Unmatched (selectLoop q cs ls) = Unmatched (selectLoop q [] ls)" by blast+
qed

text \<open>One turn of the loop, with the accumulator moved out of the way.\<close>

lemma selectLoop_Cons:
  "Closures (selectLoop q [] (l # ls)) =
    (if q \<le> 0 then [] else if l_RemainingQty l \<le> 0 then Closures (selectLoop q [] ls)
     else \<lparr>c_LotID = l_ID l, c_Qty = min q (l_RemainingQty l)\<rparr>
       # Closures (selectLoop (q - min q (l_RemainingQty l)) [] ls))"
  "Unmatched (selectLoop q [] (l # ls)) =
    (if q \<le> 0 then q else if l_RemainingQty l \<le> 0 then Unmatched (selectLoop q [] ls)
     else Unmatched (selectLoop (q - min q (l_RemainingQty l)) [] ls))"
  using selectLoop_acc [of "q - min q (l_RemainingQty l)" "[\<lparr>c_LotID = l_ID l, c_Qty = min q (l_RemainingQty l)\<rparr>]" ls]
  by (auto simp: Let_def)

declare selectLoop.simps(2) [simp del]
declare selectLoop_Cons [simp]

lemma selectLoop_done [simp]: "q \<le> 0 \<Longrightarrow> selectLoop q cs ls = \<lparr>Closures = cs, Unmatched = q\<rparr>"
  by (cases ls) (auto simp: selectLoop.simps(2))

lemma selectLoop_conserve:
  "total_closed (selectLoop q [] ls) + Unmatched (selectLoop q [] ls) = q"
  by (induction ls arbitrary: q) (auto simp: total_closed_def algebra_simps)

lemma selectLoop_unmatched_nonneg: "0 \<le> q \<Longrightarrow> 0 \<le> Unmatched (selectLoop q [] ls)"
  by (induction ls arbitrary: q) auto

lemma selectLoop_closure:
  "c \<in> set (Closures (selectLoop q [] ls)) \<Longrightarrow>
    0 < c_Qty c \<and> (\<exists>l\<in>set ls. l_ID l = c_LotID c \<and> c_Qty c \<le> l_RemainingQty l)"
  by (induction ls arbitrary: q) (auto split: if_splits)

lemma selectLoop_ids: "c_LotID ` set (Closures (selectLoop q [] ls)) \<subseteq> l_ID ` set ls"
  by (rule image_subsetI) (metis selectLoop_closure image_eqI)

lemma selectLoop_distinct:
  "distinct (map l_ID ls) \<Longrightarrow> distinct (map c_LotID (Closures (selectLoop q [] ls)))"
proof (induction ls arbitrary: q)
  case Nil
  then show ?case by simp
next
  case (Cons l ls)
  moreover have "l_ID l \<notin> c_LotID ` set (Closures (selectLoop q' [] ls))" for q'
    using Cons.prems selectLoop_ids [of q' ls] by auto
  ultimately show ?case by (auto simp: image_iff)
qed

lemma distinct_sort_key_map: "distinct (map f (sort_key k xs)) = distinct (map f xs)"
  by (metis mset_map mset_sort mset_eq_imp_distinct_iff)

interpretation fifo: lot_selector FIFO_Select
  by unfold_locales
    (simp_all add: FIFO_Select_def selectLoop_conserve selectLoop_unmatched_nonneg
      selectLoop_distinct distinct_sort_key_map selectLoop_closure [where ls = "sort_key lot_key _", simplified])

subsection \<open>The closed form of FIFO\<close>

text \<open>
  The reference: number the lots in order. Lot \<open>i\<close> gives what is left of the demand after all the
  inventory ahead of it, at most what it has. No loop and no running remainder.
\<close>

definition inventory_ahead :: "Lot list \<Rightarrow> nat \<Rightarrow> Decimal" where
  "inventory_ahead ls i = (\<Sum>l\<leftarrow>take i ls. max 0 (l_RemainingQty l))"

definition fifo_share :: "Lot list \<Rightarrow> Decimal \<Rightarrow> nat \<Rightarrow> Decimal" where
  "fifo_share ls q i = min (l_RemainingQty (ls ! i)) (q - inventory_ahead ls i)"

definition fifo_reference :: "Lot list \<Rightarrow> Decimal \<Rightarrow> Allocation" where
  "fifo_reference ls q = \<lparr>
     Closures = map (\<lambda>i. \<lparr>c_LotID = l_ID (ls ! i), c_Qty = fifo_share ls q i\<rparr>)
       (filter (\<lambda>i. 0 < fifo_share ls q i) [0..<length ls]),
     Unmatched = max 0 (q - inventory_ahead ls (length ls))\<rparr>"

lemma inventory_ahead_0 [simp]: "inventory_ahead ls 0 = 0"
  by (simp add: inventory_ahead_def)

lemma inventory_ahead_Cons [simp]:
  "inventory_ahead (l # ls) (Suc i) = max 0 (l_RemainingQty l) + inventory_ahead ls i"
  by (simp add: inventory_ahead_def)

lemma inventory_ahead_nonneg [simp]: "0 \<le> inventory_ahead ls i"
  by (auto simp: inventory_ahead_def intro!: sum_list_nonneg_rat)

lemma fifo_share_0 [simp]: "fifo_share (l # ls) q 0 = min (l_RemainingQty l) q"
  by (simp add: fifo_share_def)

lemma fifo_share_Suc [simp]:
  "fifo_share (l # ls) q (Suc i) = fifo_share ls (q - max 0 (l_RemainingQty l)) i"
  by (simp add: fifo_share_def algebra_simps)

lemma filter_upt_Cons: "filter P [0..<Suc n] = (if P 0 then [0] else []) @ map Suc (filter (P \<circ> Suc) [0..<n])"
proof -
  have "[0..<Suc n] = 0 # map Suc [0..<n]" by (simp add: map_Suc_upt upt_conv_Cons)
  then show ?thesis by (simp add: filter_map)
qed

lemma fifo_reference_Cons:
  "Closures (fifo_reference (l # ls) q) =
    (if 0 < min (l_RemainingQty l) q then [\<lparr>c_LotID = l_ID l, c_Qty = min (l_RemainingQty l) q\<rparr>] else [])
      @ Closures (fifo_reference ls (q - max 0 (l_RemainingQty l)))"
  by (simp add: fifo_reference_def filter_upt_Cons comp_def del: upt_Suc)

lemma fifo_reference_none: "q \<le> 0 \<Longrightarrow> Closures (fifo_reference ls q) = []"
proof -
  assume "q \<le> 0"
  then have "\<not> 0 < fifo_share ls q i" for i
    using inventory_ahead_nonneg [of ls i] unfolding fifo_share_def by linarith
  then show ?thesis by (simp add: fifo_reference_def)
qed

lemma selectLoop_reference: "0 \<le> q \<Longrightarrow> selectLoop q [] ls = fifo_reference ls q"
proof (induction ls arbitrary: q)
  case Nil
  then show ?case by (simp add: fifo_reference_def)
next
  case (Cons l ls)
  let ?r = "l_RemainingQty l"
  have u: "Unmatched (fifo_reference (l # ls) q) = max 0 (q - max 0 ?r - inventory_ahead ls (length ls))"
    by (simp add: fifo_reference_def algebra_simps)
  have IH: "0 \<le> q' \<Longrightarrow> selectLoop q' [] ls = fifo_reference ls q'" for q' by (rule Cons.IH)
  have un: "Unmatched (fifo_reference ls q') = max 0 (q' - inventory_ahead ls (length ls))" for q'
    by (simp add: fifo_reference_def)
  have inv: "0 \<le> inventory_ahead ls (length ls)" by simp
  have "Closures (selectLoop q [] (l # ls)) = Closures (fifo_reference (l # ls) q)"
    using Cons.prems IH by (auto simp: fifo_reference_Cons fifo_reference_none min.commute min_def max_def)
  moreover have "Unmatched (selectLoop q [] (l # ls)) = Unmatched (fifo_reference (l # ls) q)"
  proof (cases "q \<le> ?r")
    case True
    then have "q \<le> max 0 ?r" by simp
    with inv have "q - max 0 ?r - inventory_ahead ls (length ls) \<le> 0" by linarith
    with True Cons.prems show ?thesis by (simp add: u max_absorb1)
  next
    case False
    with Cons.prems IH show ?thesis by (auto simp: u un max_def intro: order.antisym)
  qed
  ultimately show ?case by (intro Allocation.equality) simp_all
qed

text \<open>
  The comparator orders lots by their key; with distinct lot IDs any list that is sorted by it and
  has the same lots is the one the model computes, so the choice of sorting algorithm, which
  \<open>sort.Slice\<close> leaves open, does not matter.
\<close>

lemma lot_less_key: "lot_less a b \<longleftrightarrow> lot_key a < lot_key b"
  by (auto simp: lot_less_def lot_key_def less_prod_def less_eq_prod_def)

lemma sorted_by_lot_less_unique:
  assumes "mset ys = mset ls" and "distinct (map l_ID ls)"
    and "sorted_wrt (\<lambda>a b. \<not> lot_less b a) ys"
  shows "ys = sort_key lot_key ls"
proof (rule sym, rule properties_for_sort_key)
  show "mset ys = mset ls" by fact
  show "sorted (map lot_key ys)"
    using assms(3) by (simp add: sorted_map lot_less_key not_less)
  have d: "distinct (map l_ID ys)"
    using assms(1,2) by (metis mset_map mset_eq_imp_distinct_iff)
  show "filter (\<lambda>x. lot_key k = lot_key x) ys = filter (\<lambda>x. lot_key k = lot_key x) ls"
    if "k \<in> set ys" for k
  proof -
    have only: "filter (\<lambda>x. lot_key k = lot_key x) zs = [k]" if "distinct (map l_ID zs)" "k \<in> set zs" for zs
      using that
    proof (induction zs)
      case Nil
      then show ?case by simp
    next
      case (Cons z zs)
      then show ?case
        by (cases "z = k") (auto simp: lot_key_def filter_empty_conv rev_image_eqI)
    qed
    have "k \<in> set ls" using that assms(1) by (metis mset_eq_setD)
    then show ?thesis using only d assms(2) that by simp
  qed
qed


lemma inventory_ahead_mono: "i \<le> j \<Longrightarrow> inventory_ahead ls i \<le> inventory_ahead ls j"
proof -
  assume "i \<le> j"
  then have "take j ls = take i ls @ take (j - i) (drop i ls)"
    by (metis le_add_diff_inverse take_add)
  moreover have "0 \<le> (\<Sum>l\<leftarrow>take (j - i) (drop i ls). max 0 (l_RemainingQty l))"
    by (rule sum_list_nonneg_rat) simp
  ultimately show ?thesis by (simp add: inventory_ahead_def)
qed

lemma inventory_ahead_Suc:
  "i < length ls \<Longrightarrow> inventory_ahead ls (Suc i) = inventory_ahead ls i + max 0 (l_RemainingQty (ls ! i))"
  by (simp add: inventory_ahead_def take_Suc_conv_app_nth)

text \<open>A lot that gives something has every older lot with inventory given completely.\<close>

lemma fifo_share_older_full:
  assumes "i < j" "j < length ls" "0 < fifo_share ls q j" "0 < l_RemainingQty (ls ! i)"
  shows "fifo_share ls q i = l_RemainingQty (ls ! i)"
proof -
  have "inventory_ahead ls i + l_RemainingQty (ls ! i) = inventory_ahead ls (Suc i)"
    using assms by (simp add: inventory_ahead_Suc)
  also have "\<dots> \<le> inventory_ahead ls j" using assms(1) by (simp add: inventory_ahead_mono)
  also have "\<dots> < q" using assms(3) by (simp add: fifo_share_def)
  finally show ?thesis by (simp add: fifo_share_def)
qed

lemma fifo_reference_closure_iff:
  assumes "distinct (map l_ID ls)" "i < length ls"
  shows "\<lparr>c_LotID = l_ID (ls ! i), c_Qty = x\<rparr> \<in> set (Closures (fifo_reference ls q))
    \<longleftrightarrow> 0 < x \<and> x = fifo_share ls q i"
proof -
  have "j = i" if "j < length ls" "l_ID (ls ! j) = l_ID (ls ! i)" for j
    using that assms by (metis length_map nth_eq_iff_index_eq nth_map)
  then show ?thesis using assms(2) by (auto simp: fifo_reference_def)
qed

lemma inventory_sort: "inventory_ahead (sort_key k ls) (length ls) = (\<Sum>l\<leftarrow>ls. max 0 (l_RemainingQty l))"
proof -
  have "inventory_ahead (sort_key k ls) (length ls) = (\<Sum>l\<leftarrow>sort_key k ls. max 0 (l_RemainingQty l))"
    by (simp add: inventory_ahead_def)
  also have "\<dots> = sum_mset (mset (map (\<lambda>l. max 0 (l_RemainingQty l)) (sort_key k ls)))"
    by (simp only: sum_mset_sum_list)
  also have "\<dots> = sum_mset (mset (map (\<lambda>l. max 0 (l_RemainingQty l)) ls))" by simp
  also have "\<dots> = (\<Sum>l\<leftarrow>ls. max 0 (l_RemainingQty l))" by (simp only: sum_mset_sum_list)
  finally show ?thesis .
qed

lemma FIFO_Select_eq: "0 < q \<Longrightarrow> FIFO_Select ls q = fifo_reference (sort_key lot_key ls) q"
  by (simp add: FIFO_Select_def selectLoop_reference)

subsection \<open>Properties of FIFO selection\<close>

text \<open>
  C34: FIFO selection equals its closed form. For a positive quantity and lots with distinct IDs,
  and for every arrangement of those lots that the comparator of the source accepts as sorted,
  the loop returns the allocation in which lot \<open>i\<close> of the arrangement gives the smaller of
  what it has and what the lots before it left of the demand, and the unmatched rest is the excess
  of the demand over the whole inventory. The sorting algorithm is therefore irrelevant.
\<close>

theorem FIFO_Select_closed_form:
  assumes "0 < q" and "distinct (map l_ID open_lots)"
    and "mset ys = mset open_lots" and "sorted_wrt (\<lambda>a b. \<not> lot_less b a) ys"
  shows "FIFO_Select open_lots q = fifo_reference ys q"
  using FIFO_Select_eq [OF assms(1)] sorted_by_lot_less_unique [OF assms(3,2,4)] by simp

definition demo_lot :: "string \<Rightarrow> Decimal \<Rightarrow> int \<Rightarrow> Lot" where
  "demo_lot i r t = \<lparr>l_ID = i, l_BotID = ''manual'', l_Venue = ''bybit'', l_Base = ''BTC'', l_Quote = ''USDT'',
     l_Qty = r, l_RemainingQty = r, l_CostPrice = 50000, l_OpenedAt = Time t\<rparr>"

lemma FIFO_Select_closed_form_witness:
  "FIFO_Select [demo_lot ''B'' (1/5) 2, demo_lot ''A'' (3/10) 1] (2/5) =
    fifo_reference [demo_lot ''A'' (3/10) 1, demo_lot ''B'' (1/5) 2] (2/5)"
  by (rule FIFO_Select_closed_form) (simp_all add: demo_lot_def lot_less_def less_Time_def)

text \<open>
  FIFO selection conserves quantity. For a positive sell quantity the closures and the
  unmatched rest add up to exactly the quantity sold, and the unmatched rest is the excess of the
  quantity over the inventory of the lots, zero when the inventory suffices.
\<close>

theorem FIFO_Select_conserves:
  assumes "0 < q"
  shows "(\<Sum>c\<leftarrow>Closures (FIFO_Select ls q). c_Qty c) + Unmatched (FIFO_Select ls q) = q
    \<and> Unmatched (FIFO_Select ls q) = max 0 (q - (\<Sum>l\<leftarrow>ls. max 0 (l_RemainingQty l)))"
  using fifo.conserve [OF assms, of ls]
  by (simp add: total_closed_def FIFO_Select_eq [OF assms] fifo_reference_def inventory_sort)

lemma FIFO_Select_conserves_witness:
  "(\<Sum>c\<leftarrow>Closures (FIFO_Select [demo_lot ''A'' (3/10) 1] (2/5)). c_Qty c)
    + Unmatched (FIFO_Select [demo_lot ''A'' (3/10) 1] (2/5)) = 2/5
   \<and> Unmatched (FIFO_Select [demo_lot ''A'' (3/10) 1] (2/5)) = 1/10"
  using FIFO_Select_conserves [of "2/5" "[demo_lot ''A'' (3/10) 1]"] by (simp add: demo_lot_def)

text \<open>
  The oldest lots are closed first. If the allocation touches a lot \<open>b\<close>, then every lot
  \<open>a\<close> that the comparator puts before \<open>b\<close> and that has inventory is closed for all it has: no
  younger lot gives anything while an older one keeps something.
\<close>

theorem FIFO_Select_oldest_first:
  assumes "0 < q" and "distinct (map l_ID ls)" and "a \<in> set ls" and "b \<in> set ls"
    and "lot_less a b" and "0 < l_RemainingQty a"
    and "\<lparr>c_LotID = l_ID b, c_Qty = x\<rparr> \<in> set (Closures (FIFO_Select ls q))"
  shows "\<lparr>c_LotID = l_ID a, c_Qty = l_RemainingQty a\<rparr> \<in> set (Closures (FIFO_Select ls q))"
proof -
  let ?s = "sort_key lot_key ls"
  have d: "distinct (map l_ID ?s)" using assms(2) by (simp add: distinct_sort_key_map)
  from assms(3,4) obtain i j where ij: "i < length ?s" "?s ! i = a" "j < length ?s" "?s ! j = b"
    by (metis in_set_conv_nth set_sort)
  have "i < j"
  proof (rule ccontr)
    assume "\<not> i < j"
    then have "lot_key (?s ! j) \<le> lot_key (?s ! i)"
      using sorted_nth_mono [OF sorted_sort_key [of lot_key ls], of j i] ij by simp
    with assms(5) ij show False by (simp add: lot_less_key)
  qed
  have "0 < fifo_share ?s q j"
    using assms(7) fifo_reference_closure_iff [OF d ij(3), of x q] ij FIFO_Select_eq [OF assms(1)] by simp
  then have "fifo_share ?s q i = l_RemainingQty a"
    using fifo_share_older_full [OF \<open>i < j\<close> ij(3)] assms(6) ij by simp
  then show ?thesis
    using fifo_reference_closure_iff [OF d ij(1), of "l_RemainingQty a" q] assms(1,6) ij FIFO_Select_eq by simp
qed

lemma FIFO_Select_oldest_first_witness:
  "\<lparr>c_LotID = ''A'', c_Qty = 3/10\<rparr> \<in>
     set (Closures (FIFO_Select [demo_lot ''B'' (1/5) 2, demo_lot ''A'' (3/10) 1] (2/5)))"
  using FIFO_Select_oldest_first [of "2/5" "[demo_lot ''B'' (1/5) 2, demo_lot ''A'' (3/10) 1]"
      "demo_lot ''A'' (3/10) 1" "demo_lot ''B'' (1/5) 2" "1/10"]
  by (simp add: demo_lot_def lot_less_def less_Time_def FIFO_Select_def lot_key_def less_eq_Time_def
      less_prod_def less_eq_prod_def insort_key_def)

end
