(* ===== verification/Order_Machine.thy ===== *)
theory Order_Machine
  imports Ledger
begin

section \<open>Orders and their state machine\<close>

text \<open>
  \<open>internal/domain/order\<close>: the order model (\<open>order.go\<close>) and the pure state machine
  (\<open>machine.go\<close>). Statuses, sides, types and sources are Go strings with named constants, so an
  unknown text is a value of the type and \<open>rank\<close> fails on it. \<open>Transition\<close> decides what one venue
  event does to the stored state; \<open>apply_decision\<close> is what the store does with the decision.
  The machine is shown to compute a join in a semilattice of ranks and quantities, which gives
  convergence under reordering and duplication, idempotence and monotonicity.
\<close>

type_synonym ClientOrderID = string
type_synonym Side = string
type_synonym OrderType = string
type_synonym Status = string
type_synonym Source = string
type_synonym DropReason = string

definition Buy :: Side where "Buy = ''buy''"
definition Sell :: Side where "Sell = ''sell''"

definition Limit :: OrderType where "Limit = ''limit''"
definition Market :: OrderType where "Market = ''market''"

definition StatusPending :: Status where "StatusPending = ''pending''"
definition StatusOpen :: Status where "StatusOpen = ''open''"
definition StatusPartiallyFilled :: Status where "StatusPartiallyFilled = ''partially_filled''"
definition StatusFilled :: Status where "StatusFilled = ''filled''"
definition StatusCanceled :: Status where "StatusCanceled = ''canceled''"
definition StatusRejected :: Status where "StatusRejected = ''rejected''"
definition StatusExpired :: Status where "StatusExpired = ''expired''"

lemmas status_defs = StatusPending_def StatusOpen_def StatusPartiallyFilled_def StatusFilled_def
  StatusCanceled_def StatusRejected_def StatusExpired_def

definition SourceLocal :: Source where "SourceLocal = ''local''"
definition SourceAck :: Source where "SourceAck = ''ack''"
definition SourceStream :: Source where "SourceStream = ''stream''"
definition SourceReconcile :: Source where "SourceReconcile = ''reconcile''"

record Request =
  rq_ClientOrderID :: ClientOrderID
  rq_BotID :: string
  rq_Instrument :: Instrument
  rq_Side :: Side
  rq_Type :: OrderType
  rq_Price :: Decimal
  rq_Qty :: Decimal

record OrderRecord =
  or_ClientOrderID :: ClientOrderID
  or_BotID :: string
  or_VenueOrderID :: string
  or_Reason :: string
  or_Instrument :: Instrument
  or_Side :: Side
  or_Type :: OrderType
  or_Price :: Decimal
  or_Qty :: Decimal
  or_FilledQty :: Decimal
  or_AvgFillPrice :: Decimal
  or_Status :: Status
  or_CancelRequestedAt :: Time
  or_CreatedAt :: Time
  or_UpdatedAt :: Time

record Query =
  q_Venue :: "string option"
  q_BotID :: "string option"
  q_CursorID :: "string option"
  q_Statuses :: "string list"
  q_Limit :: int
  q_CursorCreatedAt :: "Time option"

record Ref =
  rf_Instrument :: Instrument
  rf_ClientOrderID :: ClientOrderID
  rf_VenueOrderID :: string

record Ack =
  ak_Ref :: Ref
  ak_Status :: Status
  ak_AcceptedAt :: Time

record Snapshot =
  sn_Ref :: Ref
  sn_Status :: Status
  sn_Price :: Decimal
  sn_Qty :: Decimal
  sn_FilledQty :: Decimal
  sn_AvgFillPrice :: Decimal
  sn_UpdatedAt :: Time

record Event =
  ev_Ref :: Ref
  ev_Status :: Status
  ev_FilledQty :: Decimal
  ev_FillPrice :: Decimal
  ev_VenueFillID :: string
  ev_Fee :: Decimal
  ev_FeeCurrency :: Currency
  ev_Reason :: string
  ev_At :: Time

subsection \<open>The machine\<close>

definition rank :: "Status \<Rightarrow> Err + nat" where
  "rank s =
    (if s = StatusPending then Inr 0
     else if s = StatusOpen then Inr 1
     else if s = StatusPartiallyFilled then Inr 2
     else if s = StatusFilled \<or> s = StatusCanceled \<or> s = StatusRejected \<or> s = StatusExpired then Inr 3
     else Inl (EText (''order: unknown status '' @ fmt_q s)))"

definition terminalRank :: nat where "terminalRank = 3"

definition Terminal :: "Status \<Rightarrow> bool" where
  "Terminal s = (case rank s of Inl _ \<Rightarrow> False | Inr r \<Rightarrow> r = terminalRank)"

record State =
  st_Status :: Status
  st_FilledQty :: Decimal

definition DropStale :: DropReason where "DropStale = ''stale''"
definition DropDuplicate :: DropReason where "DropDuplicate = ''duplicate''"
definition DropTerminal :: DropReason where "DropTerminal = ''terminal''"

record Decision =
  d_Transition :: bool
  d_To :: Status
  d_FillDelta :: Decimal
  d_FillAnomaly :: bool
  d_Drop :: DropReason

record ApplyResult =
  ar_Decision :: Decision
  ar_Outcome :: Outcome
  ar_FillConflict :: bool

definition Transition :: "State \<Rightarrow> Event \<Rightarrow> Err + Decision" where
  "Transition current ev =
    bindR (rank (st_Status current)) (\<lambda>curRank.
    bindR (rank (ev_Status ev)) (\<lambda>evRank.
      let delta = ev_FilledQty ev - st_FilledQty current;
          fill = (if IsPositive delta \<and> ev_Status ev \<noteq> StatusPending then delta else 0)
      in
      if curRank = terminalRank then
        Inr \<lparr>d_Transition = False, d_To = st_Status current, d_FillDelta = fill,
             d_FillAnomaly = False, d_Drop = DropTerminal\<rparr>
      else if IsNegative delta \<and> evRank \<le> curRank then
        Inr \<lparr>d_Transition = False, d_To = st_Status current, d_FillDelta = 0,
             d_FillAnomaly = False, d_Drop = DropStale\<rparr>
      else if IsNegative delta then
        Inr \<lparr>d_Transition = True, d_To = ev_Status ev, d_FillDelta = 0,
             d_FillAnomaly = True, d_Drop = []\<rparr>
      else if evRank < curRank then
        Inr \<lparr>d_Transition = False, d_To = st_Status current, d_FillDelta = fill,
             d_FillAnomaly = False, d_Drop = DropStale\<rparr>
      else if evRank > curRank then
        Inr \<lparr>d_Transition = True, d_To = ev_Status ev, d_FillDelta = fill,
             d_FillAnomaly = False, d_Drop = []\<rparr>
      else if ev_Status ev = StatusPartiallyFilled \<and> IsPositive fill then
        Inr \<lparr>d_Transition = True, d_To = ev_Status ev, d_FillDelta = fill,
             d_FillAnomaly = False, d_Drop = []\<rparr>
      else
        Inr \<lparr>d_Transition = False, d_To = st_Status current, d_FillDelta = fill,
             d_FillAnomaly = False, d_Drop = DropDuplicate\<rparr>))"

text \<open>
  What the store does with a decision (\<open>persistDecision\<close> writes \<open>decision.To\<close> and the stored
  quantity plus the delta), and a run over a sequence of events; an event the machine refuses with
  an error leaves the state alone.
\<close>

definition apply_decision :: "State \<Rightarrow> Decision \<Rightarrow> State" where
  "apply_decision st d = \<lparr>st_Status = d_To d, st_FilledQty = st_FilledQty st + d_FillDelta d\<rparr>"

definition machine_step :: "Event \<Rightarrow> State \<Rightarrow> State" where
  "machine_step ev st = (case Transition st ev of Inl _ \<Rightarrow> st | Inr d \<Rightarrow> apply_decision st d)"

definition machine_run :: "Event list \<Rightarrow> State \<Rightarrow> State" where
  "machine_run evs st = fold machine_step evs st"

subsection \<open>Ranks\<close>

lemma status_distinct [simp]:
  "StatusPending \<noteq> StatusOpen" "StatusPending \<noteq> StatusPartiallyFilled" "StatusPending \<noteq> StatusFilled"
  "StatusPending \<noteq> StatusCanceled" "StatusPending \<noteq> StatusRejected" "StatusPending \<noteq> StatusExpired"
  "StatusOpen \<noteq> StatusPending" "StatusOpen \<noteq> StatusPartiallyFilled" "StatusOpen \<noteq> StatusFilled"
  "StatusOpen \<noteq> StatusCanceled" "StatusOpen \<noteq> StatusRejected" "StatusOpen \<noteq> StatusExpired"
  "StatusPartiallyFilled \<noteq> StatusPending" "StatusPartiallyFilled \<noteq> StatusOpen"
  "StatusPartiallyFilled \<noteq> StatusFilled" "StatusPartiallyFilled \<noteq> StatusCanceled"
  "StatusPartiallyFilled \<noteq> StatusRejected" "StatusPartiallyFilled \<noteq> StatusExpired"
  "StatusFilled \<noteq> StatusPending" "StatusFilled \<noteq> StatusOpen" "StatusFilled \<noteq> StatusPartiallyFilled"
  "StatusFilled \<noteq> StatusCanceled" "StatusFilled \<noteq> StatusRejected" "StatusFilled \<noteq> StatusExpired"
  "StatusCanceled \<noteq> StatusPending" "StatusCanceled \<noteq> StatusOpen" "StatusCanceled \<noteq> StatusPartiallyFilled"
  "StatusCanceled \<noteq> StatusFilled" "StatusCanceled \<noteq> StatusRejected" "StatusCanceled \<noteq> StatusExpired"
  "StatusRejected \<noteq> StatusPending" "StatusRejected \<noteq> StatusOpen" "StatusRejected \<noteq> StatusPartiallyFilled"
  "StatusRejected \<noteq> StatusFilled" "StatusRejected \<noteq> StatusCanceled" "StatusRejected \<noteq> StatusExpired"
  "StatusExpired \<noteq> StatusPending" "StatusExpired \<noteq> StatusOpen" "StatusExpired \<noteq> StatusPartiallyFilled"
  "StatusExpired \<noteq> StatusFilled" "StatusExpired \<noteq> StatusCanceled" "StatusExpired \<noteq> StatusRejected"
  by (simp_all add: status_defs)

lemma status_nonempty [simp]:
  "StatusPending \<noteq> []" "StatusOpen \<noteq> []" "StatusPartiallyFilled \<noteq> []" "StatusFilled \<noteq> []"
  "StatusCanceled \<noteq> []" "StatusRejected \<noteq> []" "StatusExpired \<noteq> []"
  by (simp_all add: status_defs)

lemma drop_nonempty [simp]: "DropStale \<noteq> []" "DropDuplicate \<noteq> []" "DropTerminal \<noteq> []"
  by (simp_all add: DropStale_def DropDuplicate_def DropTerminal_def)

lemma drop_distinct [simp]:
  "DropStale \<noteq> DropDuplicate" "DropStale \<noteq> DropTerminal" "DropDuplicate \<noteq> DropTerminal"
  "DropDuplicate \<noteq> DropStale" "DropTerminal \<noteq> DropStale" "DropTerminal \<noteq> DropDuplicate"
  by (simp_all add: DropStale_def DropDuplicate_def DropTerminal_def)

text \<open>The statuses the machine knows, and the rank of a known one as a number.\<close>

definition known_status :: "Status \<Rightarrow> bool" where
  "known_status s \<longleftrightarrow> s \<in> {StatusPending, StatusOpen, StatusPartiallyFilled, StatusFilled,
     StatusCanceled, StatusRejected, StatusExpired}"

definition rank_of :: "Status \<Rightarrow> nat" where
  "rank_of s = (if s = StatusPending then 0 else if s = StatusOpen then 1
     else if s = StatusPartiallyFilled then 2 else 3)"

lemma rank_known: "known_status s \<Longrightarrow> rank s = Inr (rank_of s)"
  by (auto simp: known_status_def rank_def rank_of_def)

lemma rank_Inr_iff: "rank s = Inr r \<longleftrightarrow> known_status s \<and> r = rank_of s"
  by (auto simp: known_status_def rank_def rank_of_def)

lemma rank_Inl_iff: "(\<exists>e. rank s = Inl e) \<longleftrightarrow> \<not> known_status s"
  by (cases "rank s") (auto simp: rank_Inr_iff rank_known)

lemma rank_of_simps [simp]:
  "rank_of StatusPending = 0" "rank_of StatusOpen = Suc 0" "rank_of StatusPartiallyFilled = 2"
  "rank_of StatusFilled = 3" "rank_of StatusCanceled = 3" "rank_of StatusRejected = 3" "rank_of StatusExpired = 3"
  by (simp_all add: rank_of_def)

lemma known_simps [simp]:
  "known_status StatusPending" "known_status StatusOpen" "known_status StatusPartiallyFilled"
  "known_status StatusFilled" "known_status StatusCanceled" "known_status StatusRejected"
  "known_status StatusExpired"
  by (simp_all add: known_status_def)

lemma rank_of_le: "rank_of s \<le> 3"
  by (simp add: rank_of_def)

lemma rank_of_pending_iff [simp]: "rank_of s = 0 \<longleftrightarrow> s = StatusPending"
  by (simp add: rank_of_def)

lemma Terminal_iff: "Terminal s \<longleftrightarrow> known_status s \<and> rank_of s = 3"
  by (auto simp: Terminal_def terminalRank_def rank_Inr_iff rank_known split: sum.splits)

text \<open>Below the terminal rank a rank names one status.\<close>

lemma rank_of_inj: "rank_of s = rank_of t \<Longrightarrow> rank_of s \<noteq> 3 \<Longrightarrow> s = t"
  by (auto simp: rank_of_def split: if_splits)

subsection \<open>The join the machine computes\<close>

text \<open>
  The abstract step: the status of higher rank wins, the stored one at equal rank, and the
  cumulative quantity is the greater of the stored one and the event's, unless the event is pending.
\<close>

definition join_event :: "Event \<Rightarrow> State \<Rightarrow> State" where
  "join_event ev st = \<lparr>
     st_Status = (if rank_of (st_Status st) < rank_of (ev_Status ev) then ev_Status ev else st_Status st),
     st_FilledQty = (if ev_Status ev = StatusPending then st_FilledQty st
       else max (st_FilledQty st) (ev_FilledQty ev))\<rparr>"

lemma Transition_known:
  assumes "known_status (st_Status st)" "known_status (ev_Status ev)"
  shows "\<exists>d. Transition st ev = Inr d \<and> apply_decision st d = join_event ev st"
proof -
  have r: "rank (st_Status st) = Inr (rank_of (st_Status st))"
    "rank (ev_Status ev) = Inr (rank_of (ev_Status ev))"
    using assms by (simp_all add: rank_known)
  have le: "rank_of (ev_Status ev) \<le> 3" by (rule rank_of_le)
  consider (ended) "rank_of (st_Status st) = 3"
    | (neg) "rank_of (st_Status st) \<noteq> 3" "ev_FilledQty ev < st_FilledQty st"
    | (pos) "rank_of (st_Status st) \<noteq> 3" "st_FilledQty st \<le> ev_FilledQty ev"
    by linarith
  then show ?thesis
  proof cases
    case ended
    with le show ?thesis
      by (auto simp: Transition_def r apply_decision_def join_event_def terminalRank_def max_def)
  next
    case neg
    with le show ?thesis
      by (auto simp: Transition_def r apply_decision_def join_event_def terminalRank_def max_def)
  next
    case pos
    then show ?thesis
      using le rank_of_inj [of "ev_Status ev" "st_Status st"]
      by (auto simp: Transition_def Let_def r apply_decision_def join_event_def terminalRank_def max_def)
  qed
qed

lemma Transition_Inr:
  assumes "Transition st ev = Inr d"
  shows "known_status (st_Status st)" "known_status (ev_Status ev)" "known_status (d_To d)" "0 \<le> d_FillDelta d"
    "apply_decision st d = join_event ev st"
proof -
  show k: "known_status (st_Status st)" "known_status (ev_Status ev)"
    using assms by (auto simp: Transition_def rank_Inr_iff)
  show j: "apply_decision st d = join_event ev st" using Transition_known [OF k] assms by auto
  then show "known_status (d_To d)" "0 \<le> d_FillDelta d"
    using k by (auto simp: apply_decision_def join_event_def split: if_splits)
qed

lemma machine_step_known:
  "known_status (st_Status st) \<Longrightarrow> known_status (ev_Status ev) \<Longrightarrow> machine_step ev st = join_event ev st"
  using Transition_known [of st ev] by (auto simp: machine_step_def)

lemma join_event_known:
  "known_status (st_Status st) \<Longrightarrow> known_status (ev_Status ev) \<Longrightarrow> known_status (st_Status (join_event ev st))"
  by (simp add: join_event_def)

lemma machine_run_join:
  "known_status (st_Status st) \<Longrightarrow> \<forall>ev\<in>set evs. known_status (ev_Status ev) \<Longrightarrow>
    machine_run evs st = fold join_event evs st"
  by (induction evs arbitrary: st) (auto simp: machine_run_def machine_step_known join_event_known)

lemma join_event_idem: "join_event ev (join_event ev st) = join_event ev st"
  by (simp add: join_event_def)

lemma join_event_commute:
  assumes "rank_of (ev_Status a) = 3 \<Longrightarrow> rank_of (ev_Status b) = 3 \<Longrightarrow> ev_Status a = ev_Status b"
  shows "join_event a (join_event b st) = join_event b (join_event a st)"
proof -
  have "rank_of (ev_Status a) = rank_of (ev_Status b) \<Longrightarrow> ev_Status a = ev_Status b"
    using assms rank_of_inj by metis
  then show ?thesis
    by (auto simp: join_event_def max.commute max.left_commute)
qed

lemma join_event_mono:
  "rank_of (st_Status st) \<le> rank_of (st_Status (join_event ev st))"
  "st_FilledQty st \<le> st_FilledQty (join_event ev st)"
  by (simp_all add: join_event_def)

lemma fold_join_mono:
  "rank_of (st_Status st) \<le> rank_of (st_Status (fold join_event evs st))
   \<and> st_FilledQty st \<le> st_FilledQty (fold join_event evs st)"
  by (induction evs arbitrary: st) (auto intro: order_trans join_event_mono)

text \<open>Terminal events that agree make the joins of a sequence commute, so only its set matters.\<close>

definition terminals_agree :: "Event list \<Rightarrow> bool" where
  "terminals_agree evs \<longleftrightarrow> (\<forall>a\<in>set evs. \<forall>b\<in>set evs.
     Terminal (ev_Status a) \<longrightarrow> Terminal (ev_Status b) \<longrightarrow> ev_Status a = ev_Status b)"

lemma fold_join_set:
  assumes "terminals_agree evs" "\<forall>ev\<in>set evs. known_status (ev_Status ev)" "set evs = set evs'"
  shows "fold join_event evs st = fold join_event evs' st"
proof -
  have c: "comp_fun_idem_on (set evs) join_event"
  proof
    fix x y assume "x \<in> set evs" "y \<in> set evs"
    with assms(1,2) have "join_event y (join_event x st) = join_event x (join_event y st)" for st
      by (intro join_event_commute) (auto simp: terminals_agree_def Terminal_iff)
    then show "join_event y \<circ> join_event x = join_event x \<circ> join_event y" by auto
  next
    fix x assume "x \<in> set evs"
    show "join_event x \<circ> join_event x = join_event x" by (auto simp: join_event_idem)
  qed
  have "fold join_event evs st = Finite_Set.fold join_event st (set evs)"
    using comp_fun_idem_on.fold_set_fold [OF c, of evs st] by simp
  also have "\<dots> = fold join_event evs' st"
    using comp_fun_idem_on.fold_set_fold [OF c, of evs' st] assms(3) by simp
  finally show ?thesis .
qed

lemma fold_join_filled:
  "st_FilledQty (fold join_event evs st) =
    fold max (map ev_FilledQty (filter (\<lambda>ev. ev_Status ev \<noteq> StatusPending) evs)) (st_FilledQty st)"
  by (induction evs arbitrary: st) (auto simp: join_event_def max.commute)


subsection \<open>Properties of the machine\<close>

definition demo_event :: "Status \<Rightarrow> Decimal \<Rightarrow> Event" where
  "demo_event s q = \<lparr>ev_Ref = \<lparr>rf_Instrument = \<lparr>i_Venue = ''bybit'', i_Type = TypeSpot, i_Base = ''BTC'',
       i_Quote = ''USDT'', i_VenueSymbol = ''BTCUSDT'', i_Rules = noRules\<rparr>,
       rf_ClientOrderID = ''01JG3'', rf_VenueOrderID = ''v-1''\<rparr>,
     ev_Status = s, ev_FilledQty = q, ev_FillPrice = 50000, ev_VenueFillID = [], ev_Fee = 0,
     ev_FeeCurrency = [], ev_Reason = [], ev_At = Time 7\<rparr>"

text \<open>
  The machine computes a join. For a stored status and an event status that the machine knows,
  \<open>Transition\<close> returns a decision, and the state the store writes for it has the status of the
  higher rank (the stored one at equal rank) and the greater cumulative quantity, where a pending
  event contributes no quantity.
\<close>

theorem Transition_refines_join:
  assumes "known_status (st_Status st)" and "known_status (ev_Status ev)"
  shows "\<exists>d. Transition st ev = Inr d \<and> apply_decision st d = join_event ev st"
  by (rule Transition_known [OF assms])

lemma Transition_refines_join_witness:
  "\<exists>d. Transition \<lparr>st_Status = StatusOpen, st_FilledQty = 0\<rparr> (demo_event StatusFilled 1) = Inr d
     \<and> apply_decision \<lparr>st_Status = StatusOpen, st_FilledQty = 0\<rparr> d =
       join_event (demo_event StatusFilled 1) \<lparr>st_Status = StatusOpen, st_FilledQty = 0\<rparr>"
  by (rule Transition_refines_join) (simp_all add: demo_event_def)

text \<open>
  C8: convergence under reordering and duplication. From any stored state with a known status, two
  sequences of known events with the same set of events reach the same status and cumulative
  quantity, whatever the order and however often each event is delivered, as long as the terminal
  events among them name the same terminal status.
\<close>

theorem machine_converges:
  assumes "known_status (st_Status st)" and "\<forall>ev\<in>set evs. known_status (ev_Status ev)"
    and "terminals_agree evs" and "set evs = set evs'"
  shows "machine_run evs st = machine_run evs' st"
  using assms fold_join_set [OF assms(3,2,4)] by (simp add: machine_run_join)

lemma machine_converges_witness:
  "machine_run [demo_event StatusOpen 0, demo_event StatusFilled 1, demo_event StatusPartiallyFilled (2/5)]
      \<lparr>st_Status = StatusPending, st_FilledQty = 0\<rparr> =
   machine_run [demo_event StatusPartiallyFilled (2/5), demo_event StatusFilled 1, demo_event StatusOpen 0,
       demo_event StatusFilled 1] \<lparr>st_Status = StatusPending, st_FilledQty = 0\<rparr>"
  by (rule machine_converges) (auto simp: demo_event_def terminals_agree_def Terminal_iff)

text \<open>
  Applying an event twice equals applying it once. After a known event has been applied,
  \<open>Transition\<close> answers a replay of it with neither a transition nor a fill, and the state stays.
\<close>

theorem Transition_idempotent:
  assumes "known_status (st_Status st)" and "known_status (ev_Status ev)"
  shows "\<exists>d. Transition (machine_step ev st) ev = Inr d \<and> \<not> d_Transition d \<and> d_FillDelta d = 0
    \<and> apply_decision (machine_step ev st) d = machine_step ev st"
proof -
  let ?s = "join_event ev st"
  have k: "known_status (st_Status ?s)" using assms by (rule join_event_known)
  have ms: "machine_step ev st = ?s" using assms by (rule machine_step_known)
  obtain d where d: "Transition ?s ev = Inr d" "apply_decision ?s d = join_event ev ?s"
    using Transition_known [OF k assms(2)] by blast
  have "\<not> d_Transition d"
    using d(1) k assms(2) rank_of_le [of "ev_Status ev"]
    by (auto simp: Transition_def Let_def rank_known terminalRank_def join_event_def max_def split: if_splits)
  moreover have "apply_decision ?s d = ?s" using d(2) by (simp add: join_event_idem)
  moreover from this have "d_FillDelta d = 0" by (auto simp: apply_decision_def dest: arg_cong [where f = st_FilledQty])
  ultimately show ?thesis using d(1) ms by auto
qed

lemma Transition_idempotent_witness:
  "\<exists>d. Transition (machine_step (demo_event StatusPartiallyFilled (2/5)) \<lparr>st_Status = StatusOpen, st_FilledQty = 0\<rparr>)
       (demo_event StatusPartiallyFilled (2/5)) = Inr d \<and> \<not> d_Transition d \<and> d_FillDelta d = 0
     \<and> apply_decision (machine_step (demo_event StatusPartiallyFilled (2/5)) \<lparr>st_Status = StatusOpen, st_FilledQty = 0\<rparr>) d
       = machine_step (demo_event StatusPartiallyFilled (2/5)) \<lparr>st_Status = StatusOpen, st_FilledQty = 0\<rparr>"
  by (rule Transition_idempotent) (simp_all add: demo_event_def)

text \<open>
  The decision table. \<open>Transition\<close> fails exactly when one of the two statuses is unknown. A
  decision records a transition exactly when the order is not terminal and either the event's rank
  is higher or a further partial fill advances the quantity; the fill delta is the positive advance
  of the cumulative quantity except on pending events and is never negative; a fill anomaly is
  flagged exactly on a rank advance whose quantity regresses; and exactly the decisions without a
  transition carry a drop reason: terminal, stale on a regression of rank or quantity, duplicate
  otherwise.
\<close>

theorem Transition_decision_table:
  "((\<exists>e. Transition st ev = Inl e) \<longleftrightarrow> \<not> known_status (st_Status st) \<or> \<not> known_status (ev_Status ev))
   \<and> (Transition st ev = Inr d \<longrightarrow>
      (d_Transition d \<longleftrightarrow> rank_of (st_Status st) < 3
         \<and> (rank_of (st_Status st) < rank_of (ev_Status ev)
            \<or> st_Status st = StatusPartiallyFilled \<and> ev_Status ev = StatusPartiallyFilled
              \<and> st_FilledQty st < ev_FilledQty ev))
      \<and> d_To d = (if d_Transition d then ev_Status ev else st_Status st)
      \<and> d_FillDelta d = (if ev_Status ev = StatusPending then 0 else max 0 (ev_FilledQty ev - st_FilledQty st))
      \<and> (d_FillAnomaly d \<longleftrightarrow> d_Transition d \<and> ev_FilledQty ev < st_FilledQty st)
      \<and> d_Drop d = (if d_Transition d then []
          else if Terminal (st_Status st) then DropTerminal
          else if ev_FilledQty ev < st_FilledQty st \<or> rank_of (ev_Status ev) < rank_of (st_Status st) then DropStale
          else DropDuplicate))"
proof
  show "(\<exists>e. Transition st ev = Inl e) \<longleftrightarrow> \<not> known_status (st_Status st) \<or> \<not> known_status (ev_Status ev)"
  proof (cases "known_status (st_Status st) \<and> known_status (ev_Status ev)")
    case True
    then show ?thesis using Transition_known [of st ev] by auto
  next
    case False
    then show ?thesis
      using rank_Inl_iff [of "st_Status st"] rank_Inl_iff [of "ev_Status ev"]
      by (cases "rank (st_Status st)"; cases "rank (ev_Status ev)") (auto simp: Transition_def)
  qed
next
  show "Transition st ev = Inr d \<longrightarrow>
      (d_Transition d \<longleftrightarrow> rank_of (st_Status st) < 3
         \<and> (rank_of (st_Status st) < rank_of (ev_Status ev)
            \<or> st_Status st = StatusPartiallyFilled \<and> ev_Status ev = StatusPartiallyFilled
              \<and> st_FilledQty st < ev_FilledQty ev))
      \<and> d_To d = (if d_Transition d then ev_Status ev else st_Status st)
      \<and> d_FillDelta d = (if ev_Status ev = StatusPending then 0 else max 0 (ev_FilledQty ev - st_FilledQty st))
      \<and> (d_FillAnomaly d \<longleftrightarrow> d_Transition d \<and> ev_FilledQty ev < st_FilledQty st)
      \<and> d_Drop d = (if d_Transition d then []
          else if Terminal (st_Status st) then DropTerminal
          else if ev_FilledQty ev < st_FilledQty st \<or> rank_of (ev_Status ev) < rank_of (st_Status st) then DropStale
          else DropDuplicate)" (is "_ \<longrightarrow> ?table")
  proof
    assume t: "Transition st ev = Inr d"
    have le: "rank_of (st_Status st) \<le> 3" "rank_of (ev_Status ev) \<le> 3" by (rule rank_of_le)+
    show ?table
      using t le rank_of_inj [of "ev_Status ev" "st_Status st"]
      by (auto simp: Transition_def Let_def rank_Inr_iff Terminal_iff terminalRank_def split: if_splits)
  qed
qed

lemma Transition_decision_table_witness:
  "(\<exists>d. Transition \<lparr>st_Status = StatusPartiallyFilled, st_FilledQty = 1\<rparr> (demo_event StatusCanceled 0) = Inr d
     \<and> d_Transition d \<and> d_FillAnomaly d \<and> d_FillDelta d = 0 \<and> d_To d = StatusCanceled \<and> d_Drop d = [])
   \<and> (\<exists>e. Transition \<lparr>st_Status = ''unknown'', st_FilledQty = 1\<rparr> (demo_event StatusCanceled 0) = Inl e)"
proof
  let ?s = "\<lparr>st_Status = StatusPartiallyFilled, st_FilledQty = 1\<rparr>" and ?e = "demo_event StatusCanceled 0"
  obtain d where d: "Transition ?s ?e = Inr d"
    using Transition_known [of ?s ?e] by (auto simp: demo_event_def)
  then show "\<exists>d. Transition ?s ?e = Inr d
     \<and> d_Transition d \<and> d_FillAnomaly d \<and> d_FillDelta d = 0 \<and> d_To d = StatusCanceled \<and> d_Drop d = []"
    using Transition_decision_table [of ?s ?e d] by (auto simp: demo_event_def)
  show "\<exists>e. Transition \<lparr>st_Status = ''unknown'', st_FilledQty = 1\<rparr> (demo_event StatusCanceled 0) = Inl e"
    using Transition_decision_table [of "\<lparr>st_Status = ''unknown'', st_FilledQty = 1\<rparr>" ?e]
    by (simp add: known_status_def status_defs)
qed

text \<open>
  No run of known events goes backwards. Over any sequence of known events the rank of the
  status and the cumulative quantity never decrease, a terminal status is never left, and the final
  quantity is the greatest cumulative quantity that was stored or that a non-pending event carried.
\<close>

theorem machine_run_monotone:
  assumes "known_status (st_Status st)" and "\<forall>ev\<in>set evs. known_status (ev_Status ev)"
  shows "rank_of (st_Status st) \<le> rank_of (st_Status (machine_run evs st))
    \<and> (Terminal (st_Status st) \<longrightarrow> st_Status (machine_run evs st) = st_Status st)
    \<and> st_FilledQty (machine_run evs st) =
        Max (insert (st_FilledQty st) {ev_FilledQty ev |ev. ev \<in> set evs \<and> ev_Status ev \<noteq> StatusPending})"
proof -
  have r: "machine_run evs st = fold join_event evs st" using assms by (rule machine_run_join)
  have "st_Status (fold join_event evs st') = st_Status st'" if "rank_of (st_Status st') = 3" for st'
    using that rank_of_le
    by (induction evs arbitrary: st') (auto simp: join_event_def not_less [symmetric])
  moreover have "ev_FilledQty ` {ev \<in> set evs. ev_Status ev \<noteq> StatusPending} =
      {ev_FilledQty ev |ev. ev \<in> set evs \<and> ev_Status ev \<noteq> StatusPending}" by auto
  ultimately show ?thesis
    using fold_join_mono [of st evs]
    by (simp add: r fold_join_filled fold_max_eq Terminal_iff)
qed

lemma machine_run_monotone_witness:
  "st_FilledQty (machine_run [demo_event StatusFilled 1, demo_event StatusPartiallyFilled (6/5), demo_event StatusPending 9]
     \<lparr>st_Status = StatusOpen, st_FilledQty = 0\<rparr>) =
   Max (insert 0 {ev_FilledQty ev |ev. ev \<in> set [demo_event StatusFilled 1, demo_event StatusPartiallyFilled (6/5),
     demo_event StatusPending 9] \<and> ev_Status ev \<noteq> StatusPending})"
  using machine_run_monotone [of "\<lparr>st_Status = StatusOpen, st_FilledQty = 0\<rparr>"
    "[demo_event StatusFilled 1, demo_event StatusPartiallyFilled (6/5), demo_event StatusPending 9]"]
  by (simp add: demo_event_def)

end
