(* ===== verification/Schema.thy ===== *)
theory Schema
  imports Order_Machine
begin

section \<open>The database: tables, constraints and statements\<close>

text \<open>
  The Postgres side of the stores. The tables and their constraints are those of
  \<open>internal/adapters/postgres/migrations\<close>, the row types those of \<open>sqlcgen/models.go\<close>, and there is one
  definition per statement of \<open>sqlcgen/*.sql.go\<close>. A table is the list of its rows, a statement a
  stateful operation on the working tables that fails when a constraint of the migrations is
  violated. Nullable columns are options.

  A database holds the durable tables and the working tables of the open transaction. \<open>beginTx\<close>
  starts from the durable tables, \<open>commitTx\<close> makes the working tables durable, \<open>rollbackTx\<close> forgets
  them. Identity columns draw from sequences, which no rollback resets. Two parameters stand for the
  environment: \<open>db_faults\<close> says which statement of the run the connection fails, before or after
  the server has executed it, and \<open>db_clock\<close> is what \<open>now()\<close> reads in each transaction.
\<close>

named_theorems faultless_intros \<open>operations that succeed succeed alike without faults\<close>
named_theorems frame_intros \<open>operations that leave the durable tables alone\<close>

subsection \<open>Rows\<close>

record OrderRow =
  o_ClientOrderID :: string
  o_Venue :: string
  o_Base :: string
  o_Quote :: string
  o_VenueSymbol :: string
  o_Side :: string
  o_Type :: string
  o_Price :: Decimal
  o_Qty :: Decimal
  o_FilledQty :: Decimal
  o_AvgFillPrice :: "Decimal option"
  o_Status :: string
  o_VenueOrderID :: "string option"
  o_BotID :: string
  o_CancelRequestedAt :: "Time option"
  o_Reason :: "string option"
  o_CreatedAt :: Time
  o_UpdatedAt :: Time

record TransitionRow =
  tr_ID :: int
  tr_ClientOrderID :: string
  tr_Seq :: int
  tr_FromStatus :: string
  tr_ToStatus :: string
  tr_FilledQty :: Decimal
  tr_Source :: string
  tr_Reason :: "string option"
  tr_OccurredAt :: Time
  tr_RecordedAt :: Time

record FillRow =
  fl_ID :: int
  fl_ClientOrderID :: string
  fl_TransitionID :: int
  fl_Qty :: Decimal
  fl_Price :: "Decimal option"
  fl_Fee :: "Decimal option"
  fl_FeeCurrency :: "string option"
  fl_VenueFillID :: "string option"
  fl_OccurredAt :: Time

record LotRow =
  lo_ID :: string
  lo_BotID :: string
  lo_Venue :: string
  lo_Base :: string
  lo_Quote :: string
  lo_Qty :: Decimal
  lo_RemainingQty :: Decimal
  lo_CostPrice :: Decimal
  lo_OpenedByFillID :: int
  lo_Status :: string
  lo_OpenedAt :: Time
  lo_ClosedAt :: "Time option"

record LotClosureRow =
  cl_ID :: int
  cl_LotID :: string
  cl_SellFillID :: int
  cl_Qty :: Decimal
  cl_Price :: Decimal
  cl_ClosedAt :: Time

record UnmatchedSellRow =
  un_SellFillID :: int
  un_BotID :: string
  un_Venue :: string
  un_Base :: string
  un_Quote :: string
  un_Qty :: Decimal
  un_OccurredAt :: Time

text \<open>
  The payloads of the outbox. The \<open>jsonb\<close> column holds the encoding of one of these structs; the
  model keeps the struct itself.
\<close>

record OrderUpdatedPayload =
  ou_ClientOrderID :: ClientOrderID
  ou_Venue :: VenueID
  ou_Base :: Currency
  ou_Quote :: Currency
  ou_Status :: Status
  ou_FilledQty :: Decimal
  ou_Source :: Source
  ou_At :: Time

record OrderFilledPayload =
  of_ClientOrderID :: ClientOrderID
  of_Venue :: VenueID
  of_Base :: Currency
  of_Quote :: Currency
  of_Status :: Status
  of_FilledQty :: Decimal
  of_Qty :: Decimal
  of_Price :: Decimal
  of_Fee :: Decimal
  of_FeeCurrency :: Currency
  of_VenueFillID :: string
  of_At :: Time

record unmatchedSellPayload =
  us_BotID :: string
  us_Venue :: VenueID
  us_Base :: Currency
  us_Quote :: Currency
  us_ClientOrderID :: ClientOrderID
  us_SellFillID :: int
  us_UnmatchedQty :: Decimal

datatype Payload =
    OrderUpdated OrderUpdatedPayload
  | OrderFilled OrderFilledPayload
  | UnmatchedSell unmatchedSellPayload

record OutboxRow =
  ob_ID :: int
  ob_Subject :: string
  ob_Payload :: Payload
  ob_CreatedAt :: Time
  ob_PublishedAt :: "Time option"

record CheckpointRow =
  ck_ID :: string
  ck_Venue :: string
  ck_AccountType :: string
  ck_TakenAt :: Time
  ck_BalanceCount :: int
  ck_Status :: string
  ck_Error :: string
  ck_CreatedAt :: Time

record Tables =
  orders :: "OrderRow list"
  order_transitions :: "TransitionRow list"
  fills :: "FillRow list"
  lots :: "LotRow list"
  lot_closures :: "LotClosureRow list"
  unmatched_sells :: "UnmatchedSellRow list"
  outbox :: "OutboxRow list"
  snapshot_checkpoints :: "CheckpointRow list"

record Sequences =
  seq_transitions :: int
  seq_fills :: int
  seq_closures :: int
  seq_outbox :: int

datatype Fault = FailBefore Err | FailAfter Err

record DB =
  db_durable :: Tables
  db_work :: Tables
  db_seq :: Sequences
  db_stmt :: nat
  db_tx :: nat
  db_faults :: "nat \<Rightarrow> Fault option"
  db_clock :: "nat \<Rightarrow> Time"

type_synonym 'a dbop = "(DB, 'a) op"

subsection \<open>Running statements\<close>

definition exec :: "'a dbop \<Rightarrow> 'a dbop" where
  "exec q db = (let db1 = db\<lparr>db_stmt := Suc (db_stmt db)\<rparr> in
     case db_faults db (db_stmt db) of
       None \<Rightarrow> q db1
     | Some (FailBefore e) \<Rightarrow> (Inl e, db1)
     | Some (FailAfter e) \<Rightarrow> (Inl e, snd (q db1)))"

definition beginTx :: "unit dbop" where
  "beginTx = exec (\<lambda>db. (Inr (), db\<lparr>db_work := db_durable db, db_tx := Suc (db_tx db)\<rparr>))"

definition commitTx :: "unit dbop" where
  "commitTx = exec (\<lambda>db. (Inr (), db\<lparr>db_durable := db_work db\<rparr>))"

definition rollbackTx :: "DB \<Rightarrow> DB" where
  "rollbackTx db = db\<lparr>db_work := db_durable db\<rparr>"

text \<open>
  A function that opens a transaction and defers its rollback, which forgets what the body has not
  committed; the first argument is the text its errors of \<open>Begin\<close> are wrapped with.
\<close>

definition inTx :: "string \<Rightarrow> 'a dbop \<Rightarrow> 'a dbop" where
  "inTx w body db =
    (case wrapS w beginTx db of
       (Inl e, db1) \<Rightarrow> (Inl e, db1)
     | (Inr _, db1) \<Rightarrow> (case body db1 of (r, db2) \<Rightarrow> (r, rollbackTx db2)))"

text \<open>A statement outside a transaction is a transaction of its own.\<close>

definition autocommit :: "'a dbop \<Rightarrow> 'a dbop" where
  "autocommit q = exec (\<lambda>db. case q (db\<lparr>db_work := db_durable db, db_tx := Suc (db_tx db)\<rparr>) of
      (Inl e, db') \<Rightarrow> (Inl e, rollbackTx db')
    | (Inr x, db') \<Rightarrow> (Inr x, db'\<lparr>db_durable := db_work db'\<rparr>))"

text \<open>\<open>timestamptz\<close> keeps microseconds, and so does \<open>now()\<close>, which reads one time throughout a transaction.\<close>

definition pg_time :: "Time \<Rightarrow> Time" where
  "pg_time t = Time (nanos t div 1000 * 1000)"

definition now :: "DB \<Rightarrow> Time" where "now db = pg_time (db_clock db (db_tx db))"

definition set_work :: "(Tables \<Rightarrow> Tables) \<Rightarrow> DB \<Rightarrow> DB" where
  "set_work f db = db\<lparr>db_work := f (db_work db)\<rparr>"

definition violates :: "string \<Rightarrow> Err" where
  "violates c = EText (''violates constraint '' @ c)"

definition order_statuses :: "string list" where
  "order_statuses = [''pending'', ''open'', ''partially_filled'', ''filled'', ''canceled'', ''rejected'', ''expired'']"

subsection \<open>Statements on orders\<close>

definition find_order :: "string \<Rightarrow> Tables \<Rightarrow> OrderRow option" where
  "find_order cid T = find (\<lambda>w. o_ClientOrderID w = cid) (orders T)"

text \<open>The partial unique index \<open>orders_venue_order_id_key\<close>: another order has the venue's ID already.\<close>

definition venue_order_id_taken :: "string \<Rightarrow> string option \<Rightarrow> string \<Rightarrow> Tables \<Rightarrow> bool" where
  "venue_order_id_taken cid vid venue T = (vid \<noteq> None \<and>
     list_ex (\<lambda>w. o_ClientOrderID w \<noteq> cid \<and> o_Venue w = venue \<and> o_VenueOrderID w = vid) (orders T))"

definition InsertPendingOrder ::
  "string \<Rightarrow> string \<Rightarrow> string \<Rightarrow> string \<Rightarrow> string \<Rightarrow> string \<Rightarrow> string \<Rightarrow> Decimal \<Rightarrow> Decimal \<Rightarrow> string \<Rightarrow> int dbop" where
  "InsertPendingOrder cid venue base quote symbol side typ price qty botID db =
    (if side \<notin> {''buy'', ''sell''} then (Inl (violates ''orders_side_check''), db)
     else if typ \<notin> {''limit'', ''market''} then (Inl (violates ''orders_type_check''), db)
     else if find_order cid (db_work db) \<noteq> None then (Inr 0, db)
     else (Inr 1, set_work (\<lambda>T. T\<lparr>orders := orders T @ [\<lparr>o_ClientOrderID = cid, o_Venue = venue, o_Base = base,
        o_Quote = quote, o_VenueSymbol = symbol, o_Side = side, o_Type = typ, o_Price = price, o_Qty = qty,
        o_FilledQty = 0, o_AvgFillPrice = None, o_Status = ''pending'', o_VenueOrderID = None, o_BotID = botID,
        o_CancelRequestedAt = None, o_Reason = None, o_CreatedAt = now db, o_UpdatedAt = now db\<rparr>]\<rparr>) db))"

definition q_GetOrder :: "string \<Rightarrow> (OrderRow option) dbop" where
  "q_GetOrder cid db = (Inr (find_order cid (db_work db)), db)"

definition q_GetOrderForUpdate :: "string \<Rightarrow> (OrderRow option) dbop" where
  "q_GetOrderForUpdate cid db = (Inr (find_order cid (db_work db)), db)"

definition q_ListActiveOrders :: "string \<Rightarrow> (OrderRow list) dbop" where
  "q_ListActiveOrders venue db = (Inr (sort_key o_CreatedAt (filter (\<lambda>w. o_Venue w = venue
     \<and> o_Status w \<in> {''pending'', ''open'', ''partially_filled''}) (orders (db_work db)))), db)"

text \<open>
  The keyset page. A null array of statuses selects every status, a null cursor starts at the newest
  order; SQL's row comparison is lexicographic, and a null cursor ID makes it null, that is false,
  unless the creation times already decide.
\<close>

definition before_cursor :: "Time option \<Rightarrow> string option \<Rightarrow> OrderRow \<Rightarrow> bool" where
  "before_cursor ts cid w = (case ts of None \<Rightarrow> True
    | Some t \<Rightarrow> o_CreatedAt w < t \<or> o_CreatedAt w = t \<and> (case cid of None \<Rightarrow> False | Some i \<Rightarrow> o_ClientOrderID w < i))"

definition q_ListOrders ::
  "string option \<Rightarrow> (string list) option \<Rightarrow> string option \<Rightarrow> Time option \<Rightarrow> string option \<Rightarrow> int
    \<Rightarrow> (OrderRow list) dbop" where
  "q_ListOrders venue statuses botID cursorAt cursorID limit db =
    (if limit < 0 then (Inl (EText ''LIMIT must not be negative''), db)
     else (Inr (take (nat limit) (rev (sort_key (\<lambda>w. (o_CreatedAt w, o_ClientOrderID w)) (filter (\<lambda>w.
       (venue = None \<or> venue = Some (o_Venue w))
       \<and> (case statuses of None \<Rightarrow> True | Some ss \<Rightarrow> o_Status w \<in> set ss)
       \<and> (botID = None \<or> botID = Some (o_BotID w))
       \<and> before_cursor cursorAt cursorID w) (orders (db_work db)))))), db))"

definition q_MarkCancelRequested :: "string \<Rightarrow> Time \<Rightarrow> int dbop" where
  "q_MarkCancelRequested cid ts db =
    (Inr (int (length (filter (\<lambda>w. o_ClientOrderID w = cid) (orders (db_work db))))),
     set_work (\<lambda>T. T\<lparr>orders := update_where (\<lambda>w. o_ClientOrderID w = cid)
       (\<lambda>w. w\<lparr>o_CancelRequestedAt := (case o_CancelRequestedAt w of None \<Rightarrow> Some (pg_time ts) | Some t \<Rightarrow> Some t),
              o_UpdatedAt := now db\<rparr>) (orders T)\<rparr>) db)"

definition q_AdoptVenueOrderID :: "string \<Rightarrow> string option \<Rightarrow> int dbop" where
  "q_AdoptVenueOrderID cid vid db =
    (case find (\<lambda>w. o_ClientOrderID w = cid \<and> o_VenueOrderID w = None) (orders (db_work db)) of
       None \<Rightarrow> (Inr 0, db)
     | Some w \<Rightarrow>
        if venue_order_id_taken cid vid (o_Venue w) (db_work db)
        then (Inl (violates ''orders_venue_order_id_key''), db)
        else (Inr 1, set_work (\<lambda>T. T\<lparr>orders := update_where (\<lambda>w. o_ClientOrderID w = cid \<and> o_VenueOrderID w = None)
          (\<lambda>w. w\<lparr>o_VenueOrderID := vid, o_UpdatedAt := now db\<rparr>) (orders T)\<rparr>) db))"

text \<open>\<open>COALESCE(a, b)\<close>.\<close>

fun coalesce :: "'a option \<Rightarrow> 'a option \<Rightarrow> 'a option" where
  "coalesce (Some a) b = Some a"
| "coalesce None b = b"

definition q_ApplyOrderUpdate ::
  "string \<Rightarrow> string \<Rightarrow> Decimal \<Rightarrow> Decimal option \<Rightarrow> string option \<Rightarrow> string option \<Rightarrow> unit dbop" where
  "q_ApplyOrderUpdate cid status filled avg vid reason db =
    (case find_order cid (db_work db) of
       None \<Rightarrow> (Inr (), db)
     | Some w \<Rightarrow>
        if status \<notin> set order_statuses then (Inl (violates ''orders_status_check''), db)
        else if venue_order_id_taken cid (coalesce (o_VenueOrderID w) vid) (o_Venue w) (db_work db)
        then (Inl (violates ''orders_venue_order_id_key''), db)
        else (Inr (), set_work (\<lambda>T. T\<lparr>orders := update_where (\<lambda>w. o_ClientOrderID w = cid)
          (\<lambda>w. w\<lparr>o_Status := status, o_FilledQty := filled, o_AvgFillPrice := avg,
                 o_VenueOrderID := coalesce (o_VenueOrderID w) vid,
                 o_Reason := coalesce reason (o_Reason w), o_UpdatedAt := now db\<rparr>) (orders T)\<rparr>) db))"

subsection \<open>Statements on transitions and fills\<close>

definition max_seq :: "string \<Rightarrow> Tables \<Rightarrow> int" where
  "max_seq cid T = fold max (map tr_Seq (filter (\<lambda>t. tr_ClientOrderID t = cid) (order_transitions T))) 0"

text \<open>
  \<open>COALESCE(MAX(seq), 0) + 1\<close>: sequence numbers are never negative, so the fold from 0 is the
  coalesced maximum. The column is a 32-bit integer.
\<close>

definition q_InsertTransition ::
  "string \<Rightarrow> string \<Rightarrow> string \<Rightarrow> Decimal \<Rightarrow> string \<Rightarrow> string option \<Rightarrow> Time \<Rightarrow> (int \<times> int) dbop" where
  "q_InsertTransition cid from_st to_st filled source reason ts db =
    (let sid = seq_transitions (db_seq db); sq = max_seq cid (db_work db) + 1;
         db1 = db\<lparr>db_seq := (db_seq db)\<lparr>seq_transitions := sid + 1\<rparr>\<rparr> in
     if sq > 2147483647 then (Inl (EText ''integer out of range''), db1)
     else if source \<notin> {''local'', ''stream'', ''ack'', ''reconcile''}
     then (Inl (violates ''order_transitions_source_check''), db1)
     else if find_order cid (db_work db) = None
     then (Inl (violates ''order_transitions_client_order_id_fkey''), db1)
     else (Inr (sid, sq), set_work (\<lambda>T. T\<lparr>order_transitions := order_transitions T @ [\<lparr>tr_ID = sid,
        tr_ClientOrderID = cid, tr_Seq = sq, tr_FromStatus = from_st, tr_ToStatus = to_st, tr_FilledQty = filled,
        tr_Source = source, tr_Reason = reason, tr_OccurredAt = pg_time ts, tr_RecordedAt = now db\<rparr>]\<rparr>) db1))"

record InsertFillParams =
  if_ClientOrderID :: string
  if_TransitionID :: int
  if_Qty :: Decimal
  if_Price :: "Decimal option"
  if_Fee :: "Decimal option"
  if_FeeCurrency :: "string option"
  if_VenueFillID :: "string option"
  if_OccurredAt :: Time

text \<open>
  \<open>ON CONFLICT DO NOTHING RETURNING id\<close>: no row comes back when the order has a fill with the same
  venue fill ID already. The sequence has advanced all the same.
\<close>

definition q_InsertFill :: "InsertFillParams \<Rightarrow> (int option) dbop" where
  "q_InsertFill p db =
    (let fid = seq_fills (db_seq db); db1 = db\<lparr>db_seq := (db_seq db)\<lparr>seq_fills := fid + 1\<rparr>\<rparr> in
     if if_VenueFillID p \<noteq> None \<and> list_ex (\<lambda>f. fl_ClientOrderID f = if_ClientOrderID p
          \<and> fl_VenueFillID f = if_VenueFillID p) (fills (db_work db))
     then (Inr None, db1)
     else if find_order (if_ClientOrderID p) (db_work db) = None
     then (Inl (violates ''fills_client_order_id_fkey''), db1)
     else if \<not> list_ex (\<lambda>t. tr_ID t = if_TransitionID p) (order_transitions (db_work db))
     then (Inl (violates ''fills_transition_id_fkey''), db1)
     else (Inr (Some fid), set_work (\<lambda>T. T\<lparr>fills := fills T @ [\<lparr>fl_ID = fid, fl_ClientOrderID = if_ClientOrderID p,
        fl_TransitionID = if_TransitionID p, fl_Qty = if_Qty p, fl_Price = if_Price p, fl_Fee = if_Fee p,
        fl_FeeCurrency = if_FeeCurrency p, fl_VenueFillID = if_VenueFillID p,
        fl_OccurredAt = pg_time (if_OccurredAt p)\<rparr>]\<rparr>) db1))"

subsection \<open>Statements on the ledger\<close>

text \<open>The row constraints of \<open>lots\<close>: quantities in range, and status, remainder and closing time coupled.\<close>

definition lot_checks :: "LotRow \<Rightarrow> bool" where
  "lot_checks l \<longleftrightarrow> 0 < lo_Qty l \<and> 0 \<le> lo_RemainingQty l \<and> lo_RemainingQty l \<le> lo_Qty l \<and> 0 \<le> lo_CostPrice l
     \<and> lo_Status l \<in> {''open'', ''closed''}
     \<and> (lo_Status l = ''open'') = (lo_ClosedAt l = None)
     \<and> (lo_Status l = ''closed'' \<or> 0 < lo_RemainingQty l)
     \<and> (lo_Status l = ''open'' \<or> lo_RemainingQty l = 0)"

definition q_LockInventory :: "int \<Rightarrow> unit dbop" where
  "q_LockInventory key = returnS ()"

definition q_InsertLot ::
  "string \<Rightarrow> string \<Rightarrow> string \<Rightarrow> string \<Rightarrow> string \<Rightarrow> Decimal \<Rightarrow> Decimal \<Rightarrow> int \<Rightarrow> Time \<Rightarrow> unit dbop" where
  "q_InsertLot lid botID venue base quote qty cost fill ts db =
    (let l = \<lparr>lo_ID = lid, lo_BotID = botID, lo_Venue = venue, lo_Base = base, lo_Quote = quote, lo_Qty = qty,
        lo_RemainingQty = qty, lo_CostPrice = cost, lo_OpenedByFillID = fill, lo_Status = ''open'',
        lo_OpenedAt = pg_time ts, lo_ClosedAt = None\<rparr> in
     if \<not> lot_checks l then (Inl (violates ''lots_check''), db)
     else if list_ex (\<lambda>x. lo_ID x = lid) (lots (db_work db)) then (Inl (violates ''lots_pkey''), db)
     else if list_ex (\<lambda>x. lo_OpenedByFillID x = fill) (lots (db_work db))
     then (Inl (violates ''lots_opened_by_fill_id_key''), db)
     else if \<not> list_ex (\<lambda>f. fl_ID f = fill) (fills (db_work db))
     then (Inl (violates ''lots_opened_by_fill_id_fkey''), db)
     else (Inr (), set_work (\<lambda>T. T\<lparr>lots := lots T @ [l]\<rparr>) db))"

definition in_inventory :: "string \<Rightarrow> string \<Rightarrow> string \<Rightarrow> string \<Rightarrow> LotRow \<Rightarrow> bool" where
  "in_inventory botID venue base quote l \<longleftrightarrow>
     lo_BotID l = botID \<and> lo_Venue l = venue \<and> lo_Base l = base \<and> lo_Quote l = quote"

definition q_ListOpenLotsForUpdate :: "string \<Rightarrow> string \<Rightarrow> string \<Rightarrow> string \<Rightarrow> (LotRow list) dbop" where
  "q_ListOpenLotsForUpdate botID venue base quote db =
    (Inr (sort_key (\<lambda>l. (lo_OpenedAt l, lo_ID l)) (filter (\<lambda>l. in_inventory botID venue base quote l
       \<and> lo_Status l = ''open'') (lots (db_work db)))), db)"

definition q_InsertLotClosure :: "string \<Rightarrow> int \<Rightarrow> Decimal \<Rightarrow> Decimal \<Rightarrow> Time \<Rightarrow> unit dbop" where
  "q_InsertLotClosure lid fill qty price ts db =
    (let cid = seq_closures (db_seq db); db1 = db\<lparr>db_seq := (db_seq db)\<lparr>seq_closures := cid + 1\<rparr>\<rparr> in
     if \<not> 0 < qty \<or> price < 0 then (Inl (violates ''lot_closures_check''), db1)
     else if list_ex (\<lambda>c. cl_LotID c = lid \<and> cl_SellFillID c = fill) (lot_closures (db_work db))
     then (Inl (violates ''lot_closures_lot_id_sell_fill_id_key''), db1)
     else if \<not> list_ex (\<lambda>l. lo_ID l = lid) (lots (db_work db))
     then (Inl (violates ''lot_closures_lot_id_fkey''), db1)
     else if \<not> list_ex (\<lambda>f. fl_ID f = fill) (fills (db_work db))
     then (Inl (violates ''lot_closures_sell_fill_id_fkey''), db1)
     else (Inr (), set_work (\<lambda>T. T\<lparr>lot_closures := lot_closures T @ [\<lparr>cl_ID = cid, cl_LotID = lid,
        cl_SellFillID = fill, cl_Qty = qty, cl_Price = price, cl_ClosedAt = pg_time ts\<rparr>]\<rparr>) db1))"

definition decrement_lot :: "Decimal \<Rightarrow> Time \<Rightarrow> LotRow \<Rightarrow> LotRow" where
  "decrement_lot qty ts l = l\<lparr>lo_RemainingQty := lo_RemainingQty l - qty,
     lo_Status := (if lo_RemainingQty l - qty = 0 then ''closed'' else ''open''),
     lo_ClosedAt := (if lo_RemainingQty l - qty = 0 then Some (pg_time ts) else None)\<rparr>"

definition q_DecrementLot :: "string \<Rightarrow> Decimal \<Rightarrow> Time \<Rightarrow> unit dbop" where
  "q_DecrementLot lid qty ts db =
    (if list_ex (\<lambda>l. lo_ID l = lid \<and> \<not> lot_checks (decrement_lot qty ts l)) (lots (db_work db))
     then (Inl (violates ''lots_check''), db)
     else (Inr (), set_work (\<lambda>T. T\<lparr>lots := update_where (\<lambda>l. lo_ID l = lid) (decrement_lot qty ts) (lots T)\<rparr>) db))"

definition q_InsertUnmatchedSell ::
  "int \<Rightarrow> string \<Rightarrow> string \<Rightarrow> string \<Rightarrow> string \<Rightarrow> Decimal \<Rightarrow> Time \<Rightarrow> unit dbop" where
  "q_InsertUnmatchedSell fill botID venue base quote qty ts db =
    (if \<not> 0 < qty then (Inl (violates ''unmatched_sells_qty_check''), db)
     else if list_ex (\<lambda>u. un_SellFillID u = fill) (unmatched_sells (db_work db))
     then (Inl (violates ''unmatched_sells_pkey''), db)
     else if \<not> list_ex (\<lambda>f. fl_ID f = fill) (fills (db_work db))
     then (Inl (violates ''unmatched_sells_sell_fill_id_fkey''), db)
     else (Inr (), set_work (\<lambda>T. T\<lparr>unmatched_sells := unmatched_sells T @ [\<lparr>un_SellFillID = fill, un_BotID = botID,
        un_Venue = venue, un_Base = base, un_Quote = quote, un_Qty = qty, un_OccurredAt = pg_time ts\<rparr>]\<rparr>) db))"

subsection \<open>Statements on the outbox\<close>

definition q_InsertOutbox :: "string \<Rightarrow> Payload \<Rightarrow> unit dbop" where
  "q_InsertOutbox subject payload db =
    (let oid = seq_outbox (db_seq db) in
     (Inr (), set_work (\<lambda>T. T\<lparr>outbox := outbox T @ [\<lparr>ob_ID = oid, ob_Subject = subject, ob_Payload = payload,
        ob_CreatedAt = now db, ob_PublishedAt = None\<rparr>]\<rparr>) (db\<lparr>db_seq := (db_seq db)\<lparr>seq_outbox := oid + 1\<rparr>\<rparr>)))"

definition unpublished :: "Tables \<Rightarrow> OutboxRow list" where
  "unpublished T = filter (\<lambda>r. ob_PublishedAt r = None) (outbox T)"

text \<open>
  \<open>FOR UPDATE SKIP LOCKED\<close>: rows that another transaction holds are passed over. The daemon has one
  relay, so no row is held.
\<close>

definition q_ClaimUnpublishedOutbox :: "int \<Rightarrow> (OutboxRow list) dbop" where
  "q_ClaimUnpublishedOutbox limit db =
    (if limit < 0 then (Inl (EText ''LIMIT must not be negative''), db)
     else (Inr (take (nat limit) (sort_key ob_ID (unpublished (db_work db)))), db))"

definition q_MarkOutboxPublished :: "int list \<Rightarrow> unit dbop" where
  "q_MarkOutboxPublished ids db = (Inr (), set_work (\<lambda>T. T\<lparr>outbox := update_where (\<lambda>r. ob_ID r \<in> set ids)
     (\<lambda>r. r\<lparr>ob_PublishedAt := Some (now db)\<rparr>) (outbox T)\<rparr>) db)"

definition published_before :: "Time \<Rightarrow> OutboxRow \<Rightarrow> bool" where
  "published_before cutoff r = (case ob_PublishedAt r of None \<Rightarrow> False | Some t \<Rightarrow> t < cutoff)"

definition q_DeleteOutboxPublishedBefore :: "Time \<Rightarrow> int dbop" where
  "q_DeleteOutboxPublishedBefore cutoff db =
    (Inr (int (length (filter (published_before (pg_time cutoff)) (outbox (db_work db))))),
     set_work (\<lambda>T. T\<lparr>outbox := filter (\<lambda>r. \<not> published_before (pg_time cutoff) r) (outbox T)\<rparr>) db)"

definition q_OutboxUnpublishedStats :: "(int \<times> Time) dbop" where
  "q_OutboxUnpublishedStats db = (let rs = unpublished (db_work db) in
    (Inr (int (length rs), if rs = [] then now db else fold min (map ob_CreatedAt rs) (ob_CreatedAt (hd rs))), db))"

subsection \<open>Statements on checkpoints\<close>

definition q_RecordSnapshot ::
  "string \<Rightarrow> string \<Rightarrow> string \<Rightarrow> Time \<Rightarrow> int \<Rightarrow> string \<Rightarrow> string \<Rightarrow> unit dbop" where
  "q_RecordSnapshot cid venue acct takenAt cnt status err db =
    (if list_ex (\<lambda>c. ck_ID c = cid) (snapshot_checkpoints (db_work db))
     then (Inl (violates ''snapshot_checkpoints_pkey''), db)
     else (Inr (), set_work (\<lambda>T. T\<lparr>snapshot_checkpoints := snapshot_checkpoints T @ [\<lparr>ck_ID = cid, ck_Venue = venue,
        ck_AccountType = acct, ck_TakenAt = pg_time takenAt, ck_BalanceCount = cnt, ck_Status = status,
        ck_Error = err, ck_CreatedAt = now db\<rparr>]\<rparr>) db))"

definition q_LastSnapshot :: "string \<Rightarrow> string \<Rightarrow> (CheckpointRow option) dbop" where
  "q_LastSnapshot venue acct db =
    (let cs = rev (sort_key (\<lambda>c. (ck_TakenAt c, ck_CreatedAt c))
        (filter (\<lambda>c. ck_Venue c = venue \<and> ck_AccountType c = acct) (snapshot_checkpoints (db_work db)))) in
     (Inr (case cs of [] \<Rightarrow> None | c # _ \<Rightarrow> Some c), db))"

subsection \<open>Faults and frames\<close>

lemma exec_Inr_iff: "exec q db = (Inr x, db') \<longleftrightarrow>
    db_faults db (db_stmt db) = None \<and> q (db\<lparr>db_stmt := Suc (db_stmt db)\<rparr>) = (Inr x, db')"
  by (auto simp: exec_def Let_def split: option.splits Fault.splits)

text \<open>
  \<open>erase db\<close> is the same database on a connection that never fails. An operation is \<open>faultless\<close> when
  a run that succeeds despite the faults is the run without them, and keeps the \<open>frame\<close> when it
  leaves the durable tables alone. Both are closed under sequencing.
\<close>

definition erase :: "DB \<Rightarrow> DB" where "erase db = db\<lparr>db_faults := \<lambda>_. None\<rparr>"

lemma erase_simps [simp]:
  "db_durable (erase db) = db_durable db" "db_work (erase db) = db_work db" "db_seq (erase db) = db_seq db"
  "db_stmt (erase db) = db_stmt db" "db_tx (erase db) = db_tx db" "db_clock (erase db) = db_clock db"
  "db_faults (erase db) = (\<lambda>_. None)" "erase (erase db) = erase db" "now (erase db) = now db"
  by (simp_all add: erase_def now_def)

lemma erase_update [simp]:
  "(erase db)\<lparr>db_durable := T\<rparr> = erase (db\<lparr>db_durable := T\<rparr>)"
  "(erase db)\<lparr>db_work := T\<rparr> = erase (db\<lparr>db_work := T\<rparr>)"
  "(erase db)\<lparr>db_seq := q\<rparr> = erase (db\<lparr>db_seq := q\<rparr>)"
  "(erase db)\<lparr>db_stmt := n\<rparr> = erase (db\<lparr>db_stmt := n\<rparr>)"
  "(erase db)\<lparr>db_tx := n\<rparr> = erase (db\<lparr>db_tx := n\<rparr>)"
  "set_work f (erase db) = erase (set_work f db)" "rollbackTx (erase db) = erase (rollbackTx db)"
  by (simp_all add: erase_def set_work_def rollbackTx_def)

definition oblivious :: "'a dbop \<Rightarrow> bool" where
  "oblivious q \<longleftrightarrow> (\<forall>db. q (erase db) = (fst (q db), erase (snd (q db))))"

definition faultless :: "'a dbop \<Rightarrow> bool" where
  "faultless m \<longleftrightarrow> (\<forall>db x db'. m db = (Inr x, db') \<longrightarrow> m (erase db) = (Inr x, erase db'))"

lemma faultless_exec: "oblivious q \<Longrightarrow> faultless (exec q)"
  unfolding faultless_def exec_def Let_def
  by (auto simp: oblivious_def split: option.splits Fault.splits)

lemma faultless_return [faultless_intros]: "faultless (returnS x)"
  by (simp add: faultless_def)

lemma faultless_fail [faultless_intros]: "faultless (failS e)"
  by (simp add: faultless_def)

lemma faultless_wrap [faultless_intros]: "faultless m \<Longrightarrow> faultless (wrapS w m)"
  by (simp add: faultless_def)

lemma faultless_bind [faultless_intros]:
  "faultless m \<Longrightarrow> (\<And>x. faultless (f x)) \<Longrightarrow> faultless (bindS m f)"
  unfolding faultless_def by simp blast

lemma faultless_for [faultless_intros]: "(\<And>x. faultless (f x)) \<Longrightarrow> faultless (forS f xs)"
  by (induction xs) (auto intro: faultless_intros)

lemmas stmt_defs = InsertPendingOrder_def q_GetOrder_def q_GetOrderForUpdate_def q_ListActiveOrders_def
  q_ListOrders_def q_MarkCancelRequested_def q_AdoptVenueOrderID_def q_ApplyOrderUpdate_def
  q_InsertTransition_def q_InsertFill_def q_LockInventory_def q_InsertLot_def q_ListOpenLotsForUpdate_def
  q_InsertLotClosure_def q_DecrementLot_def q_InsertUnmatchedSell_def q_InsertOutbox_def
  q_ClaimUnpublishedOutbox_def q_MarkOutboxPublished_def q_DeleteOutboxPublishedBefore_def
  q_OutboxUnpublishedStats_def q_RecordSnapshot_def q_LastSnapshot_def

lemma oblivious_stmts:
  "oblivious (q_GetOrderForUpdate cid)"
  "oblivious (q_AdoptVenueOrderID cid vid)"
  "oblivious (q_ApplyOrderUpdate cid status filled avg vid reason)"
  "oblivious (q_InsertTransition cid from_st to_st filled source reason ts)"
  "oblivious (q_InsertFill p)"
  "oblivious (q_LockInventory key)"
  "oblivious (q_InsertLot lid botID venue base quote qty cost fill ts)"
  "oblivious (q_ListOpenLotsForUpdate botID venue base quote)"
  "oblivious (q_InsertLotClosure lid fill qty price ts)"
  "oblivious (q_DecrementLot lid qty ts)"
  "oblivious (q_InsertUnmatchedSell fill botID venue base quote qty ts)"
  "oblivious (q_InsertOutbox subject payload)"
  "oblivious (q_ClaimUnpublishedOutbox n)"
  "oblivious (q_MarkOutboxPublished ids)"
  by (auto simp: oblivious_def stmt_defs Let_def returnS_def split: option.splits)

lemmas faultless_stmts [faultless_intros] = oblivious_stmts [THEN faultless_exec]

definition seq_le :: "Sequences \<Rightarrow> Sequences \<Rightarrow> bool" where
  "seq_le q q' \<longleftrightarrow> seq_transitions q \<le> seq_transitions q' \<and> seq_fills q \<le> seq_fills q'
     \<and> seq_closures q \<le> seq_closures q' \<and> seq_outbox q \<le> seq_outbox q'"

lemma seq_le_refl [simp]: "seq_le q q" by (simp add: seq_le_def)
lemma seq_le_trans: "seq_le a b \<Longrightarrow> seq_le b c \<Longrightarrow> seq_le a c" by (auto simp: seq_le_def)

definition frame :: "DB \<Rightarrow> DB \<Rightarrow> bool" where
  "frame db db' \<longleftrightarrow> seq_le (db_seq db) (db_seq db') \<and> db_durable db' = db_durable db \<and> db_faults db' = db_faults db \<and> db_clock db' = db_clock db
     \<and> db_tx db' = db_tx db"

lemma frame_refl [simp]: "frame db db" by (simp add: frame_def)
lemma frame_order: "reflp frame" "transp frame"
  by (auto simp: frame_def reflp_def intro!: transpI intro: seq_le_trans)

lemma frame_exec:
  assumes "keeps frame q"
  shows "keeps frame (exec q)"
proof -
  have "frame (db\<lparr>db_stmt := n\<rparr>) (snd (q (db\<lparr>db_stmt := n\<rparr>)))" for db n
    using assms unfolding keeps_def by blast
  then have "frame db (snd (q (db\<lparr>db_stmt := n\<rparr>)))" for db n
    by (simp add: frame_def)
  then show ?thesis
    unfolding keeps_def exec_def Let_def by (simp add: frame_def split: option.split Fault.split)
qed

lemma frame_stmts:
  "keeps frame (q_GetOrderForUpdate cid)"
  "keeps frame (q_AdoptVenueOrderID cid vid)"
  "keeps frame (q_ApplyOrderUpdate cid status filled avg vid reason)"
  "keeps frame (q_InsertTransition cid from_st to_st filled source reason ts)"
  "keeps frame (q_InsertFill p)"
  "keeps frame (q_LockInventory key)"
  "keeps frame (q_InsertLot lid botID venue base quote qty cost fill ts)"
  "keeps frame (q_ListOpenLotsForUpdate botID venue base quote)"
  "keeps frame (q_InsertLotClosure lid fill qty price ts)"
  "keeps frame (q_DecrementLot lid qty ts)"
  "keeps frame (q_InsertUnmatchedSell fill botID venue base quote qty ts)"
  "keeps frame (q_InsertOutbox subject payload)"
  "keeps frame (q_ClaimUnpublishedOutbox n)"
  "keeps frame (q_MarkOutboxPublished ids)"
  by (auto simp: keeps_def frame_def seq_le_def stmt_defs set_work_def Let_def returnS_def split: option.splits)

lemmas frame_stmts_exec [frame_intros] = frame_stmts [THEN frame_exec]
lemmas frame_combine [frame_intros] = keeps_return [OF frame_order(1)] keeps_fail [OF frame_order(1)]
  keeps_bind [OF frame_order(2)] keeps_for [OF frame_order] keeps_wrap [THEN iffD2]

text \<open>
  A body is atomic when, whatever faults strike, the durable tables end up untouched or as the run
  without faults leaves them; without faults an error leaves them untouched.
\<close>

definition atomic :: "'a dbop \<Rightarrow> bool" where
  "atomic m \<longleftrightarrow> faultless m
     \<and> (\<forall>db. db_durable (snd (m db)) \<in> {db_durable db, db_durable (snd (m (erase db)))})
     \<and> (\<forall>db e db'. m (erase db) = (Inl e, db') \<longrightarrow> db_durable db' = db_durable db)"

lemma keepsD: "keeps R m \<Longrightarrow> m s = (r, t) \<Longrightarrow> R s t"
  unfolding keeps_def by (metis snd_conv)

lemma faultlessD: "faultless m \<Longrightarrow> m db = (Inr x, db') \<Longrightarrow> m (erase db) = (Inr x, erase db')"
  unfolding faultless_def by blast

lemma atomicD:
  assumes "atomic m"
  shows "faultless m" "db_durable (snd (m db)) \<in> {db_durable db, db_durable (snd (m (erase db)))}"
    "m (erase db) = (Inl e, db') \<Longrightarrow> db_durable db' = db_durable db"
  using assms unfolding atomic_def by auto

lemma atomic_frame: "keeps frame m \<Longrightarrow> faultless m \<Longrightarrow> atomic m"
  unfolding atomic_def by (auto simp: keeps_def frame_def dest: spec) (metis erase_simps(1) snd_conv)

lemma atomic_bind:
  assumes "keeps frame m" "faultless m" "\<And>x. atomic (f x)"
  shows "atomic (bindS m f)"
  unfolding atomic_def
proof (intro conjI allI impI)
  show "faultless (bindS m f)" using assms atomicD(1) by (blast intro: faultless_bind)
next
  fix db
  show "db_durable (snd (bindS m f db)) \<in> {db_durable db, db_durable (snd (bindS m f (erase db)))}"
  proof (cases "m db")
    case (Pair r db1)
    then have d: "db_durable db1 = db_durable db" using keepsD [OF assms(1)] by (auto simp: frame_def)
    show ?thesis
    proof (cases r)
      case (Inl e)
      with Pair d show ?thesis by (simp add: bindS_def)
    next
      case (Inr x)
      with Pair have "m (erase db) = (Inr x, erase db1)" using faultlessD [OF assms(2)] by blast
      with Pair Inr d atomicD(2) [OF assms(3), of x db1] show ?thesis by (simp add: bindS_def)
    qed
  qed
next
  fix db e db'
  assume "bindS m f (erase db) = (Inl e, db')"
  then consider "m (erase db) = (Inl e, db')" | x u where "m (erase db) = (Inr x, u)" "f x u = (Inl e, db')"
    by (auto simp: bindS_Inl_iff)
  then show "db_durable db' = db_durable db"
  proof cases
    case 1
    then show ?thesis using keepsD [OF assms(1)] by (auto simp: frame_def)
  next
    case 2
    then have "erase u = u" using keepsD [OF assms(1) 2(1)] by (simp add: frame_def erase_def)
    with 2 have "db_durable db' = db_durable u" using atomicD(3) [OF assms(3), of x u e db'] by simp
    then show ?thesis using keepsD [OF assms(1) 2(1)] by (simp add: frame_def)
  qed
qed

lemma atomic_commit: "atomic (bindS (wrapS w commitTx) (\<lambda>_. returnS x))"
  unfolding atomic_def faultless_def commitTx_def exec_def Let_def bindS_def wrapS_def mapErrS_def
  by (auto simp: returnS_def split: option.splits Fault.splits)


lemma faultless_beginTx: "faultless beginTx"
  unfolding beginTx_def by (rule faultless_exec) (simp add: oblivious_def)

lemma beginTx_durable: "db_durable (snd (beginTx db)) = db_durable db"
  by (simp add: beginTx_def exec_def Let_def split: option.split Fault.split)

lemma inTx_eq:
  "inTx w body db = (case wrapS w beginTx db of (Inl e, db1) \<Rightarrow> (Inl e, db1)
     | (Inr _, db1) \<Rightarrow> (fst (body db1), rollbackTx (snd (body db1))))"
  by (simp add: inTx_def split: prod.split sum.split)

lemma rollbackTx_durable [simp]: "db_durable (rollbackTx db) = db_durable db"
  by (simp add: rollbackTx_def)

lemma atomic_inTx:
  assumes "atomic body"
  shows "atomic (inTx w body)"
  unfolding atomic_def
proof (intro conjI allI impI)
  have b: "faultless (wrapS w beginTx)" by (intro faultless_intros faultless_beginTx)
  have d: "db_durable db1 = db_durable db" if "wrapS w beginTx db = (r, db1)" for db r db1
    using that beginTx_durable [of db] by (metis snd_conv snd_wrapS)
  show f: "faultless (inTx w body)"
    unfolding faultless_def
  proof (intro allI impI)
    fix db x db' assume a: "inTx w body db = (Inr x, db')"
    then obtain u db1 where 1: "wrapS w beginTx db = (Inr u, db1)" "fst (body db1) = Inr x"
      "db' = rollbackTx (snd (body db1))"
      by (auto simp: inTx_eq split: prod.splits sum.splits)
    then have "body (erase db1) = (Inr x, erase (snd (body db1)))"
      using faultlessD [OF atomicD(1) [OF assms]] by (metis prod.collapse)
    with 1 faultlessD [OF b 1(1)] show "inTx w body (erase db) = (Inr x, erase db')"
      by (simp add: inTx_eq del: wrapS_Inr_iff)
  qed
  fix db
  show "db_durable (snd (inTx w body db)) \<in> {db_durable db, db_durable (snd (inTx w body (erase db)))}"
  proof (cases "wrapS w beginTx db")
    case (Pair r db1)
    show ?thesis
    proof (cases r)
      case (Inl e)
      with Pair d [OF Pair] show ?thesis by (simp add: inTx_eq)
    next
      case (Inr u)
      with Pair have "wrapS w beginTx (erase db) = (Inr u, erase db1)" using faultlessD [OF b] by blast
      with Pair Inr d [OF Pair] atomicD(2) [OF assms, of db1] show ?thesis
        by (simp add: inTx_eq del: wrapS_Inr_iff)
    qed
  qed
  fix e db' assume "inTx w body (erase db) = (Inl e, db')"
  then consider "wrapS w beginTx (erase db) = (Inl e, db')"
    | u db1 where "wrapS w beginTx (erase db) = (Inr u, db1)" "fst (body db1) = Inl e"
      "db' = rollbackTx (snd (body db1))"
    by (auto simp: inTx_eq split: prod.splits sum.splits)
  then show "db_durable db' = db_durable db"
  proof cases
    case 1
    then show ?thesis using d [OF 1] by simp
  next
    case 2
    have "erase db1 = db1" using 2(1) by (auto simp: beginTx_def exec_def Let_def erase_def)
    then show ?thesis
      using atomicD(3) [OF assms, of db1 e "snd (body db1)"] 2 d [OF 2(1)] by (metis erase_simps(1) prod.collapse rollbackTx_durable)
  qed
qed

lemma atomic_commit_if: "atomic (bindS (if b then wrapS w commitTx else returnS ()) (\<lambda>_. returnS x))"
proof (cases b)
  case True
  then show ?thesis using atomic_commit by simp
next
  case False
  then show ?thesis by (auto intro!: atomic_frame frame_intros faultless_intros)
qed

subsection \<open>An empty database\<close>

definition no_tables :: Tables where
  "no_tables = \<lparr>orders = [], order_transitions = [], fills = [], lots = [], lot_closures = [],
     unmatched_sells = [], outbox = [], snapshot_checkpoints = []\<rparr>"

definition new_db :: "(nat \<Rightarrow> Fault option) \<Rightarrow> (nat \<Rightarrow> Time) \<Rightarrow> DB" where
  "new_db faults clock = \<lparr>db_durable = no_tables, db_work = no_tables,
     db_seq = \<lparr>seq_transitions = 1, seq_fills = 1, seq_closures = 1, seq_outbox = 1\<rparr>,
     db_stmt = 0, db_tx = 0, db_faults = faults, db_clock = clock\<rparr>"

end
