(* ===== verification/Posting.thy ===== *)
theory Posting
  imports Schema
begin

section \<open>Posting fills to the ledger\<close>

text \<open>
  \<open>internal/adapters/postgres/ledger.go\<close>, with the column and outbox helpers of \<open>orders.go\<close> it shares:
  a buy fill opens a lot, a sell fill closes shares of the open lots the store's selector picks and
  records what no lot covers. Every statement goes through \<open>exec\<close> and may fail; every error is wrapped
  with the code's text and returned.
\<close>

text \<open>
  The store's selector, and what the code calls outside the repository: the ULID that \<open>id.New\<close>
  draws, the rounding division of the decimal library and SHA-256.
\<close>

record OrderStore =
  selector :: "Lot list \<Rightarrow> Decimal \<Rightarrow> Allocation"
  newID :: string
  decimal_Div :: "Decimal \<Rightarrow> Decimal \<Rightarrow> Decimal"
  sha256 :: "string \<Rightarrow> string"

subsection \<open>Columns\<close>

definition nullString :: "string \<Rightarrow> string option" where
  "nullString s = (if s = [] then None else Some s)"

fun fromNullString :: "string option \<Rightarrow> string" where
  "fromNullString None = []"
| "fromNullString (Some s) = s"

definition nullNumeric :: "Decimal \<Rightarrow> Decimal option" where
  "nullNumeric d = (if d = 0 then None else Some d)"

fun fromNumeric :: "Decimal option \<Rightarrow> Decimal" where
  "fromNumeric None = 0"
| "fromNumeric (Some d) = d"

subsection \<open>The outbox rows of an event\<close>

definition SubjectOrderUpdated :: string where "SubjectOrderUpdated = ''order.updated''"
definition SubjectOrderFilled :: string where "SubjectOrderFilled = ''order.filled''"
definition subjectUnmatchedSell :: string where "subjectUnmatchedSell = ''ledger.unmatched_sell''"

text \<open>
  \<open>json.Marshal\<close> of a payload fails only on a time outside the years 0 to 9999; in days from Go's
  zero instant, from day -366 up to day 3652059.
\<close>

definition json_time_ok :: "Time \<Rightarrow> bool" where
  "json_time_ok t \<longleftrightarrow> - (366 * 24 * hour) \<le> nanos t \<and> nanos t < 3652059 * 24 * hour"

fun json_ok :: "Payload \<Rightarrow> bool" where
  "json_ok (OrderUpdated p) = json_time_ok (ou_At p)"
| "json_ok (OrderFilled p) = json_time_ok (of_At p)"
| "json_ok (UnmatchedSell p) = True"

definition insertOutboxJSON :: "string \<Rightarrow> Payload \<Rightarrow> unit dbop" where
  "insertOutboxJSON subject payload =
    (if \<not> json_ok payload
     then failS (wrap (''postgres: marshal '' @ subject @ '' payload'') (EText ''year outside of range [0,9999]''))
     else wrapS (''postgres: insert outbox '' @ subject) (exec (q_InsertOutbox subject payload)))"

subsection \<open>Posting a fill to the ledger\<close>

text \<open>
  The key of the advisory lock: every field is preceded by its length in eight bytes, most
  significant first, and the first eight bytes of the digest are read as a signed integer.
\<close>

definition PutUint64 :: "nat \<Rightarrow> string" where
  "PutUint64 n = map (\<lambda>i. char_of (n div 256 ^ (7 - i) mod 256)) [0..<8]"

definition Uint64 :: "string \<Rightarrow> nat" where
  "Uint64 bs = foldl (\<lambda>acc b. acc * 256 + of_char b) 0 (take 8 bs)"

definition lock_preimage :: "string list \<Rightarrow> string" where
  "lock_preimage fs = concat (map (\<lambda>f. PutUint64 (length f mod 2 ^ 64) @ f) fs)"

definition inventoryLockKey :: "OrderStore \<Rightarrow> string list \<Rightarrow> int" where
  "inventoryLockKey s fs = wrap64 (int (Uint64 (sha256 s (lock_preimage fs))))"

definition lotOfRow :: "LotRow \<Rightarrow> Lot" where
  "lotOfRow lot = \<lparr>l_ID = lo_ID lot, l_BotID = lo_BotID lot, l_Venue = lo_Venue lot, l_Base = lo_Base lot,
     l_Quote = lo_Quote lot, l_Qty = lo_Qty lot, l_RemainingQty = lo_RemainingQty lot,
     l_CostPrice = lo_CostPrice lot, l_OpenedAt = lo_OpenedAt lot\<rparr>"

definition openLot :: "OrderStore \<Rightarrow> OrderRow \<Rightarrow> Event \<Rightarrow> Decimal \<Rightarrow> int \<Rightarrow> Outcome dbop" where
  "openLot s row ev fillQty fillID =
    bindS (wrapS ''postgres: insert lot'' (exec (q_InsertLot (newID s) (o_BotID row) (o_Venue row) (o_Base row)
      (o_Quote row) fillQty (ev_FillPrice ev) fillID (ev_At ev)))) (\<lambda>_. returnS \<lparr>UnmatchedQty = 0\<rparr>)"

definition recordClosure :: "Decimal \<Rightarrow> Time \<Rightarrow> int \<Rightarrow> Closure \<Rightarrow> unit dbop" where
  "recordClosure price closedAt fillID closure =
    bindS (wrapS ''postgres: insert lot closure''
      (exec (q_InsertLotClosure (c_LotID closure) fillID (c_Qty closure) price closedAt))) (\<lambda>_.
    wrapS ''postgres: decrement lot'' (exec (q_DecrementLot (c_LotID closure) (c_Qty closure) closedAt)))"

definition recordUnmatched :: "OrderRow \<Rightarrow> Event \<Rightarrow> Decimal \<Rightarrow> int \<Rightarrow> unit dbop" where
  "recordUnmatched row ev qty fillID =
    bindS (wrapS ''postgres: insert unmatched sell'' (exec (q_InsertUnmatchedSell fillID (o_BotID row) (o_Venue row)
      (o_Base row) (o_Quote row) qty (ev_At ev)))) (\<lambda>_.
    insertOutboxJSON subjectUnmatchedSell (UnmatchedSell \<lparr>us_BotID = o_BotID row, us_Venue = o_Venue row,
      us_Base = o_Base row, us_Quote = o_Quote row, us_ClientOrderID = o_ClientOrderID row,
      us_SellFillID = fillID, us_UnmatchedQty = qty\<rparr>))"

definition closeLots :: "OrderStore \<Rightarrow> OrderRow \<Rightarrow> Event \<Rightarrow> Decimal \<Rightarrow> int \<Rightarrow> Outcome dbop" where
  "closeLots s row ev fillQty fillID =
    bindS (wrapS ''postgres: list open lots'' (exec (q_ListOpenLotsForUpdate (o_BotID row) (o_Venue row)
      (o_Base row) (o_Quote row)))) (\<lambda>rows.
    let allocation = selector s (map lotOfRow rows) fillQty in
    bindS (forS (recordClosure (ev_FillPrice ev) (ev_At ev) fillID) (Closures allocation)) (\<lambda>_.
    if \<not> IsPositive (Unmatched allocation) then returnS \<lparr>UnmatchedQty = 0\<rparr>
    else bindS (recordUnmatched row ev (Unmatched allocation) fillID)
      (\<lambda>_. returnS \<lparr>UnmatchedQty = Unmatched allocation\<rparr>)))"

definition postLedgerFill :: "OrderStore \<Rightarrow> OrderRow \<Rightarrow> Event \<Rightarrow> Decimal \<Rightarrow> int \<Rightarrow> Outcome dbop" where
  "postLedgerFill s row ev fillQty fillID =
    (if \<not> IsPositive fillQty then failS (EText ''postgres: post ledger fill: quantity must be positive'')
     else if IsNegative (ev_FillPrice ev)
     then failS (EText ''postgres: post ledger fill: price must not be negative'')
     else bindS (wrapS ''postgres: lock inventory''
       (exec (q_LockInventory (inventoryLockKey s [o_BotID row, o_Venue row, o_Base row, o_Quote row])))) (\<lambda>_.
       if o_Side row = Buy then openLot s row ev fillQty fillID
       else if o_Side row = Sell then closeLots s row ev fillQty fillID
       else failS (EText (''postgres: post ledger fill: unsupported side '' @ fmt_q (o_Side row)))))"

subsection \<open>Faults and frames of posting\<close>

lemma frame_insertOutboxJSON [frame_intros]: "keeps frame (insertOutboxJSON subject payload)"
  by (auto simp: insertOutboxJSON_def intro: frame_intros)
lemma faultless_insertOutboxJSON [faultless_intros]: "faultless (insertOutboxJSON subject payload)"
  by (auto simp: insertOutboxJSON_def intro: faultless_intros)

lemma frame_postLedgerFill [frame_intros]: "keeps frame (postLedgerFill s row ev qty fid)"
  by (auto simp: postLedgerFill_def openLot_def closeLots_def recordClosure_def recordUnmatched_def Let_def
      intro!: frame_intros)
lemma faultless_postLedgerFill [faultless_intros]: "faultless (postLedgerFill s row ev qty fid)"
  by (auto simp: postLedgerFill_def openLot_def closeLots_def recordClosure_def recordUnmatched_def Let_def
      intro!: faultless_intros)

end
