(* ===== verification/Order_Store.thy ===== *)
theory Order_Store
  imports Posting
begin

section \<open>The order store\<close>

text \<open>
  \<open>internal/adapters/postgres/orders.go\<close>: the store behind the order service, the
  reconciler and the API. \<open>ApplyEvent\<close> is the single write path for venue events; it runs the state
  machine on the locked row and writes the transition, the fill, the lots, the order and the outbox in
  one transaction. The definitions follow the code call by call: every statement goes through
  \<open>exec\<close> and may fail, every error is wrapped with the code's text and returned.
\<close>

subsection \<open>Commands and queries\<close>

definition orderRecord :: "OrderRow \<Rightarrow> OrderRecord" where
  "orderRecord row = \<lparr>or_ClientOrderID = o_ClientOrderID row, or_BotID = o_BotID row,
     or_VenueOrderID = fromNullString (o_VenueOrderID row), or_Reason = fromNullString (o_Reason row),
     or_Instrument = \<lparr>i_Venue = o_Venue row, i_Type = TypeSpot, i_Base = o_Base row, i_Quote = o_Quote row,
       i_VenueSymbol = o_VenueSymbol row, i_Rules = noRules\<rparr>,
     or_Side = o_Side row, or_Type = o_Type row, or_Price = o_Price row, or_Qty = o_Qty row,
     or_FilledQty = o_FilledQty row, or_AvgFillPrice = fromNumeric (o_AvgFillPrice row),
     or_Status = o_Status row,
     or_CancelRequestedAt = (case o_CancelRequestedAt row of None \<Rightarrow> zeroTime | Some t \<Rightarrow> t),
     or_CreatedAt = o_CreatedAt row, or_UpdatedAt = o_UpdatedAt row\<rparr>"

definition CreatePending :: "Request \<Rightarrow> bool dbop" where
  "CreatePending req =
    bindS (wrapS ''postgres: create pending order'' (autocommit (InsertPendingOrder (rq_ClientOrderID req)
      (i_Venue (rq_Instrument req)) (i_Base (rq_Instrument req)) (i_Quote (rq_Instrument req))
      (i_VenueSymbol (rq_Instrument req)) (rq_Side req) (rq_Type req) (rq_Price req) (rq_Qty req) (rq_BotID req))))
      (\<lambda>n. returnS (n = 1))"

definition MarkCancelRequested :: "ClientOrderID \<Rightarrow> Time \<Rightarrow> unit dbop" where
  "MarkCancelRequested cid ts =
    bindS (wrapS ''postgres: mark cancel requested'' (autocommit (q_MarkCancelRequested cid ts)))
      (\<lambda>n. if n = 0 then failS (ESentinel ErrNotFound) else returnS ())"

definition GetOrder :: "ClientOrderID \<Rightarrow> OrderRecord dbop" where
  "GetOrder cid =
    bindS (wrapS ''postgres: get order'' (autocommit (q_GetOrder cid)))
      (\<lambda>r. case r of None \<Rightarrow> failS (ESentinel ErrNotFound) | Some row \<Rightarrow> returnS (orderRecord row))"

definition ListActiveOrders :: "VenueID \<Rightarrow> (OrderRecord list) dbop" where
  "ListActiveOrders venue =
    bindS (wrapS ''postgres: list active orders'' (autocommit (q_ListActiveOrders venue)))
      (\<lambda>rows. returnS (map orderRecord rows))"

text \<open>\<open>int64(query.Limit) + 1\<close> wraps around at the top of the 64-bit range.\<close>

definition ListOrders :: "Query \<Rightarrow> (OrderRecord list) dbop" where
  "ListOrders query =
    bindS (wrapS ''postgres: list orders'' (autocommit (q_ListOrders (q_Venue query)
      (if q_Statuses query = [] then None else Some (q_Statuses query)) (q_BotID query)
      (map_option pg_time (q_CursorCreatedAt query)) (q_CursorID query) (wrap64 (q_Limit query + 1)))))
      (\<lambda>rows. returnS (map orderRecord rows))"

subsection \<open>Applying an event\<close>

definition insertEventOutbox :: "OrderRow \<Rightarrow> Source \<Rightarrow> Event \<Rightarrow> Decision \<Rightarrow> Decimal \<Rightarrow> unit dbop" where
  "insertEventOutbox row source ev decision newFilled =
    bindS (insertOutboxJSON SubjectOrderUpdated (OrderUpdated \<lparr>ou_ClientOrderID = o_ClientOrderID row,
      ou_Venue = o_Venue row, ou_Base = o_Base row, ou_Quote = o_Quote row, ou_Status = d_To decision,
      ou_FilledQty = newFilled, ou_Source = source, ou_At = ev_At ev\<rparr>)) (\<lambda>_.
    if \<not> IsPositive (d_FillDelta decision) then returnS ()
    else insertOutboxJSON SubjectOrderFilled (OrderFilled \<lparr>of_ClientOrderID = o_ClientOrderID row,
      of_Venue = o_Venue row, of_Base = o_Base row, of_Quote = o_Quote row, of_Status = d_To decision,
      of_FilledQty = newFilled, of_Qty = d_FillDelta decision, of_Price = ev_FillPrice ev, of_Fee = ev_Fee ev,
      of_FeeCurrency = ev_FeeCurrency ev, of_VenueFillID = ev_VenueFillID ev, of_At = ev_At ev\<rparr>))"

definition avgFillPrice :: "OrderStore \<Rightarrow> OrderRow \<Rightarrow> Decision \<Rightarrow> Event \<Rightarrow> Decimal \<Rightarrow> Decimal option" where
  "avgFillPrice s row decision ev newFilled =
    (if \<not> IsPositive (d_FillDelta decision) \<or> \<not> IsPositive (ev_FillPrice ev) \<or> newFilled = 0
     then o_AvgFillPrice row
     else if o_AvgFillPrice row = None \<and> IsPositive (o_FilledQty row) then nullNumeric (ev_FillPrice ev)
     else let oldAvg = fromNumeric (o_AvgFillPrice row); oldFilled = o_FilledQty row in
       nullNumeric (decimal_Div s (oldAvg * oldFilled + ev_FillPrice ev * d_FillDelta decision) newFilled))"

definition adoptVenueOrderID :: "OrderRow \<Rightarrow> string \<Rightarrow> bool dbop" where
  "adoptVenueOrderID row venueOrderID =
    (if o_VenueOrderID row \<noteq> None \<or> venueOrderID = [] then returnS False
     else bindS (wrapS ''postgres: adopt venue order ID''
       (exec (q_AdoptVenueOrderID (o_ClientOrderID row) (nullString venueOrderID)))) (\<lambda>_. returnS True))"

text \<open>
  The insertion of the fill: when the venue's fill ID is already stored for the order, the row is
  inserted again without it and without the fee. The flag says whether that happened.
\<close>

definition insertFill :: "InsertFillParams \<Rightarrow> (int \<times> bool) dbop" where
  "insertFill fill =
    bindS (exec (q_InsertFill fill)) (\<lambda>r. case r of
      Some fillID \<Rightarrow> returnS (fillID, False)
    | None \<Rightarrow> bindS (exec (q_InsertFill (fill\<lparr>if_VenueFillID := None, if_Fee := None, if_FeeCurrency := None\<rparr>)))
        (\<lambda>r2. case r2 of
           Some fillID \<Rightarrow> returnS (fillID, True)
         | None \<Rightarrow> failS (EText ''no rows in result set'')))"

definition fillParams :: "OrderRow \<Rightarrow> Event \<Rightarrow> Decision \<Rightarrow> int \<Rightarrow> InsertFillParams" where
  "fillParams row ev decision trID = \<lparr>if_ClientOrderID = o_ClientOrderID row, if_TransitionID = trID,
     if_Qty = d_FillDelta decision, if_Price = nullNumeric (ev_FillPrice ev), if_Fee = nullNumeric (ev_Fee ev),
     if_FeeCurrency = nullString (ev_FeeCurrency ev), if_VenueFillID = nullString (ev_VenueFillID ev),
     if_OccurredAt = ev_At ev\<rparr>"

text \<open>The branch of \<open>persistDecision\<close> for a positive delta: the fill row, then its posting.\<close>

definition persistFill :: "OrderStore \<Rightarrow> OrderRow \<Rightarrow> Event \<Rightarrow> Decision \<Rightarrow> int \<Rightarrow> (Event \<times> Outcome \<times> bool) dbop" where
  "persistFill s row ev decision trID =
    (if \<not> IsPositive (d_FillDelta decision) then returnS (ev, \<lparr>UnmatchedQty = 0\<rparr>, False)
     else bindS (wrapS ''postgres: insert fill'' (insertFill (fillParams row ev decision trID))) (\<lambda>(fillID, fillConflict).
       let ev' = (if fillConflict then ev\<lparr>ev_VenueFillID := [], ev_Fee := 0, ev_FeeCurrency := []\<rparr> else ev) in
       bindS (postLedgerFill s row ev' (d_FillDelta decision) fillID)
         (\<lambda>outcome. returnS (ev', outcome, fillConflict))))"

definition persistDecision :: "OrderStore \<Rightarrow> OrderRow \<Rightarrow> Source \<Rightarrow> Event \<Rightarrow> Decision \<Rightarrow> ApplyResult dbop" where
  "persistDecision s row source ev decision =
    (let newFilled = o_FilledQty row + d_FillDelta decision in
     bindS (wrapS ''postgres: insert transition'' (exec (q_InsertTransition (o_ClientOrderID row) (o_Status row)
       (d_To decision) newFilled source (nullString (ev_Reason ev)) (ev_At ev)))) (\<lambda>(trID, seq).
     bindS (persistFill s row ev decision trID) (\<lambda>(ev', outcome, fillConflict).
     bindS (wrapS ''postgres: update order'' (exec (q_ApplyOrderUpdate (o_ClientOrderID row) (d_To decision) newFilled
       (avgFillPrice s row decision ev' newFilled) (nullString (rf_VenueOrderID (ev_Ref ev')))
       (nullString (ev_Reason ev'))))) (\<lambda>_.
     bindS (insertEventOutbox row source ev' decision newFilled)
       (\<lambda>_. returnS \<lparr>ar_Decision = decision, ar_Outcome = outcome, ar_FillConflict = fillConflict\<rparr>)))))"

definition applyEventTx :: "OrderStore \<Rightarrow> Source \<Rightarrow> Event \<Rightarrow> ApplyResult dbop" where
  "applyEventTx s source ev =
    bindS (wrapS ''postgres: lock order'' (exec (q_GetOrderForUpdate (rf_ClientOrderID (ev_Ref ev))))) (\<lambda>r.
    case r of None \<Rightarrow> failS (ESentinel ErrNotFound)
    | Some row \<Rightarrow>
      (case Transition \<lparr>st_Status = o_Status row, st_FilledQty = o_FilledQty row\<rparr> ev of
         Inl e \<Rightarrow> failS e
       | Inr decision \<Rightarrow>
         if \<not> d_Transition decision \<and> \<not> IsPositive (d_FillDelta decision) then
           bindS (adoptVenueOrderID row (rf_VenueOrderID (ev_Ref ev))) (\<lambda>adopted.
           bindS (if adopted then wrapS ''postgres: commit apply event'' commitTx else returnS ())
             (\<lambda>_. returnS \<lparr>ar_Decision = decision, ar_Outcome = \<lparr>UnmatchedQty = 0\<rparr>, ar_FillConflict = False\<rparr>))
         else
           bindS (persistDecision s row source ev decision) (\<lambda>result.
           bindS (wrapS ''postgres: commit apply event'' commitTx) (\<lambda>_. returnS result))))"

definition ApplyEvent :: "OrderStore \<Rightarrow> Source \<Rightarrow> Event \<Rightarrow> ApplyResult dbop" where
  "ApplyEvent s source ev = inTx ''postgres: begin apply event'' (applyEventTx s source ev)"

subsection \<open>Faults and frames of the store\<close>

lemma frame_persistDecision [frame_intros]: "keeps frame (persistDecision s row source ev d)"
  by (auto simp: persistDecision_def persistFill_def insertFill_def insertEventOutbox_def Let_def
      intro!: frame_intros split: prod.splits option.splits)
lemma faultless_persistDecision [faultless_intros]: "faultless (persistDecision s row source ev d)"
  by (auto simp: persistDecision_def persistFill_def insertFill_def insertEventOutbox_def Let_def
      intro!: faultless_intros split: prod.splits option.splits)

lemma frame_adopt [frame_intros]: "keeps frame (adoptVenueOrderID row v)"
  by (auto simp: adoptVenueOrderID_def intro!: frame_intros)
lemma faultless_adopt [faultless_intros]: "faultless (adoptVenueOrderID row v)"
  by (auto simp: adoptVenueOrderID_def intro!: faultless_intros)
lemma atomic_applyEventTx: "atomic (applyEventTx s source ev)"
proof -
  have c: "atomic (case r of None \<Rightarrow> failS (ESentinel ErrNotFound)
    | Some row \<Rightarrow>
      (case Transition \<lparr>st_Status = o_Status row, st_FilledQty = o_FilledQty row\<rparr> ev of
         Inl e \<Rightarrow> failS e
       | Inr decision \<Rightarrow>
         if \<not> d_Transition decision \<and> \<not> IsPositive (d_FillDelta decision) then
           bindS (adoptVenueOrderID row (rf_VenueOrderID (ev_Ref ev))) (\<lambda>adopted.
           bindS (if adopted then wrapS ''postgres: commit apply event'' commitTx else returnS ())
             (\<lambda>_. returnS \<lparr>ar_Decision = decision, ar_Outcome = \<lparr>UnmatchedQty = 0\<rparr>, ar_FillConflict = False\<rparr>))
         else
           bindS (persistDecision s row source ev decision) (\<lambda>result.
           bindS (wrapS ''postgres: commit apply event'' commitTx) (\<lambda>_. returnS result))))" for r
    by (auto split: option.split sum.split intro!: atomic_commit atomic_commit_if atomic_bind frame_intros faultless_intros
        atomic_frame [where m = "failS _"] atomic_frame [where m = "returnS _"])
  show ?thesis
    unfolding applyEventTx_def by (intro atomic_bind c frame_intros faultless_intros)
qed

lemma atomic_ApplyEvent: "atomic (ApplyEvent s source ev)"
  unfolding ApplyEvent_def by (rule atomic_inTx [OF atomic_applyEventTx])
subsection \<open>Running the store on concrete databases\<close>

definition demo_request :: "Side \<Rightarrow> Request" where
  "demo_request side = \<lparr>rq_ClientOrderID = ''01JG3'', rq_BotID = ''manual'',
     rq_Instrument = \<lparr>i_Venue = ''bybit'', i_Type = TypeSpot, i_Base = ''BTC'', i_Quote = ''USDT'',
       i_VenueSymbol = ''BTCUSDT'', i_Rules = noRules\<rparr>,
     rq_Side = side, rq_Type = Limit, rq_Price = 50000, rq_Qty = 1\<rparr>"

definition demo_store :: OrderStore where
  "demo_store = \<lparr>selector = FIFO_Select, newID = ''01JG4'', decimal_Div = (/), sha256 = (\<lambda>s. s)\<rparr>"

definition demo_db :: "Side \<Rightarrow> (nat \<Rightarrow> Fault option) \<Rightarrow> DB" where
  "demo_db side faults = (snd (CreatePending (demo_request side) (new_db (\<lambda>_. None) (\<lambda>_. Time 1000))))\<lparr>db_faults := faults\<rparr>"


lemmas demo_defs = demo_store_def demo_db_def demo_request_def demo_event_def new_db_def no_tables_def

lemmas run_defs = ApplyEvent_def inTx_def applyEventTx_def persistDecision_def persistFill_def insertFill_def
  fillParams_def postLedgerFill_def openLot_def closeLots_def recordClosure_def recordUnmatched_def
  insertEventOutbox_def insertOutboxJSON_def adoptVenueOrderID_def avgFillPrice_def beginTx_def commitTx_def
  rollbackTx_def exec_def set_work_def bindS_def wrapS_def mapErrS_def returnS_def failS_def stmt_defs
  autocommit_def CreatePending_def find_order_def

lemmas eval_defs = status_defs Sell_def Buy_def Limit_def Transition_def rank_def terminalRank_def
  SourceStream_def nullString_def nullNumeric_def venue_order_id_taken_def max_seq_def now_def update_where_def
  json_time_ok_def duration_defs order_statuses_def FIFO_Select_def

subsection \<open>Atomicity\<close>

text \<open>
  C2: applying an event is all or nothing under every pattern of connection faults. Whatever
  statements fail, before or after the server executed them, a lost acknowledgement of the commit
  included, the durable tables are either untouched or exactly those the run without faults leaves. A
  call that reports success has the result and the tables of that run, and without faults a call that
  reports an error has written nothing.
\<close>

theorem ApplyEvent_all_or_nothing:
  "db_durable (snd (ApplyEvent s source ev db))
     \<in> {db_durable db, db_durable (snd (ApplyEvent s source ev (erase db)))}
   \<and> (fst (ApplyEvent s source ev db) = Inr x \<longrightarrow>
        ApplyEvent s source ev (erase db) = (Inr x, erase (snd (ApplyEvent s source ev db))))
   \<and> (fst (ApplyEvent s source ev (erase db)) = Inl e \<longrightarrow>
        db_durable (snd (ApplyEvent s source ev (erase db))) = db_durable db)"
  using atomicD(2) [OF atomic_ApplyEvent, of s source ev db]
    faultlessD [OF atomicD(1) [OF atomic_ApplyEvent], of s source ev db x]
    atomicD(3) [OF atomic_ApplyEvent, of s source ev db e]
  by (metis prod.collapse)

text \<open>
  The witness runs a database whose connection loses the acknowledgement of the commit, the tenth
  statement after the order was created: the call fails, and the tables are those of the run
  without faults, with the order filled.
\<close>

definition lost_commit :: "nat \<Rightarrow> Fault option" where
  "lost_commit n = (if n = 10 then Some (FailAfter (EText ''connection reset'')) else None)"

lemma ApplyEvent_all_or_nothing_witness:
  "(\<exists>e. fst (ApplyEvent demo_store SourceStream (demo_event StatusFilled 1) (demo_db Buy lost_commit)) = Inl e)
   \<and> db_durable (snd (ApplyEvent demo_store SourceStream (demo_event StatusFilled 1) (demo_db Buy lost_commit)))
     \<in> {db_durable (demo_db Buy lost_commit),
        db_durable (snd (ApplyEvent demo_store SourceStream (demo_event StatusFilled 1) (erase (demo_db Buy lost_commit))))}
   \<and> map o_Status (orders (db_durable (snd (ApplyEvent demo_store SourceStream (demo_event StatusFilled 1)
       (demo_db Buy lost_commit))))) = [StatusFilled]"
proof (intro conjI)
  show "\<exists>e. fst (ApplyEvent demo_store SourceStream (demo_event StatusFilled 1) (demo_db Buy lost_commit)) = Inl e"
    by (simp add: lost_commit_def demo_defs run_defs eval_defs Let_def lot_checks_def)
next
  show "map o_Status (orders (db_durable (snd (ApplyEvent demo_store SourceStream (demo_event StatusFilled 1)
       (demo_db Buy lost_commit))))) = [StatusFilled]"
    by (simp add: lost_commit_def demo_defs run_defs eval_defs Let_def lot_checks_def)
next
  show "db_durable (snd (ApplyEvent demo_store SourceStream (demo_event StatusFilled 1) (demo_db Buy lost_commit)))
     \<in> {db_durable (demo_db Buy lost_commit),
        db_durable (snd (ApplyEvent demo_store SourceStream (demo_event StatusFilled 1) (erase (demo_db Buy lost_commit))))}"
    using ApplyEvent_all_or_nothing [of demo_store SourceStream "demo_event StatusFilled 1" "demo_db Buy lost_commit"]
    by blast
qed

end
