(* ===== verification/Store_Invariant.thy ===== *)
theory Store_Invariant
  imports Order_Store
begin

section \<open>The invariants of the stored tables\<close>

text \<open>
  What the tables promise between transactions, and what each statement and each posting does to the
  quantities the promises speak of: the orders and their audit trail, the fills behind the filled
  quantity, the lots and their closures, and the balance of every inventory. The lemmas on posting are
  proved for any selector that meets the contract \<open>lot_selector\<close>.
\<close>

subsection \<open>What the tables say\<close>

type_synonym Inventory = "string \<times> string \<times> string \<times> string"

definition order_inventory :: "OrderRow \<Rightarrow> Inventory" where
  "order_inventory r = (o_BotID r, o_Venue r, o_Base r, o_Quote r)"

text \<open>The columns that no statement changes after the insert, and the stamp of a cancel request.\<close>

definition row_terms :: "OrderRow \<Rightarrow> string list \<times> Decimal \<times> Decimal \<times> Time" where
  "row_terms r = ([o_ClientOrderID r, o_BotID r, o_Venue r, o_Base r, o_Quote r, o_VenueSymbol r, o_Side r, o_Type r],
     o_Price r, o_Qty r, o_CreatedAt r)"

definition lot_inventory :: "LotRow \<Rightarrow> Inventory" where
  "lot_inventory l = (lo_BotID l, lo_Venue l, lo_Base l, lo_Quote l)"

definition unmatched_inventory :: "UnmatchedSellRow \<Rightarrow> Inventory" where
  "unmatched_inventory u = (un_BotID u, un_Venue u, un_Base u, un_Quote u)"

definition transitions_of :: "Tables \<Rightarrow> string \<Rightarrow> TransitionRow list" where
  "transitions_of T cid = filter (\<lambda>t. tr_ClientOrderID t = cid) (order_transitions T)"

definition filled_by :: "Tables \<Rightarrow> string \<Rightarrow> Decimal" where
  "filled_by T cid = (\<Sum>f\<leftarrow>fills T. if fl_ClientOrderID f = cid then fl_Qty f else 0)"

definition closed_of :: "Tables \<Rightarrow> int \<Rightarrow> Decimal" where
  "closed_of T fid = (\<Sum>c\<leftarrow>lot_closures T. if cl_SellFillID c = fid then cl_Qty c else 0)"

definition unmatched_of :: "Tables \<Rightarrow> int \<Rightarrow> Decimal" where
  "unmatched_of T fid = (\<Sum>u\<leftarrow>unmatched_sells T. if un_SellFillID u = fid then un_Qty u else 0)"

definition closed_lot :: "Tables \<Rightarrow> string \<Rightarrow> Decimal" where
  "closed_lot T lid = (\<Sum>c\<leftarrow>lot_closures T. if cl_LotID c = lid then cl_Qty c else 0)"

definition held :: "Tables \<Rightarrow> Inventory \<Rightarrow> Decimal" where
  "held T k = (\<Sum>l\<leftarrow>lots T. if lot_inventory l = k then lo_RemainingQty l else 0)"

definition unmatched_total :: "Tables \<Rightarrow> Inventory \<Rightarrow> Decimal" where
  "unmatched_total T k = (\<Sum>u\<leftarrow>unmatched_sells T. if unmatched_inventory u = k then un_Qty u else 0)"

text \<open>The quantity of the fills whose order has the side and trades in the inventory.\<close>

definition fill_in :: "Tables \<Rightarrow> Side \<Rightarrow> Inventory \<Rightarrow> FillRow \<Rightarrow> bool" where
  "fill_in T side k f = (case find_order (fl_ClientOrderID f) T of None \<Rightarrow> False
     | Some r \<Rightarrow> o_Side r = side \<and> order_inventory r = k)"

definition traded :: "Tables \<Rightarrow> Side \<Rightarrow> Inventory \<Rightarrow> Decimal" where
  "traded T side k = (\<Sum>f\<leftarrow>fills T. if fill_in T side k f then fl_Qty f else 0)"

text \<open>Replaying an order's transitions from a state: each starts where the last one ended.\<close>

fun replay :: "State \<Rightarrow> TransitionRow list \<Rightarrow> State option" where
  "replay st [] = Some st"
| "replay st (t # ts) = (if tr_FromStatus t = st_Status st \<and> st_FilledQty st \<le> tr_FilledQty t
     then replay \<lparr>st_Status = tr_ToStatus t, st_FilledQty = tr_FilledQty t\<rparr> ts else None)"

definition row_state :: "OrderRow \<Rightarrow> State" where
  "row_state r = \<lparr>st_Status = o_Status r, st_FilledQty = o_FilledQty r\<rparr>"

definition new_state :: State where "new_state = \<lparr>st_Status = StatusPending, st_FilledQty = 0\<rparr>"

subsection \<open>The invariants\<close>

definition order_ids :: "Tables \<Rightarrow> string set" where "order_ids T = o_ClientOrderID ` set (orders T)"
definition fill_ids :: "Tables \<Rightarrow> int set" where "fill_ids T = fl_ID ` set (fills T)"
definition lot_ids :: "Tables \<Rightarrow> string set" where "lot_ids T = lo_ID ` set (lots T)"

definition orders_inv :: "Tables \<Rightarrow> bool" where
  "orders_inv T \<longleftrightarrow> distinct (map o_ClientOrderID (orders T))
     \<and> (\<forall>r\<in>set (orders T). known_status (o_Status r) \<and> o_Side r \<in> {Buy, Sell})"

definition trail_inv :: "Tables \<Rightarrow> bool" where
  "trail_inv T \<longleftrightarrow> (\<forall>t\<in>set (order_transitions T). tr_ClientOrderID t \<in> order_ids T)
     \<and> (\<forall>r\<in>set (orders T). replay new_state (transitions_of T (o_ClientOrderID r)) = Some (row_state r)
        \<and> map tr_Seq (transitions_of T (o_ClientOrderID r))
          = map int [1..<Suc (length (transitions_of T (o_ClientOrderID r)))])"

definition fills_inv :: "Tables \<Rightarrow> Sequences \<Rightarrow> bool" where
  "fills_inv T q \<longleftrightarrow> distinct (map fl_ID (fills T))
     \<and> (\<forall>f\<in>set (fills T). fl_ClientOrderID f \<in> order_ids T \<and> fl_ID f < seq_fills q \<and> 0 < fl_Qty f)
     \<and> (\<forall>r\<in>set (orders T). o_FilledQty r = filled_by T (o_ClientOrderID r))"

definition lots_inv :: "Tables \<Rightarrow> bool" where
  "lots_inv T \<longleftrightarrow> distinct (map lo_ID (lots T))
     \<and> (\<forall>c\<in>set (lot_closures T). cl_LotID c \<in> lot_ids T)
     \<and> (\<forall>l\<in>set (lots T). lot_checks l \<and> lo_RemainingQty l = lo_Qty l - closed_lot T (lo_ID l))"

definition posted :: "Tables \<Rightarrow> FillRow \<Rightarrow> OrderRow \<Rightarrow> bool" where
  "posted T f r = (if o_Side r = Buy
     then (\<exists>l\<in>set (lots T). lo_OpenedByFillID l = fl_ID f \<and> lo_Qty l = fl_Qty f \<and> lot_inventory l = order_inventory r)
     else closed_of T (fl_ID f) + unmatched_of T (fl_ID f) = fl_Qty f)"

definition posted_inv :: "Tables \<Rightarrow> bool" where
  "posted_inv T \<longleftrightarrow> (\<forall>c\<in>set (lot_closures T). cl_SellFillID c \<in> fill_ids T)
     \<and> (\<forall>u\<in>set (unmatched_sells T). un_SellFillID u \<in> fill_ids T)
     \<and> (\<forall>l\<in>set (lots T). lo_OpenedByFillID l \<in> fill_ids T)
     \<and> (\<forall>f\<in>set (fills T). \<forall>r\<in>set (orders T). o_ClientOrderID r = fl_ClientOrderID f \<longrightarrow> posted T f r)"

definition balance_inv :: "Tables \<Rightarrow> bool" where
  "balance_inv T \<longleftrightarrow> (\<forall>k. held T k + traded T Sell k = traded T Buy k + unmatched_total T k)"

definition store_inv :: "Tables \<Rightarrow> Sequences \<Rightarrow> bool" where
  "store_inv T q \<longleftrightarrow> orders_inv T \<and> trail_inv T \<and> fills_inv T q \<and> lots_inv T \<and> posted_inv T \<and> balance_inv T"

subsection \<open>One closure\<close>

definition lot_static :: "LotRow \<Rightarrow> string \<times> int \<times> Decimal \<times> Inventory" where
  "lot_static l = (lo_ID l, lo_OpenedByFillID l, lo_Qty l, lot_inventory l)"

text \<open>
  What recording closures of a fill adds up to: the lots keep their identity, quantity and inventory,
  the closed quantity grows by the amount for that fill and that inventory only.
\<close>

definition closes :: "int \<Rightarrow> Inventory \<Rightarrow> Decimal \<Rightarrow> Tables \<Rightarrow> Tables \<Rightarrow> bool" where
  "closes fid k amount T T' \<longleftrightarrow>
     orders T' = orders T \<and> order_transitions T' = order_transitions T \<and> fills T' = fills T
     \<and> unmatched_sells T' = unmatched_sells T
     \<and> map lot_static (lots T') = map lot_static (lots T)
     \<and> (lots_inv T \<longrightarrow> lots_inv T')
     \<and> cl_SellFillID ` set (lot_closures T') \<subseteq> insert fid (cl_SellFillID ` set (lot_closures T))
     \<and> (\<forall>f. closed_of T' f = closed_of T f + (if f = fid then amount else 0))
     \<and> (\<forall>k'. held T' k' = held T k' - (if k' = k then amount else 0))"

lemma closes_refl: "closes fid k 0 T T"
  by (auto simp: closes_def)

lemma closes_trans:
  assumes "closes fid k a T T'" "closes fid k b T' T''"
  shows "closes fid k (a + b) T T''"
  unfolding closes_def
proof (intro conjI impI allI)
  show "cl_SellFillID ` set (lot_closures T'') \<subseteq> insert fid (cl_SellFillID ` set (lot_closures T))"
    using assms unfolding closes_def by blast
qed (use assms in \<open>simp_all add: closes_def del: split_paired_All\<close>)

lemma decrement_lot_simps [simp]:
  "lo_ID (decrement_lot q ts l) = lo_ID l" "lot_static (decrement_lot q ts l) = lot_static l"
  "lot_inventory (decrement_lot q ts l) = lot_inventory l" "lo_Qty (decrement_lot q ts l) = lo_Qty l"
  "lo_RemainingQty (decrement_lot q ts l) = lo_RemainingQty l - q"
  by (simp_all add: decrement_lot_def lot_static_def lot_inventory_def)

lemma lot_ids_list_ex: "list_ex (\<lambda>l. lo_ID l = a) (lots T) \<longleftrightarrow> a \<in> lot_ids T"
  by (auto simp: lot_ids_def list_ex_iff)

lemma InsertLotClosure_Inr:
  assumes "exec (q_InsertLotClosure lid fid qty price ts) db = (Inr u, db')"
  shows "\<exists>row. db_work db' = (db_work db)\<lparr>lot_closures := lot_closures (db_work db) @ [row]\<rparr>
    \<and> cl_LotID row = lid \<and> cl_SellFillID row = fid \<and> cl_Qty row = qty
    \<and> list_ex (\<lambda>l. lo_ID l = lid) (lots (db_work db)) \<and> list_ex (\<lambda>f. fl_ID f = fid) (fills (db_work db))
    \<and> seq_fills (db_seq db') = seq_fills (db_seq db)"
  using assms by (auto simp: exec_Inr_iff q_InsertLotClosure_def Let_def set_work_def split: if_splits)

lemma DecrementLot_Inr:
  assumes "exec (q_DecrementLot lid qty ts) db = (Inr u, db')"
  shows "db_work db' = (db_work db)\<lparr>lots := update_where (\<lambda>l. lo_ID l = lid) (decrement_lot qty ts) (lots (db_work db))\<rparr>
    \<and> (\<forall>l\<in>set (lots (db_work db)). lo_ID l = lid \<longrightarrow> lot_checks (decrement_lot qty ts l))
    \<and> db_seq db' = db_seq db"
  using assms by (auto simp: exec_Inr_iff q_DecrementLot_def set_work_def list_ex_iff split: if_splits)

text \<open>One turn of the loop of \<open>closeLots\<close> that succeeds.\<close>

lemma recordClosure_effect:
  assumes "recordClosure price ts fid c db = (Inr u, db')"
  shows "\<exists>row. db_work db' = (db_work db)\<lparr>lot_closures := lot_closures (db_work db) @ [row],
       lots := update_where (\<lambda>l. lo_ID l = c_LotID c) (decrement_lot (c_Qty c) ts) (lots (db_work db))\<rparr>
     \<and> cl_LotID row = c_LotID c \<and> cl_SellFillID row = fid \<and> cl_Qty row = c_Qty c
     \<and> c_LotID c \<in> lot_ids (db_work db)
     \<and> (\<forall>l\<in>set (lots (db_work db)). lo_ID l = c_LotID c \<longrightarrow> lot_checks (decrement_lot (c_Qty c) ts l))
     \<and> seq_fills (db_seq db') = seq_fills (db_seq db)"
proof -
  from assms obtain db1 where 1: "exec (q_InsertLotClosure (c_LotID c) fid (c_Qty c) price ts) db = (Inr (), db1)"
    and 2: "exec (q_DecrementLot (c_LotID c) (c_Qty c) ts) db1 = (Inr u, db')"
    by (auto simp: recordClosure_def)
  show ?thesis
    using InsertLotClosure_Inr [OF 1] DecrementLot_Inr [OF 2] by (auto simp: lot_ids_list_ex)
qed

lemma closure_closes:
  assumes "T' = T\<lparr>lot_closures := lot_closures T @ [row],
       lots := update_where (\<lambda>l. lo_ID l = cl_LotID row) (decrement_lot (cl_Qty row) ts) (lots T)\<rparr>"
    and d: "distinct (map lo_ID (lots T))" and l: "l \<in> set (lots T)" "lo_ID l = cl_LotID row"
    and chk: "\<forall>l\<in>set (lots T). lo_ID l = cl_LotID row \<longrightarrow> lot_checks (decrement_lot (cl_Qty row) ts l)"
  shows "closes (cl_SellFillID row) (lot_inventory l) (cl_Qty row) T T'"
proof -
  let ?u = "update_where (\<lambda>x. lo_ID x = cl_LotID row) (decrement_lot (cl_Qty row) ts)"
  have T': "lots T' = ?u (lots T)" "lot_closures T' = lot_closures T @ [row]"
    "orders T' = orders T" "order_transitions T' = order_transitions T" "fills T' = fills T"
    "unmatched_sells T' = unmatched_sells T"
    using assms(1) by simp_all
  have u: "?u = update_where (\<lambda>x. lo_ID x = lo_ID l) (decrement_lot (cl_Qty row) ts)" using l by simp
  have ids: "map lo_ID (lots T') = map lo_ID (lots T)" by (simp add: T' map_update_where)
  then have ids': "lot_ids T' = lot_ids T" unfolding lot_ids_def by (metis set_map)
  have in_ids: "cl_LotID row \<in> lot_ids T" using l by (metis lot_ids_def imageI)
  have each: "lo_RemainingQty x = lo_Qty x - closed_lot T' (lo_ID x) \<and> lot_checks x"
    if "lots_inv T" "x \<in> set (lots T')" for x
  proof -
    have c: "closed_lot T' i = closed_lot T i + (if cl_LotID row = i then cl_Qty row else 0)" for i
      by (simp add: closed_lot_def T'(2))
    from that(2) obtain y where y: "y \<in> set (lots T)"
      "x = (if lo_ID y = cl_LotID row then decrement_lot (cl_Qty row) ts y else y)"
      by (auto simp: T'(1) update_where_def)
    moreover have "lo_RemainingQty y = lo_Qty y - closed_lot T (lo_ID y)" "lot_checks y"
      using that(1) y(1) by (simp_all add: lots_inv_def)
    ultimately show ?thesis using chk by (simp add: c)
  qed
  have "lots_inv T'" if "lots_inv T"
    unfolding lots_inv_def ids ids'
  proof (intro conjI)
    show "distinct (map lo_ID (lots T))" by (fact d)
    show "\<forall>c\<in>set (lot_closures T'). cl_LotID c \<in> lot_ids T"
      using that in_ids by (simp add: lots_inv_def T'(2))
  qed (use each that in blast)
  moreover have "held T' k = held T k - (if k = lot_inventory l then cl_Qty row else 0)" for k
    unfolding held_def T'(1) u
    by (subst sum_list_update_one [OF d l(1)]) simp
  ultimately show ?thesis
    unfolding closes_def by (auto simp: T' map_update_where closed_of_def)
qed


subsection \<open>Posting a fill\<close>

text \<open>What posting a fill of an order does to the tables, for either side.\<close>

definition order_tables :: "Tables \<Rightarrow> OrderRow list \<times> TransitionRow list \<times> FillRow list" where
  "order_tables T = (orders T, order_transitions T, fills T)"

definition ledger_tables :: "Tables \<Rightarrow> LotRow list \<times> LotClosureRow list \<times> UnmatchedSellRow list" where
  "ledger_tables T = (lots T, lot_closures T, unmatched_sells T)"

definition posts :: "OrderRow \<Rightarrow> Decimal \<Rightarrow> int \<Rightarrow> Tables \<Rightarrow> Tables \<Rightarrow> bool" where
  "posts r qty fid T T' \<longleftrightarrow>
     lots_inv T'
     \<and> cl_SellFillID ` set (lot_closures T') \<subseteq> insert fid (cl_SellFillID ` set (lot_closures T))
     \<and> un_SellFillID ` set (unmatched_sells T') \<subseteq> insert fid (un_SellFillID ` set (unmatched_sells T))
     \<and> (\<forall>f. f \<noteq> fid \<longrightarrow> closed_of T' f = closed_of T f \<and> unmatched_of T' f = unmatched_of T f)
     \<and> lot_static ` set (lots T) \<subseteq> lot_static ` set (lots T')
     \<and> lo_OpenedByFillID ` set (lots T') \<subseteq> insert fid (lo_OpenedByFillID ` set (lots T))
     \<and> (if o_Side r = Buy then (fid, qty, order_inventory r) \<in> snd ` lot_static ` set (lots T')
        else closed_of T' fid + unmatched_of T' fid = closed_of T fid + unmatched_of T fid + qty)
     \<and> (\<forall>k. held T' k + (if o_Side r = Sell \<and> order_inventory r = k then qty else 0) + unmatched_total T k
        = held T k + (if o_Side r = Buy \<and> order_inventory r = k then qty else 0) + unmatched_total T' k)"

lemma Side_distinct [simp]: "Buy \<noteq> Sell" "Sell \<noteq> Buy"
  by (simp_all add: Buy_def Sell_def)

lemma closes_static: "closes fid k a T T' \<Longrightarrow> lot_static ` set (lots T') = lot_static ` set (lots T)"
proof -
  assume "closes fid k a T T'"
  then have "map lot_static (lots T') = map lot_static (lots T)" by (simp add: closes_def)
  then have "set (map lot_static (lots T')) = set (map lot_static (lots T))" by (rule arg_cong)
  then show ?thesis by simp
qed

lemma closes_opened: "closes fid k a T T' \<Longrightarrow> lo_OpenedByFillID ` set (lots T') = lo_OpenedByFillID ` set (lots T)"
proof -
  assume "closes fid k a T T'"
  then have "(\<lambda>x. fst (snd x)) ` lot_static ` set (lots T') = (\<lambda>x. fst (snd x)) ` lot_static ` set (lots T)"
    by (simp add: closes_static)
  then show ?thesis by (simp add: image_image lot_static_def)
qed

lemma closure_loop_closes:
  assumes "forS (recordClosure price ts fid) cs db = (Inr u, db')" and "lots_inv (db_work db)"
    and "\<forall>c\<in>set cs. \<exists>l\<in>set (lots (db_work db)). lo_ID l = c_LotID c \<and> lot_inventory l = k"
  shows "closes fid k (\<Sum>c\<leftarrow>cs. c_Qty c) (db_work db) (db_work db') \<and> seq_fills (db_seq db') = seq_fills (db_seq db)"
  using assms
proof (induction cs arbitrary: db)
  case Nil
  then show ?case by (simp add: closes_refl)
next
  case (Cons c cs)
  from Cons.prems(1) obtain db1 where 1: "recordClosure price ts fid c db = (Inr (), db1)"
    and 2: "forS (recordClosure price ts fid) cs db1 = (Inr u, db')" by auto
  from recordClosure_effect [OF 1] obtain row where row: "db_work db1 = (db_work db)\<lparr>lot_closures := lot_closures (db_work db) @ [row],
       lots := update_where (\<lambda>l. lo_ID l = cl_LotID row) (decrement_lot (cl_Qty row) ts) (lots (db_work db))\<rparr>"
     "cl_LotID row = c_LotID c" "cl_SellFillID row = fid" "cl_Qty row = c_Qty c"
     "\<forall>l\<in>set (lots (db_work db)). lo_ID l = cl_LotID row \<longrightarrow> lot_checks (decrement_lot (cl_Qty row) ts l)"
     "seq_fills (db_seq db1) = seq_fills (db_seq db)"
    by metis
  from Cons.prems(3) obtain l where l: "l \<in> set (lots (db_work db))" "lo_ID l = cl_LotID row" "lot_inventory l = k"
    using row(2) by auto
  have step: "closes fid k (c_Qty c) (db_work db) (db_work db1)"
    using closure_closes [OF row(1) _ l(1,2) row(5)] Cons.prems(2) l(3) row(3,4) by (simp add: lots_inv_def)
  then have static: "lot_static ` set (lots (db_work db1)) = lot_static ` set (lots (db_work db))"
    and inv: "lots_inv (db_work db1)" using Cons.prems(2) closes_static by (blast, simp add: closes_def)
  have "\<forall>c\<in>set cs. \<exists>l\<in>set (lots (db_work db1)). lo_ID l = c_LotID c \<and> lot_inventory l = k"
  proof
    fix c assume "c \<in> set cs"
    with Cons.prems(3) obtain l where "l \<in> set (lots (db_work db))" "lo_ID l = c_LotID c" "lot_inventory l = k" by auto
    moreover have "lot_static l \<in> lot_static ` set (lots (db_work db1))" unfolding static using calculation(1) by (rule imageI)
    then obtain l' where "l' \<in> set (lots (db_work db1))" "lot_static l' = lot_static l"
      by (elim imageE) simp
    ultimately show "\<exists>l\<in>set (lots (db_work db1)). lo_ID l = c_LotID c \<and> lot_inventory l = k"
      by (auto simp: lot_static_def)
  qed
  with Cons.IH [OF 2 inv] step row(6) show ?case
    by (auto intro: closes_trans)
qed

lemma InsertLot_Inr:
  assumes "exec (q_InsertLot lid botID venue base quote qty cost fill ts) db = (Inr u, db')"
  shows "\<exists>l. db_work db' = (db_work db)\<lparr>lots := lots (db_work db) @ [l]\<rparr> \<and> lo_ID l = lid \<and> lo_Qty l = qty
    \<and> lo_RemainingQty l = qty \<and> lot_inventory l = (botID, venue, base, quote) \<and> lo_OpenedByFillID l = fill
    \<and> lot_checks l \<and> lid \<notin> lot_ids (db_work db) \<and> seq_fills (db_seq db') = seq_fills (db_seq db)"
  using assms
  by (auto simp: exec_Inr_iff q_InsertLot_def set_work_def Let_def lot_inventory_def lot_ids_def list_ex_iff
      split: if_splits)

lemma InsertUnmatchedSell_Inr:
  assumes "exec (q_InsertUnmatchedSell fill botID venue base quote qty ts) db = (Inr u, db')"
  shows "\<exists>x. db_work db' = (db_work db)\<lparr>unmatched_sells := unmatched_sells (db_work db) @ [x]\<rparr>
    \<and> un_SellFillID x = fill \<and> un_Qty x = qty \<and> unmatched_inventory x = (botID, venue, base, quote)
    \<and> seq_fills (db_seq db') = seq_fills (db_seq db)"
  using assms
  by (auto simp: exec_Inr_iff q_InsertUnmatchedSell_def set_work_def Let_def unmatched_inventory_def
      split: if_splits)

lemma insertOutboxJSON_Inr:
  assumes "insertOutboxJSON subject p db = (Inr u, db')"
  shows "\<exists>x. db_work db' = (db_work db)\<lparr>outbox := outbox (db_work db) @ [x]\<rparr> \<and> ob_Subject x = subject
    \<and> ob_Payload x = p \<and> ob_PublishedAt x = None \<and> seq_fills (db_seq db') = seq_fills (db_seq db)"
  using assms
  by (auto simp: insertOutboxJSON_def exec_Inr_iff q_InsertOutbox_def set_work_def Let_def split: if_splits)

lemma openLot_posts:
  assumes "openLot s r ev qty fid db = (Inr out, db')" and "lots_inv (db_work db)" and "o_Side r = Buy"
  shows "posts r qty fid (db_work db) (db_work db') \<and> order_tables (db_work db') = order_tables (db_work db)
    \<and> seq_fills (db_seq db') = seq_fills (db_seq db)"
proof -
  let ?T = "db_work db" and ?T' = "db_work db'"
  from assms(1) obtain u where
    "exec (q_InsertLot (newID s) (o_BotID r) (o_Venue r) (o_Base r) (o_Quote r) qty (ev_FillPrice ev) fid (ev_At ev)) db = (Inr u, db')"
    by (auto simp: openLot_def)
  from InsertLot_Inr [OF this] obtain l where l: "?T' = ?T\<lparr>lots := lots ?T @ [l]\<rparr>" "lo_ID l = newID s" "lo_Qty l = qty"
    "lo_RemainingQty l = qty" "lot_inventory l = order_inventory r" "lo_OpenedByFillID l = fid" "lot_checks l"
    "newID s \<notin> lot_ids ?T" "seq_fills (db_seq db') = seq_fills (db_seq db)"
    by (auto simp: order_inventory_def)
  have "cl_LotID c \<noteq> newID s" if "c \<in> set (lot_closures ?T)" for c
    using that l(8) assms(2) by (auto simp: lots_inv_def)
  then have "closed_lot ?T (newID s) = 0"
    unfolding closed_lot_def by (intro sum_list_if_none)
  with assms(2) l have "lots_inv ?T'"
    by (auto simp: lots_inv_def lot_ids_def closed_lot_def)
  with assms(3) l show ?thesis
    by (auto simp: posts_def order_tables_def closed_of_def unmatched_of_def unmatched_total_def held_def lot_static_def)
qed

lemma recordUnmatched_effect:
  assumes "recordUnmatched r ev qty fid db = (Inr u, db')"
  shows "\<exists>x y. db_work db' = (db_work db)\<lparr>unmatched_sells := unmatched_sells (db_work db) @ [x], outbox := outbox (db_work db) @ [y]\<rparr>
    \<and> un_SellFillID x = fid \<and> un_Qty x = qty \<and> unmatched_inventory x = order_inventory r
    \<and> seq_fills (db_seq db') = seq_fills (db_seq db)"
proof -
  from assms obtain db1 p v where 1: "exec (q_InsertUnmatchedSell fid (o_BotID r) (o_Venue r)
      (o_Base r) (o_Quote r) qty (ev_At ev)) db = (Inr v, db1)"
    and 2: "insertOutboxJSON subjectUnmatchedSell p db1 = (Inr u, db')"
    by (auto simp: recordUnmatched_def)
  from InsertUnmatchedSell_Inr [OF 1] obtain x where x:
    "db_work db1 = (db_work db)\<lparr>unmatched_sells := unmatched_sells (db_work db) @ [x]\<rparr>"
    "un_SellFillID x = fid" "un_Qty x = qty" "unmatched_inventory x = order_inventory r"
    "seq_fills (db_seq db1) = seq_fills (db_seq db)" by (auto simp: order_inventory_def)
  from insertOutboxJSON_Inr [OF 2] obtain y where y:
    "db_work db' = (db_work db1)\<lparr>outbox := outbox (db_work db1) @ [y]\<rparr>"
    "seq_fills (db_seq db') = seq_fills (db_seq db1)" by blast
  show ?thesis by (intro exI [of _ x] exI [of _ y]) (simp add: x y)
qed

lemma ListOpenLots_Inr:
  assumes "exec (q_ListOpenLotsForUpdate botID venue base quote) db = (Inr rows, db')"
  shows "rows = sort_key (\<lambda>l. (lo_OpenedAt l, lo_ID l)) (filter (\<lambda>l. lot_inventory l = (botID, venue, base, quote)
       \<and> lo_Status l = ''open'') (lots (db_work db)))
    \<and> db_work db' = db_work db \<and> db_seq db' = db_seq db"
  using assms by (auto simp: exec_Inr_iff q_ListOpenLotsForUpdate_def in_inventory_def lot_inventory_def
    intro: arg_cong2 [where f = sort_key] filter_cong)

lemma lotOfRow_simps [simp]: "l_ID (lotOfRow l) = lo_ID l" "l_RemainingQty (lotOfRow l) = lo_RemainingQty l"
  "l_OpenedAt (lotOfRow l) = lo_OpenedAt l"
  by (simp_all add: lotOfRow_def)

context lot_selector
begin

lemma closeLots_posts:
  assumes "closeLots s r ev qty fid db = (Inr out, db')" and "selector s = Select" and "0 < qty"
    and "lots_inv (db_work db)" and "o_Side r = Sell"
  shows "posts r qty fid (db_work db) (db_work db') \<and> order_tables (db_work db') = order_tables (db_work db)
    \<and> seq_fills (db_seq db') = seq_fills (db_seq db)"
proof -
  from assms(1) obtain rows db1 where 1: "exec (q_ListOpenLotsForUpdate (o_BotID r) (o_Venue r)
      (o_Base r) (o_Quote r)) db = (Inr rows, db1)"
    and rest: "bindS (forS (recordClosure (ev_FillPrice ev) (ev_At ev) fid) (Closures (Select (map lotOfRow rows) qty))) (\<lambda>_.
    if \<not> IsPositive (Unmatched (Select (map lotOfRow rows) qty)) then returnS \<lparr>UnmatchedQty = 0\<rparr>
    else bindS (recordUnmatched r ev (Unmatched (Select (map lotOfRow rows) qty)) fid)
      (\<lambda>_. returnS \<lparr>UnmatchedQty = Unmatched (Select (map lotOfRow rows) qty)\<rparr>)) db1 = (Inr out, db')"
    unfolding closeLots_def Let_def assms(2) by auto
  define a where "a = Select (map lotOfRow rows) qty"
  from rest [folded a_def] obtain db2 where 2: "forS (recordClosure (ev_FillPrice ev) (ev_At ev) fid) (Closures a) db1 = (Inr (), db2)"
    and 3: "(if \<not> IsPositive (Unmatched a) then returnS \<lparr>UnmatchedQty = 0\<rparr>
    else bindS (recordUnmatched r ev (Unmatched a) fid) (\<lambda>_. returnS \<lparr>UnmatchedQty = Unmatched a\<rparr>)) db2 = (Inr out, db')"
    unfolding bindS_Inr_iff by auto
  note list = ListOpenLots_Inr [OF 1]
  have "\<forall>c\<in>set (Closures a). \<exists>l\<in>set (lots (db_work db1)). lo_ID l = c_LotID c \<and> lot_inventory l = order_inventory r"
    using closure_lot [OF assms(3), of _ "map lotOfRow rows"] list by (fastforce simp: a_def order_inventory_def)
  then have closes: "closes fid (order_inventory r) (total_closed a) (db_work db) (db_work db2)"
    and seq2: "seq_fills (db_seq db2) = seq_fills (db_seq db)"
    using closure_loop_closes [OF 2] list assms(4) by (simp_all add: total_closed_def)
  have split: "total_closed a + Unmatched a = qty" "0 \<le> Unmatched a"
    using conserve [OF assms(3)] unmatched_nonneg [OF assms(3)] by (simp_all add: a_def)
  have static: "lot_static ` set (lots (db_work db2)) = lot_static ` set (lots (db_work db))"
    using closes by (rule closes_static)
  have opened: "lo_OpenedByFillID ` set (lots (db_work db2)) = lo_OpenedByFillID ` set (lots (db_work db))"
    using closes by (rule closes_opened)
  show ?thesis
  proof (cases "0 < Unmatched a")
    case False
    with split have u: "Unmatched a = 0" and t: "total_closed a = qty" by auto
    with 3 have "db' = db2" by auto
    with closes static opened assms(4,5) seq2 t show ?thesis
      by (auto simp: posts_def order_tables_def closes_def unmatched_of_def unmatched_total_def simp del: split_paired_All)
  next
    case True
    with 3 have "recordUnmatched r ev (Unmatched a) fid db2 = (Inr (), db')" by auto
    from recordUnmatched_effect [OF this] obtain x y where
      x: "db_work db' = (db_work db2)\<lparr>unmatched_sells := unmatched_sells (db_work db2) @ [x], outbox := outbox (db_work db2) @ [y]\<rparr>"
      "un_SellFillID x = fid" "un_Qty x = Unmatched a" "unmatched_inventory x = order_inventory r"
      "seq_fills (db_seq db') = seq_fills (db_seq db2)" by blast
    then have same: "lots_inv (db_work db') = lots_inv (db_work db2)" "closed_of (db_work db') = closed_of (db_work db2)"
      "held (db_work db') = held (db_work db2)"
      "unmatched_of (db_work db') f = unmatched_of (db_work db2) f + (if fid = f then Unmatched a else 0)"
      "unmatched_total (db_work db') k = unmatched_total (db_work db2) k + (if order_inventory r = k then Unmatched a else 0)" for f k
      by (auto simp: lots_inv_def closed_lot_def lot_ids_def closed_of_def held_def unmatched_of_def unmatched_total_def fun_eq_iff)
    have same2: "unmatched_of (db_work db2) = unmatched_of (db_work db)" "unmatched_total (db_work db2) = unmatched_total (db_work db)"
      using closes by (simp_all add: closes_def unmatched_of_def unmatched_total_def fun_eq_iff)
    have tabs: "order_tables (db_work db') = order_tables (db_work db2)" "lots (db_work db') = lots (db_work db2)"
      "lot_closures (db_work db') = lot_closures (db_work db2)"
      "un_SellFillID ` set (unmatched_sells (db_work db')) = insert fid (un_SellFillID ` set (unmatched_sells (db_work db2)))"
      using x(1,2) by (simp_all add: order_tables_def)
    have "posts r qty fid (db_work db) (db_work db')"
      unfolding posts_def tabs same same2 static opened using closes assms(4,5) split(1)
      by (simp add: closes_def subset_insertI del: split_paired_All)
    moreover have "order_tables (db_work db2) = order_tables (db_work db)"
      using closes by (simp add: closes_def order_tables_def)
    ultimately show ?thesis using x seq2 tabs(1) by simp
  qed
qed


lemma postLedgerFill_posts:
  assumes "postLedgerFill s r ev qty fid db = (Inr out, db')" and "selector s = Select"
    and "lots_inv (db_work db)"
  shows "posts r qty fid (db_work db) (db_work db') \<and> order_tables (db_work db') = order_tables (db_work db)
    \<and> seq_fills (db_seq db') = seq_fills (db_seq db)"
proof -
  have q: "0 < qty" using assms(1) by (auto simp: postLedgerFill_def split: if_splits)
  from assms(1) obtain u db1 where
    1: "exec (q_LockInventory (inventoryLockKey s [o_BotID r, o_Venue r, o_Base r, o_Quote r])) db = (Inr u, db1)"
    and 2: "(if o_Side r = Buy then openLot s r ev qty fid
       else if o_Side r = Sell then closeLots s r ev qty fid
       else failS (EText (''postgres: post ledger fill: unsupported side '' @ fmt_q (o_Side r)))) db1 = (Inr out, db')"
    by (auto simp: postLedgerFill_def split: if_splits)
  from 1 have w: "db_work db1 = db_work db" "db_seq db1 = db_seq db"
    by (auto simp: exec_Inr_iff q_LockInventory_def)
  consider "o_Side r = Buy" "openLot s r ev qty fid db1 = (Inr out, db')"
    | "o_Side r = Sell" "closeLots s r ev qty fid db1 = (Inr out, db')"
    using 2 by (auto split: if_splits)
  then show ?thesis
  proof cases
    case 1
    then show ?thesis using openLot_posts [OF 1(2)] assms(3) w by simp
  next
    case 2
    then show ?thesis using closeLots_posts [OF 2(2) assms(2) q] assms(3) w by simp
  qed
qed

end

subsection \<open>Applying a decision\<close>

lemma InsertTransition_Inr:
  assumes "exec (q_InsertTransition cid from_st to_st filled source reason ts) db = (Inr x, db')"
  shows "\<exists>t. db_work db' = (db_work db)\<lparr>order_transitions := order_transitions (db_work db) @ [t]\<rparr>
    \<and> tr_ClientOrderID t = cid \<and> tr_FromStatus t = from_st \<and> tr_ToStatus t = to_st \<and> tr_FilledQty t = filled
    \<and> tr_Seq t = max_seq cid (db_work db) + 1 \<and> tr_ID t = fst x
    \<and> seq_fills (db_seq db') = seq_fills (db_seq db)"
  using assms by (auto simp: exec_Inr_iff q_InsertTransition_def Let_def set_work_def max_seq_def split: if_splits)

lemma InsertFill_Some:
  assumes "exec (q_InsertFill p) db = (Inr (Some fid), db')"
  shows "\<exists>f. db_work db' = (db_work db)\<lparr>fills := fills (db_work db) @ [f]\<rparr>
    \<and> fl_ID f = fid \<and> fl_ClientOrderID f = if_ClientOrderID p \<and> fl_Qty f = if_Qty p
    \<and> fid = seq_fills (db_seq db) \<and> seq_fills (db_seq db') = fid + 1"
  using assms by (auto simp: exec_Inr_iff q_InsertFill_def Let_def set_work_def split: if_splits)

lemma InsertFill_None:
  assumes "exec (q_InsertFill p) db = (Inr None, db')"
  shows "db_work db' = db_work db \<and> seq_fills (db_seq db') = seq_fills (db_seq db) + 1"
  using assms by (auto simp: exec_Inr_iff q_InsertFill_def Let_def set_work_def split: if_splits)

lemma insertFill_effect:
  assumes "insertFill p db = (Inr (fid, conflict), db')"
  shows "\<exists>f. db_work db' = (db_work db)\<lparr>fills := fills (db_work db) @ [f]\<rparr>
    \<and> fl_ID f = fid \<and> fl_ClientOrderID f = if_ClientOrderID p \<and> fl_Qty f = if_Qty p
    \<and> seq_fills (db_seq db) \<le> fid \<and> seq_fills (db_seq db') = fid + 1"
proof -
  from assms obtain r db1 where 1: "exec (q_InsertFill p) db = (Inr r, db1)"
    and 2: "(case r of Some fillID \<Rightarrow> returnS (fillID, False)
      | None \<Rightarrow> bindS (exec (q_InsertFill (p\<lparr>if_VenueFillID := None, if_Fee := None, if_FeeCurrency := None\<rparr>)))
        (\<lambda>r2. case r2 of Some fillID \<Rightarrow> returnS (fillID, True)
           | None \<Rightarrow> failS (EText ''no rows in result set''))) db1 = (Inr (fid, conflict), db')"
    unfolding insertFill_def by auto
  show ?thesis
  proof (cases r)
    case (Some i)
    with 1 2 show ?thesis using InsertFill_Some [of p db i db1] by auto
  next
    case None
    with 2 obtain r2 where "exec (q_InsertFill (p\<lparr>if_VenueFillID := None, if_Fee := None, if_FeeCurrency := None\<rparr>)) db1
        = (Inr (Some fid), db')"
      by (auto split: option.splits)
    from InsertFill_Some [OF this] InsertFill_None [of p db db1] 1 None show ?thesis by auto
  qed
qed

lemma ApplyOrderUpdate_Inr:
  assumes "exec (q_ApplyOrderUpdate cid status filled avg vid reason) db = (Inr u, db')"
    and "find_order cid (db_work db) = Some r"
  shows "\<exists>g. db_work db' = (db_work db)\<lparr>orders := update_where (\<lambda>w. o_ClientOrderID w = cid) g (orders (db_work db))\<rparr>
    \<and> (\<forall>w. o_ClientOrderID (g w) = o_ClientOrderID w \<and> o_Side (g w) = o_Side w \<and> order_inventory (g w) = order_inventory w
        \<and> row_terms (g w) = row_terms w \<and> o_CancelRequestedAt (g w) = o_CancelRequestedAt w
        \<and> o_Status (g w) = status \<and> o_FilledQty (g w) = filled
        \<and> o_VenueOrderID (g w) = coalesce (o_VenueOrderID w) vid)
    \<and> status \<in> set order_statuses \<and> seq_fills (db_seq db') = seq_fills (db_seq db)"
  using assms
  by (auto simp: exec_Inr_iff q_ApplyOrderUpdate_def set_work_def order_inventory_def row_terms_def split: if_splits)

lemma insertEventOutbox_effect:
  assumes "insertEventOutbox r source ev d newFilled db = (Inr u, db')"
  shows "\<exists>xs. db_work db' = (db_work db)\<lparr>outbox := outbox (db_work db) @ xs\<rparr>
    \<and> map ob_Subject xs = (if 0 < d_FillDelta d then [SubjectOrderUpdated, SubjectOrderFilled] else [SubjectOrderUpdated])
    \<and> seq_fills (db_seq db') = seq_fills (db_seq db)"
proof -
  from assms obtain p db1 v where 1: "insertOutboxJSON SubjectOrderUpdated p db = (Inr v, db1)"
    and 2: "(0 < d_FillDelta d \<and> (\<exists>p2. insertOutboxJSON SubjectOrderFilled p2 db1 = (Inr u, db'))) \<or> (\<not> 0 < d_FillDelta d \<and> db' = db1)"
    unfolding insertEventOutbox_def by (auto split: if_splits)
  from insertOutboxJSON_Inr [OF 1] obtain x where x: "db_work db1 = (db_work db)\<lparr>outbox := outbox (db_work db) @ [x]\<rparr>"
    "ob_Subject x = SubjectOrderUpdated" "seq_fills (db_seq db1) = seq_fills (db_seq db)" by blast
  show ?thesis
  proof (cases "0 < d_FillDelta d")
    case True
    with 2 obtain p2 where "insertOutboxJSON SubjectOrderFilled p2 db1 = (Inr u, db')" by auto
    from insertOutboxJSON_Inr [OF this] obtain y where "db_work db' = (db_work db1)\<lparr>outbox := outbox (db_work db1) @ [y]\<rparr>"
      "ob_Subject y = SubjectOrderFilled" "seq_fills (db_seq db') = seq_fills (db_seq db1)" by blast
    with x True show ?thesis by (intro exI [of _ "[x, y]"]) simp
  next
    case False
    with 2 x show ?thesis by (intro exI [of _ "[x]"]) simp
  qed
qed

end
