(* ===== verification/Store_Safety.thy ===== *)
theory Store_Safety
  imports Store_Invariant
begin

section \<open>Applying events preserves the invariants\<close>


text \<open>
  What persisting a decision does to the tables: one transition, at most one fill and its posting,
  and the order row moved to the new state.
\<close>

definition applies :: "OrderRow \<Rightarrow> Decision \<Rightarrow> string \<Rightarrow> int \<Rightarrow> int \<Rightarrow> Tables \<Rightarrow> Tables \<Rightarrow> bool" where
  "applies r d v n n' T T' \<longleftrightarrow> (\<exists>t g fs.
     order_transitions T' = order_transitions T @ [t] \<and> tr_ClientOrderID t = o_ClientOrderID r
     \<and> tr_FromStatus t = o_Status r \<and> tr_ToStatus t = d_To d \<and> tr_FilledQty t = o_FilledQty r + d_FillDelta d
     \<and> tr_Seq t = max_seq (o_ClientOrderID r) T + 1
     \<and> orders T' = update_where (\<lambda>w. o_ClientOrderID w = o_ClientOrderID r) g (orders T)
     \<and> (\<forall>w. o_ClientOrderID (g w) = o_ClientOrderID w \<and> o_Side (g w) = o_Side w
          \<and> order_inventory (g w) = order_inventory w
          \<and> row_terms (g w) = row_terms w \<and> o_CancelRequestedAt (g w) = o_CancelRequestedAt w
          \<and> o_VenueOrderID (g w) = coalesce (o_VenueOrderID w) (nullString v)
          \<and> row_state (g w) = \<lparr>st_Status = d_To d, st_FilledQty = o_FilledQty r + d_FillDelta d\<rparr>)
     \<and> fills T' = fills T @ fs \<and> n \<le> n'
     \<and> (if 0 < d_FillDelta d then \<exists>f. fs = [f] \<and> fl_Qty f = d_FillDelta d
          \<and> fl_ClientOrderID f = o_ClientOrderID r \<and> n \<le> fl_ID f \<and> fl_ID f < n' \<and> posts r (d_FillDelta d) (fl_ID f) T T'
        else fs = [] \<and> ledger_tables T' = ledger_tables T))"

lemma posts_cong:
  assumes "ledger_tables T1 = ledger_tables T2" "ledger_tables T1' = ledger_tables T2'"
  shows "posts r q fid T1 T1' = posts r q fid T2 T2'"
  using assms
  by (simp add: posts_def ledger_tables_def lots_inv_def lot_ids_def closed_lot_def closed_of_def unmatched_of_def
      held_def unmatched_total_def)

lemma lots_inv_cong: "ledger_tables T1 = ledger_tables T2 \<Longrightarrow> lots_inv T1 = lots_inv T2"
  by (simp add: ledger_tables_def lots_inv_def lot_ids_def closed_lot_def)

context lot_selector
begin

lemma persistFill_effect:
  assumes "persistFill s r ev d trID db = (Inr (ev', out, conflict), db')" and "selector s = Select"
    and "lots_inv (db_work db)"
  shows "orders (db_work db') = orders (db_work db) \<and> order_transitions (db_work db') = order_transitions (db_work db)
    \<and> seq_fills (db_seq db) \<le> seq_fills (db_seq db')
    \<and> rf_VenueOrderID (ev_Ref ev') = rf_VenueOrderID (ev_Ref ev)
    \<and> (\<exists>fs. fills (db_work db') = fills (db_work db) @ fs
      \<and> (if 0 < d_FillDelta d then \<exists>f. fs = [f] \<and> fl_Qty f = d_FillDelta d
          \<and> fl_ClientOrderID f = o_ClientOrderID r \<and> seq_fills (db_seq db) \<le> fl_ID f
          \<and> fl_ID f < seq_fills (db_seq db') \<and> posts r (d_FillDelta d) (fl_ID f) (db_work db) (db_work db')
        else fs = [] \<and> ledger_tables (db_work db') = ledger_tables (db_work db)))"
proof (cases "0 < d_FillDelta d")
  case False
  with assms(1) show ?thesis by (auto simp: persistFill_def)
next
  case True
  with assms(1) obtain fid db1 where
    1: "insertFill (fillParams r ev d trID) db = (Inr (fid, conflict), db1)"
    and 2: "postLedgerFill s r ev' (d_FillDelta d) fid db1 = (Inr out, db')"
    and ev': "ev' = (if conflict then ev\<lparr>ev_VenueFillID := [], ev_Fee := 0, ev_FeeCurrency := []\<rparr> else ev)"
    by (auto simp: persistFill_def Let_def split: prod.splits)
  from insertFill_effect [OF 1] obtain f where f: "db_work db1 = (db_work db)\<lparr>fills := fills (db_work db) @ [f]\<rparr>"
    "fl_ID f = fid" "fl_ClientOrderID f = o_ClientOrderID r" "fl_Qty f = d_FillDelta d"
    "seq_fills (db_seq db) \<le> fid" "seq_fills (db_seq db1) = fid + 1"
    by (auto simp: fillParams_def)
  have l: "ledger_tables (db_work db1) = ledger_tables (db_work db)" by (simp add: f(1) ledger_tables_def)
  have p: "posts r (d_FillDelta d) fid (db_work db1) (db_work db')"
    "order_tables (db_work db') = order_tables (db_work db1)" "seq_fills (db_seq db') = seq_fills (db_seq db1)"
    using postLedgerFill_posts [OF 2 assms(2)] assms(3) lots_inv_cong [OF l] by auto
  have "posts r (d_FillDelta d) fid (db_work db) (db_work db')"
    using p(1) posts_cong [OF l] by blast
  with p f True ev' show ?thesis by (auto simp: order_tables_def)
qed

lemma persistDecision_applies:
  assumes "persistDecision s r source ev d db = (Inr res, db')" and "selector s = Select"
    and "lots_inv (db_work db)" and "find_order (o_ClientOrderID r) (db_work db) = Some r"
  shows "applies r d (rf_VenueOrderID (ev_Ref ev)) (seq_fills (db_seq db)) (seq_fills (db_seq db')) (db_work db) (db_work db')
    \<and> d_To d \<in> set order_statuses \<and> ar_Decision res = d"
proof -
  let ?cid = "o_ClientOrderID r" and ?nf = "o_FilledQty r + d_FillDelta d"
  from assms(1) obtain x db1 ev' out conflict db2 u db3 v where
    1: "exec (q_InsertTransition ?cid (o_Status r) (d_To d) ?nf source (nullString (ev_Reason ev)) (ev_At ev)) db = (Inr x, db1)"
    and 2: "persistFill s r ev d (fst x) db1 = (Inr (ev', out, conflict), db2)"
    and 3: "exec (q_ApplyOrderUpdate ?cid (d_To d) ?nf (avgFillPrice s r d ev' ?nf)
        (nullString (rf_VenueOrderID (ev_Ref ev'))) (nullString (ev_Reason ev'))) db2 = (Inr u, db3)"
    and 4: "insertEventOutbox r source ev' d ?nf db3 = (Inr v, db')"
    and res: "res = \<lparr>ar_Decision = d, ar_Outcome = out, ar_FillConflict = conflict\<rparr>"
    unfolding persistDecision_def Let_def by (auto split: prod.splits)
  from InsertTransition_Inr [OF 1] obtain t where
    t: "db_work db1 = (db_work db)\<lparr>order_transitions := order_transitions (db_work db) @ [t]\<rparr>"
    "tr_ClientOrderID t = ?cid" "tr_FromStatus t = o_Status r" "tr_ToStatus t = d_To d" "tr_FilledQty t = ?nf"
    "tr_Seq t = max_seq ?cid (db_work db) + 1" "seq_fills (db_seq db1) = seq_fills (db_seq db)" by blast
  have l1: "ledger_tables (db_work db1) = ledger_tables (db_work db)" by (simp add: t(1) ledger_tables_def)
  have "lots_inv (db_work db1)" using assms(3) lots_inv_cong [OF l1] by simp
  note fill = persistFill_effect [OF 2 assms(2) this]
  have "find_order ?cid (db_work db2) = Some r" using assms(4) fill t(1) by (simp add: find_order_def)
  from ApplyOrderUpdate_Inr [OF 3 this] obtain g where
    g: "db_work db3 = (db_work db2)\<lparr>orders := update_where (\<lambda>w. o_ClientOrderID w = ?cid) g (orders (db_work db2))\<rparr>"
    "\<forall>w. o_ClientOrderID (g w) = o_ClientOrderID w \<and> o_Side (g w) = o_Side w \<and> order_inventory (g w) = order_inventory w
        \<and> row_terms (g w) = row_terms w \<and> o_CancelRequestedAt (g w) = o_CancelRequestedAt w
        \<and> o_Status (g w) = d_To d \<and> o_FilledQty (g w) = ?nf
        \<and> o_VenueOrderID (g w) = coalesce (o_VenueOrderID w) (nullString (rf_VenueOrderID (ev_Ref ev')))"
    "d_To d \<in> set order_statuses" "seq_fills (db_seq db3) = seq_fills (db_seq db2)" by blast
  from insertEventOutbox_effect [OF 4] obtain xs where
    b: "db_work db' = (db_work db3)\<lparr>outbox := outbox (db_work db3) @ xs\<rparr>" "seq_fills (db_seq db') = seq_fills (db_seq db3)"
    by blast
  have l3: "ledger_tables (db_work db') = ledger_tables (db_work db2)" by (simp add: b(1) g(1) ledger_tables_def)
  have "posts r q fid (db_work db) (db_work db') = posts r q fid (db_work db1) (db_work db2)" for q fid
    using posts_cong [OF l1 [symmetric] l3] .
  with fill t g b l1 l3 res show ?thesis
    unfolding applies_def by (intro conjI exI [of _ t] exI [of _ g]) (auto simp: row_state_def)
qed

end

subsection \<open>The invariants are preserved\<close>

lemma replay_append: "replay st (as @ bs) = Option.bind (replay st as) (\<lambda>s. replay s bs)"
  by (induction as arbitrary: st) auto

lemma order_ids_update_where:
  assumes "\<And>w. o_ClientOrderID (g w) = o_ClientOrderID w" "orders T' = update_where P g (orders T)"
  shows "order_ids T' = order_ids T" and "map o_ClientOrderID (orders T') = map o_ClientOrderID (orders T)"
proof -
  show m: "map o_ClientOrderID (orders T') = map o_ClientOrderID (orders T)"
    using assms by (simp add: map_update_where)
  then show "order_ids T' = order_ids T" unfolding order_ids_def by (metis list.set_map)
qed

text \<open>The next sequence number is one past the number of transitions.\<close>

lemma max_seq_length:
  assumes "map tr_Seq (transitions_of T cid) = map int [1..<Suc (length (transitions_of T cid))]"
  shows "max_seq cid T = int (length (transitions_of T cid))"
proof -
  let ?n = "length (transitions_of T cid)"
  have "max_seq cid T = fold max (map int [1..<Suc ?n]) 0"
    unfolding max_seq_def using assms by (simp add: transitions_of_def)
  also have "\<dots> = int ?n"
    by (rule fold_max_upt)
  finally show ?thesis .
qed



lemma find_order_mem:
  assumes "orders_inv T" "find_order cid T = Some r"
  shows "r \<in> set (orders T)" "o_ClientOrderID r = cid"
  using assms by (auto simp: find_order_def orders_inv_def find_key_Some_iff)

lemma applies_orders_inv:
  assumes "applies r d v n n' T T'" "orders_inv T" "known_status (d_To d)"
  shows "orders_inv T'" "order_ids T' = order_ids T"
proof -
  from assms(1) obtain g where g: "orders T' = update_where (\<lambda>w. o_ClientOrderID w = o_ClientOrderID r) g (orders T)"
    "\<forall>w. o_ClientOrderID (g w) = o_ClientOrderID w \<and> o_Side (g w) = o_Side w
      \<and> row_state (g w) = \<lparr>st_Status = d_To d, st_FilledQty = o_FilledQty r + d_FillDelta d\<rparr>"
    unfolding applies_def by blast
  then have s: "o_Status (g w) = d_To d" "o_ClientOrderID (g w) = o_ClientOrderID w" "o_Side (g w) = o_Side w" for w
    by (simp_all add: row_state_def)
  show "order_ids T' = order_ids T" using order_ids_update_where(1) [OF s(2) g(1)] .
  show "orders_inv T'"
    using assms(2,3) order_ids_update_where(2) [OF s(2) g(1)]
    by (auto simp: orders_inv_def g(1) set_update_where s)
qed

lemma applies_trail_inv:
  assumes "applies r d v n n' T T'" "orders_inv T" "trail_inv T" "find_order (o_ClientOrderID r) T = Some r"
    "0 \<le> d_FillDelta d" "known_status (d_To d)"
  shows "trail_inv T'"
proof -
  from assms(1) obtain t g where t: "order_transitions T' = order_transitions T @ [t]"
    "tr_ClientOrderID t = o_ClientOrderID r" "tr_FromStatus t = o_Status r" "tr_ToStatus t = d_To d"
    "tr_FilledQty t = o_FilledQty r + d_FillDelta d" "tr_Seq t = max_seq (o_ClientOrderID r) T + 1"
    and g: "orders T' = update_where (\<lambda>w. o_ClientOrderID w = o_ClientOrderID r) g (orders T)"
    "\<forall>w. o_ClientOrderID (g w) = o_ClientOrderID w
      \<and> row_state (g w) = \<lparr>st_Status = d_To d, st_FilledQty = o_FilledQty r + d_FillDelta d\<rparr>"
    unfolding applies_def by blast
  have r: "r \<in> set (orders T)" using find_order_mem [OF assms(2,4)] by simp
  have tr: "transitions_of T' cid = transitions_of T cid @ (if cid = o_ClientOrderID r then [t] else [])" for cid
    by (auto simp: transitions_of_def t)
  have old: "replay new_state (transitions_of T (o_ClientOrderID w)) = Some (row_state w)"
    "map tr_Seq (transitions_of T (o_ClientOrderID w)) = map int [1..<Suc (length (transitions_of T (o_ClientOrderID w)))]"
    if "w \<in> set (orders T)" for w using assms(3) that by (simp_all add: trail_inv_def)
  have new: "replay new_state (transitions_of T' (o_ClientOrderID r)) = Some \<lparr>st_Status = d_To d, st_FilledQty = o_FilledQty r + d_FillDelta d\<rparr>"
    using old(1) [OF r] t assms(5) by (simp add: tr replay_append row_state_def)
  have sq: "map tr_Seq (transitions_of T' (o_ClientOrderID r)) = map int [1..<Suc (length (transitions_of T' (o_ClientOrderID r)))]"
    using old(2) [OF r] max_seq_length [OF old(2) [OF r]] by (simp add: tr t(6))
  have "replay new_state (transitions_of T' (o_ClientOrderID w)) = Some (row_state w)
      \<and> map tr_Seq (transitions_of T' (o_ClientOrderID w)) = map int [1..<Suc (length (transitions_of T' (o_ClientOrderID w)))]"
    if w: "w \<in> set (orders T')" for w
  proof -
    from w g(1) obtain y where y: "y \<in> set (orders T)" "w = (if o_ClientOrderID y = o_ClientOrderID r then g y else y)"
      by (auto simp: update_where_def)
    show ?thesis
    proof (cases "o_ClientOrderID y = o_ClientOrderID r")
      case True
      with y g(2) new sq show ?thesis by simp
    next
      case False
      with y old [OF y(1)] show ?thesis by (simp add: tr)
    qed
  qed
  moreover have "\<forall>t\<in>set (order_transitions T'). tr_ClientOrderID t \<in> order_ids T'"
    using applies_orders_inv(2) [OF assms(1,2,6)] assms(3) r t(1,2) by (auto simp: trail_inv_def order_ids_def)
  ultimately show ?thesis unfolding trail_inv_def by blast
qed

lemma applies_fills_inv:
  assumes "applies r d v n n' T T'" "orders_inv T" "fills_inv T q" "find_order (o_ClientOrderID r) T = Some r"
    "0 \<le> d_FillDelta d" "known_status (d_To d)" "n = seq_fills q" "n' = seq_fills q'"
  shows "fills_inv T' q'"
proof -
  from assms(1) obtain g fs where g: "orders T' = update_where (\<lambda>w. o_ClientOrderID w = o_ClientOrderID r) g (orders T)"
    "\<forall>w. o_ClientOrderID (g w) = o_ClientOrderID w
      \<and> row_state (g w) = \<lparr>st_Status = d_To d, st_FilledQty = o_FilledQty r + d_FillDelta d\<rparr>"
    and f: "fills T' = fills T @ fs" "n \<le> n'" "if 0 < d_FillDelta d then \<exists>f. fs = [f] \<and> fl_Qty f = d_FillDelta d
          \<and> fl_ClientOrderID f = o_ClientOrderID r \<and> n \<le> fl_ID f \<and> fl_ID f < n' else fs = []"
    unfolding applies_def by (auto split: if_splits)
  have r: "r \<in> set (orders T)" using find_order_mem [OF assms(2,4)] by simp
  have fb: "filled_by T' cid = filled_by T cid + (if cid = o_ClientOrderID r then d_FillDelta d else 0)" for cid
    using f(1,3) assms(5) by (auto simp: filled_by_def split: if_splits)
  have ids: "order_ids T' = order_ids T" by (rule applies_orders_inv(2) [OF assms(1,2,6)])
  have old: "\<forall>f\<in>set (fills T). fl_ClientOrderID f \<in> order_ids T \<and> fl_ID f < n \<and> 0 < fl_Qty f" "distinct (map fl_ID (fills T))"
    "\<forall>w\<in>set (orders T). o_FilledQty w = filled_by T (o_ClientOrderID w)"
    using assms(3,7) by (auto simp: fills_inv_def)
  have "o_FilledQty w = filled_by T' (o_ClientOrderID w)" if "w \<in> set (orders T')" for w
  proof -
    from that g(1) obtain y where y: "y \<in> set (orders T)" "w = (if o_ClientOrderID y = o_ClientOrderID r then g y else y)"
      by (auto simp: update_where_def)
    moreover have "o_FilledQty (g y) = o_FilledQty r + d_FillDelta d" using g(2) by (simp add: row_state_def)
    moreover have "o_FilledQty r = filled_by T (o_ClientOrderID r)" using old(3) r by blast
    ultimately show ?thesis using old(3) g(2) by (auto simp: fb)
  qed
  moreover have "distinct (map fl_ID (fills T'))"
    using f(1,3) old(1,2) by (fastforce split: if_splits)
  moreover have "fl_ClientOrderID x \<in> order_ids T' \<and> fl_ID x < n' \<and> 0 < fl_Qty x" if "x \<in> set (fills T')" for x
  proof (cases "x \<in> set (fills T)")
    case True
    then show ?thesis using old(1) f(2) by (auto simp: ids)
  next
    case False
    then have "x \<in> set fs" using that f(1) by simp
    moreover have "o_ClientOrderID r \<in> order_ids T" using r by (simp add: order_ids_def)
    ultimately show ?thesis using f(3) by (auto simp: ids split: if_splits)
  qed
  ultimately show ?thesis using assms(8) by (simp add: fills_inv_def)
qed

lemma find_order_applies:
  assumes "applies r d v n n' T T'"
  shows "map_option (\<lambda>w. (o_Side w, order_inventory w)) (find_order cid T') =
    map_option (\<lambda>w. (o_Side w, order_inventory w)) (find_order cid T)"
proof -
  from assms obtain g where g: "orders T' = update_where (\<lambda>w. o_ClientOrderID w = o_ClientOrderID r) g (orders T)"
    "\<forall>w. o_ClientOrderID (g w) = o_ClientOrderID w \<and> o_Side (g w) = o_Side w \<and> order_inventory (g w) = order_inventory w"
    unfolding applies_def by blast
  show ?thesis
    unfolding find_order_def g(1) using g(2)
    by (subst find_update_where) (auto simp: option.map_comp comp_def intro!: option.map_cong)
qed

lemma fill_in_alt: "fill_in T side k f \<longleftrightarrow>
    map_option (\<lambda>w. (o_Side w, order_inventory w)) (find_order (fl_ClientOrderID f) T) = Some (side, k)"
  by (auto simp: fill_in_def split: option.splits)

lemma applies_posted_inv:
  assumes "applies r d v n n' T T'" "orders_inv T" "fills_inv T q" "posted_inv T" "find_order (o_ClientOrderID r) T = Some r"
    "0 \<le> d_FillDelta d" "n = seq_fills q"
  shows "posted_inv T'"
proof -
  from assms(1) obtain g fs where g: "orders T' = update_where (\<lambda>w. o_ClientOrderID w = o_ClientOrderID r) g (orders T)"
    "\<forall>w. o_ClientOrderID (g w) = o_ClientOrderID w \<and> o_Side (g w) = o_Side w \<and> order_inventory (g w) = order_inventory w"
    and fs: "fills T' = fills T @ fs" "if 0 < d_FillDelta d then \<exists>f. fs = [f] \<and> fl_Qty f = d_FillDelta d
        \<and> fl_ClientOrderID f = o_ClientOrderID r \<and> n \<le> fl_ID f \<and> fl_ID f < n' \<and> posts r (d_FillDelta d) (fl_ID f) T T'
      else fs = [] \<and> ledger_tables T' = ledger_tables T"
    unfolding applies_def by (auto split: if_splits)
  have rows: "\<exists>y\<in>set (orders T). o_ClientOrderID y = o_ClientOrderID w \<and> o_Side y = o_Side w
      \<and> order_inventory y = order_inventory w" if "w \<in> set (orders T')" for w
    using that g by (auto simp: update_where_def)
  have r: "y = r" if "y \<in> set (orders T)" "o_ClientOrderID y = o_ClientOrderID r" for y
    using that assms(2) find_order_mem(1) [OF assms(2,5)] by (auto simp: orders_inv_def intro: distinct_map_inj)
  have P: "posted T f w" if "f \<in> set (fills T)" "w \<in> set (orders T)" "o_ClientOrderID w = fl_ClientOrderID f" for f w
    using assms(4) that by (simp add: posted_inv_def)
  have ids: "fl_ID f < n" if "f \<in> set (fills T)" for f using assms(3,7) that by (simp add: fills_inv_def)
  have refs: "cl_SellFillID ` set (lot_closures T) \<subseteq> fill_ids T" "un_SellFillID ` set (unmatched_sells T) \<subseteq> fill_ids T"
    "lo_OpenedByFillID ` set (lots T) \<subseteq> fill_ids T"
    using assms(4) by (auto simp: posted_inv_def)
  have eq: "posted T' f w = posted T' f y" if "o_Side y = o_Side w" "order_inventory y = order_inventory w" for f w y
    using that by (simp add: posted_def)
  show ?thesis
  proof (cases "0 < d_FillDelta d")
    case False
    then have "fills T' = fills T" "ledger_tables T' = ledger_tables T" using fs by simp_all
    then have "posted T' = posted T" "fill_ids T' = fill_ids T" "lot_closures T' = lot_closures T"
      "unmatched_sells T' = unmatched_sells T" "lots T' = lots T"
      by (auto simp: posted_def fun_eq_iff ledger_tables_def closed_of_def unmatched_of_def fill_ids_def)
    moreover have "posted T' x w" if "x \<in> set (fills T)" "w \<in> set (orders T')" "o_ClientOrderID w = fl_ClientOrderID x" for x w
      using rows [OF that(2)] P [OF that(1)] eq that(3) calculation(1) by metis
    ultimately show ?thesis
      using refs \<open>fills T' = fills T\<close> unfolding posted_inv_def by (simp add: image_subset_iff)
  next
    case True
    then obtain f where f: "fs = [f]" "fl_Qty f = d_FillDelta d" "fl_ClientOrderID f = o_ClientOrderID r"
      "n \<le> fl_ID f" and p: "posts r (d_FillDelta d) (fl_ID f) T T'" using fs by auto
    have nf: "fl_ID f \<notin> fill_ids T" using ids f(4) unfolding fill_ids_def by fastforce
    have fresh: "closed_of T (fl_ID f) = 0" "unmatched_of T (fl_ID f) = 0"
      unfolding closed_of_def unmatched_of_def
      using refs nf by (auto simp: image_subset_iff intro!: sum_list_if_none)
    have "posted T' x w" if x: "x \<in> set (fills T')" and w: "w \<in> set (orders T')" "o_ClientOrderID w = fl_ClientOrderID x" for x w
    proof -
      from rows [OF w(1)] obtain y where y: "y \<in> set (orders T)" "o_ClientOrderID y = o_ClientOrderID w"
        "o_Side y = o_Side w" "order_inventory y = order_inventory w" by blast
      consider "x \<in> set (fills T)" | "x = f" using x fs(1) f(1) by auto
      then have "posted T' x y"
      proof cases
        case 1
        then have old: "posted T x y" and ne: "fl_ID x \<noteq> fl_ID f" using P y w ids f(4) by force+
        have lk: "\<exists>l'\<in>set (lots T'). lot_static l' = lot_static l" if "l \<in> set (lots T)" for l
          using p that unfolding posts_def by (metis (no_types, lifting) image_iff subsetD imageI)
        have "closed_of T' (fl_ID x) = closed_of T (fl_ID x)" "unmatched_of T' (fl_ID x) = unmatched_of T (fl_ID x)"
          using p ne by (simp_all add: posts_def)
        with old show ?thesis
          unfolding posted_def using lk by (auto simp: lot_static_def split: if_splits) metis
      next
        case 2
        with y w f r have "y = r" by simp
        with 2 p f(2) fresh show ?thesis unfolding posts_def posted_def lot_static_def by (auto split: if_splits)
      qed
      with eq y show ?thesis by metis
    qed
    moreover have "fill_ids T' = insert (fl_ID f) (fill_ids T)" by (simp add: fill_ids_def fs(1) f(1))
    moreover have "cl_SellFillID ` set (lot_closures T') \<subseteq> insert (fl_ID f) (fill_ids T)"
      "un_SellFillID ` set (unmatched_sells T') \<subseteq> insert (fl_ID f) (fill_ids T)"
      "lo_OpenedByFillID ` set (lots T') \<subseteq> insert (fl_ID f) (fill_ids T)"
    proof -
      have "cl_SellFillID ` set (lot_closures T') \<subseteq> insert (fl_ID f) (cl_SellFillID ` set (lot_closures T))"
        "un_SellFillID ` set (unmatched_sells T') \<subseteq> insert (fl_ID f) (un_SellFillID ` set (unmatched_sells T))"
        "lo_OpenedByFillID ` set (lots T') \<subseteq> insert (fl_ID f) (lo_OpenedByFillID ` set (lots T))"
        using p by (simp_all only: posts_def)
      with refs show "cl_SellFillID ` set (lot_closures T') \<subseteq> insert (fl_ID f) (fill_ids T)"
        "un_SellFillID ` set (unmatched_sells T') \<subseteq> insert (fl_ID f) (fill_ids T)"
        "lo_OpenedByFillID ` set (lots T') \<subseteq> insert (fl_ID f) (fill_ids T)" by (meson insert_mono subset_trans)+
    qed
    ultimately show ?thesis
      unfolding posted_inv_def by (simp add: image_subset_iff)
  qed
qed

lemma applies_balance_inv:
  assumes "applies r d v n n' T T'" "orders_inv T" "balance_inv T" "find_order (o_ClientOrderID r) T = Some r"
    "0 \<le> d_FillDelta d"
  shows "balance_inv T'"
proof -
  from assms(1) obtain fs where fs: "fills T' = fills T @ fs" "if 0 < d_FillDelta d then \<exists>f. fs = [f] \<and> fl_Qty f = d_FillDelta d
        \<and> fl_ClientOrderID f = o_ClientOrderID r \<and> n \<le> fl_ID f \<and> fl_ID f < n' \<and> posts r (d_FillDelta d) (fl_ID f) T T'
      else fs = [] \<and> ledger_tables T' = ledger_tables T"
    unfolding applies_def by blast
  have same: "fill_in T' side k = fill_in T side k" for side k
    by (simp add: fun_eq_iff fill_in_alt find_order_applies [OF assms(1)])
  have tr: "traded T' side k = traded T side k + (if o_Side r = side \<and> order_inventory r = k then d_FillDelta d else 0)" for side k
    using fs assms(4,5) by (auto simp: traded_def same fill_in_def split: if_splits)
  have old: "held T k + traded T Sell k = traded T Buy k + unmatched_total T k" for k
    using assms(3) unfolding balance_inv_def by blast
  show ?thesis
  proof (cases "0 < d_FillDelta d")
    case False
    with fs assms(5) have "ledger_tables T' = ledger_tables T" "d_FillDelta d = 0" by auto
    then show ?thesis unfolding balance_inv_def
      using old by (simp add: tr held_def unmatched_total_def ledger_tables_def)
  next
    case True
    with fs(2) obtain fid where "posts r (d_FillDelta d) fid T T'" by auto
    then have "held T' k + (if o_Side r = Sell \<and> order_inventory r = k then d_FillDelta d else 0) + unmatched_total T k
        = held T k + (if o_Side r = Buy \<and> order_inventory r = k then d_FillDelta d else 0) + unmatched_total T' k" for k
      unfolding posts_def by blast
    note new = this
    have "held T' k + traded T' Sell k = traded T' Buy k + unmatched_total T' k" for k
      unfolding tr using old [of k] new [of k] by linarith
    then show ?thesis unfolding balance_inv_def by blast
  qed
qed

lemma applies_store_inv:
  assumes "applies r d v (seq_fills q) (seq_fills q') T T'" "store_inv T q" "find_order (o_ClientOrderID r) T = Some r"
    "0 \<le> d_FillDelta d" "known_status (d_To d)"
  shows "store_inv T' q'"
proof -
  have I: "orders_inv T" "trail_inv T" "fills_inv T q" "lots_inv T" "posted_inv T" "balance_inv T"
    using assms(2) by (simp_all add: store_inv_def)
  have "lots_inv T'"
  proof (cases "0 < d_FillDelta d")
    case True
    with assms(1) obtain fid where "posts r (d_FillDelta d) fid T T'" unfolding applies_def by auto
    then show ?thesis by (simp add: posts_def)
  next
    case False
    with assms(1) have "ledger_tables T' = ledger_tables T" unfolding applies_def by auto
    then show ?thesis using I(4) lots_inv_cong by blast
  qed
  then show ?thesis
    unfolding store_inv_def
    using applies_orders_inv(1) [OF assms(1) I(1) assms(5)] applies_trail_inv [OF assms(1) I(1,2) assms(3-5)]
      applies_fills_inv [OF assms(1) I(1,3) assms(3-5)] applies_posted_inv [OF assms(1) I(1,3,5) assms(3,4)]
      applies_balance_inv [OF assms(1) I(1,6) assms(3,4)] by simp
qed
end
