(* ===== verification/Bus.thy ===== *)
theory Bus
  imports Prelude "HOL-Library.Word" "HOL-Library.Sublist"
begin

section \<open>The in-process event bus\<close>

text \<open>
  \<open>internal/bus/bus.go\<close>. A subscriber is an entry of the map \<open>subs\<close> and a channel with room for 64
  events, which its goroutine reads. The channel outlives the entry: unsubscribing removes the entry and
  closes the channel, and the goroutine still reads what is buffered. \<open>Publish\<close> holds the mutex, so
  every operation is one step; the goroutines' reads interleave with the steps in any order.
\<close>

record 'p BusEvent =
  be_Subject :: string
  be_At :: Time
  be_Payload :: 'p

definition subscriberBuffer :: nat where "subscriberBuffer = 64"

record 'p InProc =
  nextID :: int
  subs :: "(int \<times> string) list" \<comment> \<open>the map from IDs to subscribers, whose prefix is the value\<close>
  chans :: "int \<Rightarrow> 'p BusEvent list" \<comment> \<open>what each subscriber's channel buffers\<close>
  dropped :: "64 word"
  bus_closed :: bool

definition NewInProc :: "'p InProc" where
  "NewInProc = \<lparr>nextID = 0, subs = [], chans = (\<lambda>_. []), dropped = 0, bus_closed = False\<rparr>"

text \<open>The body of the loop of \<open>Publish\<close>: skip on another prefix, send if there is room, else count a drop.\<close>

definition offer :: "'p BusEvent \<Rightarrow> int \<times> string \<Rightarrow> 'p InProc \<Rightarrow> 'p InProc" where
  "offer e s b =
    (if \<not> HasPrefix (be_Subject e) (snd s) then b
     else if length (chans b (fst s)) < subscriberBuffer
     then b\<lparr>chans := (chans b)(fst s := chans b (fst s) @ [e])\<rparr>
     else b\<lparr>dropped := dropped b + 1\<rparr>)"

definition Publish :: "'p BusEvent \<Rightarrow> 'p InProc \<Rightarrow> (Err + unit) \<times> 'p InProc" where
  "Publish e b = (if bus_closed b then (Inr (), b) else (Inr (), fold (offer e) (subs b) b))"

definition Subscribe :: "string \<Rightarrow> 'p InProc \<Rightarrow> int \<times> 'p InProc" where
  "Subscribe subjectPrefix b = (nextID b, b\<lparr>nextID := nextID b + 1, subs := subs b @ [(nextID b, subjectPrefix)],
     chans := (chans b)(nextID b := [])\<rparr>)"

definition unsubscribe :: "int \<Rightarrow> 'p InProc \<Rightarrow> 'p InProc" where
  "unsubscribe i b = b\<lparr>subs := filter (\<lambda>s. fst s \<noteq> i) (subs b)\<rparr>"

definition bus_Close :: "'p InProc \<Rightarrow> 'p InProc" where
  "bus_Close b = b\<lparr>bus_closed := True\<rparr>"

text \<open>A subscriber's goroutine reads the oldest buffered event and calls its handler with it.\<close>

definition receive :: "int \<Rightarrow> 'p InProc \<Rightarrow> ('p BusEvent \<times> 'p InProc) option" where
  "receive i b = (if bus_closed b then None else
     case chans b i of [] \<Rightarrow> None | e # es \<Rightarrow> Some (e, b\<lparr>chans := (chans b)(i := es)\<rparr>))"

subsection \<open>What publishing does\<close>

text \<open>The subscribers an event reaches and those that miss it for lack of room.\<close>

definition wants :: "'p BusEvent \<Rightarrow> int \<times> string \<Rightarrow> bool" where
  "wants e s \<longleftrightarrow> HasPrefix (be_Subject e) (snd s)"

definition has_room :: "'p InProc \<Rightarrow> int \<times> string \<Rightarrow> bool" where
  "has_room b s \<longleftrightarrow> length (chans b (fst s)) < subscriberBuffer"

lemma offer_fields [simp]:
  "nextID (offer e s b) = nextID b" "subs (offer e s b) = subs b" "bus_closed (offer e s b) = bus_closed b"
  by (simp_all add: offer_def)

lemma fold_offer:
  assumes "distinct (map fst ss)"
  shows "fold (offer e) ss b = b\<lparr>
     chans := (\<lambda>i. if \<exists>s\<in>set ss. fst s = i \<and> wants e s \<and> has_room b s then chans b i @ [e] else chans b i),
     dropped := dropped b + of_nat (length (filter (\<lambda>s. wants e s \<and> \<not> has_room b s) ss))\<rparr>"
  using assms
proof (induction ss arbitrary: b)
  case Nil
  then show ?case by simp
next
  case (Cons s ss)
  have other: "has_room (offer e s b) x = has_room b x" if "x \<in> set ss" for x
  proof -
    have "fst x \<noteq> fst s" using Cons.prems that by (metis distinct.simps(2) image_eqI list.set_map list.simps(9))
    then show ?thesis by (simp add: has_room_def offer_def)
  qed
  have ch: "chans (offer e s b) i = (if fst s = i \<and> wants e s \<and> has_room b s then chans b i @ [e] else chans b i)" for i
    by (auto simp: offer_def wants_def has_room_def)
  have dr: "dropped (offer e s b) = dropped b + (if wants e s \<and> \<not> has_room b s then 1 else 0)"
    by (simp add: offer_def wants_def has_room_def)
  have fil: "filter (\<lambda>x. wants e x \<and> \<not> has_room (offer e s b) x) ss = filter (\<lambda>x. wants e x \<and> \<not> has_room b x) ss"
    using other by (intro filter_cong) auto
  have ex: "(\<exists>x\<in>set ss. fst x = i \<and> wants e x \<and> has_room (offer e s b) x) \<longleftrightarrow> (\<exists>x\<in>set ss. fst x = i \<and> wants e x \<and> has_room b x)" for i
    using other by auto
  have no: "\<not> (\<exists>x\<in>set ss. fst x = fst s \<and> P x)" for P
    using Cons.prems by (auto simp: image_iff)
  have IH: "fold (offer e) (s # ss) b = (offer e s b)\<lparr>
     chans := (\<lambda>i. if \<exists>x\<in>set ss. fst x = i \<and> wants e x \<and> has_room b x then chans (offer e s b) i @ [e] else chans (offer e s b) i),
     dropped := dropped (offer e s b) + of_nat (length (filter (\<lambda>x. wants e x \<and> \<not> has_room b x) ss))\<rparr>"
    using Cons.IH [of "offer e s b"] Cons.prems by (simp add: fil ex)
  show ?case
    unfolding IH ch dr using no
    by (intro InProc.equality) (auto simp: fun_eq_iff)
qed

text \<open>
  The invariant of the map: IDs are distinct and were handed out, channels hold at most 64 events, and
  no channel is used before its ID was handed out.
\<close>

definition bus_inv :: "'p InProc \<Rightarrow> bool" where
  "bus_inv b \<longleftrightarrow> distinct (map fst (subs b)) \<and> (\<forall>s\<in>set (subs b). 0 \<le> fst s \<and> fst s < nextID b) \<and> 0 \<le> nextID b
     \<and> (\<forall>i. length (chans b i) \<le> subscriberBuffer) \<and> (\<forall>i. nextID b \<le> i \<longrightarrow> chans b i = [])"

lemma Publish_eq:
  assumes "bus_inv b" "\<not> bus_closed b"
  shows "Publish e b = (Inr (), b\<lparr>
     chans := (\<lambda>i. if \<exists>s\<in>set (subs b). fst s = i \<and> wants e s \<and> has_room b s then chans b i @ [e] else chans b i),
     dropped := dropped b + of_nat (length (filter (\<lambda>s. wants e s \<and> \<not> has_room b s) (subs b)))\<rparr>)"
  using assms by (simp add: Publish_def fold_offer bus_inv_def)

subsection \<open>Runs of the bus\<close>

text \<open>
  The operations of publishers and subscribers and the reads of the goroutines, in any order. The
  second argument records the events handed to each handler and the third the events published
  while a subscriber with a matching prefix was registered and the bus open, both oldest first.
\<close>

definition matched :: "'p BusEvent \<Rightarrow> 'p InProc \<Rightarrow> int \<Rightarrow> bool" where
  "matched e b i \<longleftrightarrow> \<not> bus_closed b \<and> (\<exists>s\<in>set (subs b). fst s = i \<and> wants e s)"

inductive bus_run :: "'p InProc \<Rightarrow> (int \<Rightarrow> 'p BusEvent list) \<Rightarrow> (int \<Rightarrow> 'p BusEvent list) \<Rightarrow> bool" where
  start: "bus_run NewInProc (\<lambda>_. []) (\<lambda>_. [])"
| publish: "bus_run b h p \<Longrightarrow> Publish e b = (r, b') \<Longrightarrow>
    bus_run b' h (\<lambda>i. if matched e b i then p i @ [e] else p i)"
| subscribe: "bus_run b h p \<Longrightarrow> Subscribe subjectPrefix b = (i, b') \<Longrightarrow> bus_run b' h p"
| unsubscribe: "bus_run b h p \<Longrightarrow> bus_run (unsubscribe i b) h p"
| receive: "bus_run b h p \<Longrightarrow> receive i b = Some (e, b') \<Longrightarrow> bus_run b' (h(i := h i @ [e])) p"
| close: "bus_run b h p \<Longrightarrow> bus_run (bus_Close b) h p"

lemma Publish_inv: "bus_inv b \<Longrightarrow> Publish e b = (r, b') \<Longrightarrow> bus_inv b'"
proof (cases "bus_closed b")
  case True
  then show "bus_inv b \<Longrightarrow> Publish e b = (r, b') \<Longrightarrow> bus_inv b'" by (simp add: Publish_def)
next
  case False
  assume i: "bus_inv b" and p: "Publish e b = (r, b')"
  have "\<not> (\<exists>s\<in>set (subs b). fst s = i \<and> P s)" if "nextID b \<le> i" for i P
    using i that unfolding bus_inv_def by fastforce
  with Publish_eq [OF i False, of e] i p show "bus_inv b'"
    by (auto simp: bus_inv_def has_room_def)
qed

lemma receive_inv: "bus_inv b \<Longrightarrow> receive i b = Some (e, b') \<Longrightarrow> bus_inv b'"
proof -
  assume i: "bus_inv b" and "receive i b = Some (e, b')"
  then obtain es where es: "chans b i = e # es" "b' = b\<lparr>chans := (chans b)(i := es)\<rparr>"
    by (auto simp: receive_def split: if_splits list.splits)
  from i es(1) have "length es \<le> subscriberBuffer" unfolding bus_inv_def by (metis Suc_leD length_Cons)
  moreover from i es(1) have "\<not> nextID b \<le> i" unfolding bus_inv_def by (metis list.distinct(1))
  ultimately show ?thesis using i es(2) by (auto simp: bus_inv_def)
qed

lemma bus_run_inv: "bus_run b h p \<Longrightarrow> bus_inv b"
proof (induction rule: bus_run.induct)
  case (publish b h p e r b')
  then show ?case by (blast intro: Publish_inv)
next
  case (subscribe b h p subjectPrefix i b')
  then show ?case by (fastforce simp: Subscribe_def bus_inv_def)
next
  case (receive b h p i e b')
  then show ?case by (blast intro: receive_inv)
qed (auto simp: bus_inv_def NewInProc_def unsubscribe_def bus_Close_def distinct_map_filter)

text \<open>The events a subscriber has missed so far.\<close>

definition missed :: "'p InProc \<Rightarrow> (int \<Rightarrow> 'p BusEvent list) \<Rightarrow> (int \<Rightarrow> 'p BusEvent list) \<Rightarrow> int \<Rightarrow> nat" where
  "missed b h p i = length (p i) - length (h i @ chans b i)"

definition accounted :: "'p InProc \<Rightarrow> (int \<Rightarrow> 'p BusEvent list) \<Rightarrow> (int \<Rightarrow> 'p BusEvent list) \<Rightarrow> bool" where
  "accounted b h p \<longleftrightarrow> (\<forall>i. subseq (h i @ chans b i) (p i)) \<and> (\<forall>i. nextID b \<le> i \<longrightarrow> p i = [])
     \<and> dropped b = of_nat (\<Sum>i\<in>{0..<nextID b}. missed b h p i)"

lemma count_subs:
  assumes "distinct (map fst ss)" "\<forall>s\<in>set ss. fst s \<in> {0..<n}"
  shows "(\<Sum>i\<in>{0..<n::int}. if \<exists>s\<in>set ss. fst s = i \<and> P s then Suc 0 else 0) = length (filter P ss)"
proof -
  have "(\<Sum>i\<in>{0..<n}. if \<exists>s\<in>set ss. fst s = i \<and> P s then Suc 0 else 0) = card ({0..<n} \<inter> {i. \<exists>s\<in>set ss. fst s = i \<and> P s})"
    by (simp add: sum.If_cases)
  also have "{0..<n} \<inter> {i. \<exists>s\<in>set ss. fst s = i \<and> P s} = fst ` set (filter P ss)"
    using assms(2) by auto
  also have "card (fst ` set (filter P ss)) = length (filter P ss)"
    using assms(1) by (metis distinct_card distinct_map_filter length_map list.set_map)
  finally show ?thesis .
qed


lemma accounted_publish:
  assumes "accounted b h p" "bus_inv b" "Publish e b = (r, b')"
  shows "accounted b' h (\<lambda>i. if matched e b i then p i @ [e] else p i)"
proof (cases "bus_closed b")
  case True
  with assms show ?thesis by (simp add: Publish_def matched_def)
next
  case False
  let ?p = "\<lambda>i. if matched e b i then p i @ [e] else p i"
  let ?full = "\<lambda>i. \<exists>s\<in>set (subs b). fst s = i \<and> wants e s \<and> \<not> has_room b s"
  have d: "distinct (map fst (subs b))" and n: "\<forall>s\<in>set (subs b). fst s \<in> {0..<nextID b}"
    using assms(2) by (auto simp: bus_inv_def)
  have b': "nextID b' = nextID b" "dropped b' = dropped b + of_nat (length (filter (\<lambda>s. wants e s \<and> \<not> has_room b s) (subs b)))"
    "chans b' i = (if matched e b i \<and> \<not> ?full i then chans b i @ [e] else chans b i)" for i
    using Publish_eq [OF assms(2) False, of e] assms(3) False d
    by (auto simp: matched_def has_room_def)
  have sub: "subseq (h i @ chans b i) (p i)" for i using assms(1) by (simp add: accounted_def)
  then have le: "length (h i @ chans b i) \<le> length (p i)" for i by (rule list_emb_length)
  have "subseq (h i @ chans b' i) (?p i)" for i
    using sub [of i] unfolding b'(3)
    by (auto simp flip: append_assoc intro: list_emb_append_mono list_emb_prefix)
  moreover have "missed b' h ?p i = missed b h p i + (if ?full i then Suc 0 else 0)" for i
    using le [of i] unfolding missed_def b'(3) by (auto simp: matched_def False)
  moreover have "?p i = []" if "nextID b' \<le> i" for i
    using that assms(1) n unfolding accounted_def b'(1) by (fastforce simp: matched_def)
  ultimately show ?thesis
    using assms(1) count_subs [OF d n, of "\<lambda>s. wants e s \<and> \<not> has_room b s"]
    by (simp add: accounted_def b'(1,2) sum.distrib)
qed

lemma bus_run_accounted: "bus_run b h p \<Longrightarrow> accounted b h p"
proof (induction rule: bus_run.induct)
  case start
  then show ?case by (simp add: accounted_def NewInProc_def missed_def)
next
  case (publish b h p e r b')
  then show ?case using accounted_publish bus_run_inv by blast
next
  case (subscribe b h p subjectPrefix i b')
  then have inv: "bus_inv b" using bus_run_inv by blast
  have "h (nextID b) = []" using subscribe.IH subscribe.prems by (metis accounted_def append_is_Nil_conv list_emb_Nil2 order_refl)
  moreover have "{0..<nextID b + 1} = insert (nextID b) {0..<nextID b}" using inv by (auto simp: bus_inv_def)
  ultimately show ?case
    using subscribe inv by (auto simp: Subscribe_def accounted_def missed_def bus_inv_def)
next
  case (receive b h p i e b')
  then obtain es where "chans b i = e # es" "b' = b\<lparr>chans := (chans b)(i := es)\<rparr>"
    by (auto simp: receive_def split: if_splits list.splits)
  then have same: "(h(i := h i @ [e])) j @ chans b' j = h j @ chans b j" "nextID b' = nextID b" "dropped b' = dropped b" for j
    by simp_all
  with receive.IH show ?case unfolding accounted_def missed_def same by simp
qed (auto simp: accounted_def unsubscribe_def bus_Close_def missed_def)

subsection \<open>Delivery\<close>


definition demo_bus_event :: "string \<Rightarrow> nat BusEvent" where
  "demo_bus_event s = \<lparr>be_Subject = s, be_At = Time 1, be_Payload = 5\<rparr>"

definition demo_bus :: "nat InProc" where
  "demo_bus = snd (Publish (demo_bus_event ''order.filled'') (snd (Subscribe ''order.'' NewInProc)))"


end
