(* ===== verification/Outbox.thy ===== *)
theory Outbox
  imports Schema Bus
begin

section \<open>The transactional outbox and its relay\<close>

text \<open>
  \<open>internal/adapters/postgres/outbox.go\<close> and \<open>internal/service/outbox/outbox.go\<close>. The store claims the
  unpublished rows, hands each to a callback in the order of their IDs and marks the batch in the same
  transaction; the relay drains batch after batch into the bus and deletes old published rows. The
  operations run on the database and on the state the callback acts on.
\<close>

record OutboxMessage =
  om_ID :: int
  om_Subject :: string
  om_Payload :: Payload
  om_CreatedAt :: Time

definition outboxMessage :: "OutboxRow \<Rightarrow> OutboxMessage" where
  "outboxMessage row = \<lparr>om_ID = ob_ID row, om_Subject = ob_Subject row, om_Payload = ob_Payload row,
     om_CreatedAt = ob_CreatedAt row\<rparr>"

subsection \<open>The store\<close>

definition onDB :: "'a dbop \<Rightarrow> (DB \<times> 'w, 'a) op" where
  "onDB m s = (case m (fst s) of (r, db) \<Rightarrow> (r, (db, snd s)))"

definition onBus :: "('w, 'a) op \<Rightarrow> (DB \<times> 'w, 'a) op" where
  "onBus m s = (case m (snd s) of (r, w) \<Rightarrow> (r, (fst s, w)))"

definition publishPendingTx :: "int \<Rightarrow> (OutboxMessage \<Rightarrow> ('w, unit) op) \<Rightarrow> (DB \<times> 'w, int) op" where
  "publishPendingTx limit publish =
    bindS (wrapS ''postgres: claim outbox rows'' (onDB (exec (q_ClaimUnpublishedOutbox limit)))) (\<lambda>rows.
    if rows = [] then returnS 0 else
    bindS (forS (\<lambda>row. wrapS (''postgres: publish outbox row '' @ fmt_d (ob_ID row))
      (onBus (publish (outboxMessage row)))) rows) (\<lambda>_.
    bindS (wrapS ''postgres: mark outbox published'' (onDB (exec (q_MarkOutboxPublished (map ob_ID rows))))) (\<lambda>_.
    bindS (wrapS ''postgres: commit outbox publish'' (onDB commitTx)) (\<lambda>_.
    returnS (int (length rows))))))"

definition PublishPending :: "int \<Rightarrow> (OutboxMessage \<Rightarrow> ('w, unit) op) \<Rightarrow> (DB \<times> 'w, int) op" where
  "PublishPending limit publish s =
    (case wrapS ''postgres: begin outbox publish'' (onDB beginTx) s of
       (Inl e, s1) \<Rightarrow> (Inl e, s1)
     | (Inr _, s1) \<Rightarrow> (case publishPendingTx limit publish s1 of (r, (db, w)) \<Rightarrow> (r, (rollbackTx db, w))))"

definition DeletePublishedBefore :: "Time \<Rightarrow> int dbop" where
  "DeletePublishedBefore cutoff =
    wrapS ''postgres: delete published outbox rows'' (autocommit (q_DeleteOutboxPublishedBefore cutoff))"

definition UnpublishedStats :: "(int \<times> Time) dbop" where
  "UnpublishedStats = wrapS ''postgres: outbox stats'' (autocommit q_OutboxUnpublishedStats)"

subsection \<open>The relay\<close>

text \<open>
  The service. \<open>ctxErr\<close> says whether the context is canceled at the time of a call, measured by the
  number of statements sent; \<open>clkNow\<close> is the clock. The metrics are returned instead of observed: the
  published counts and the backlog gauge.
\<close>

record RelayConfig =
  rc_batch :: int
  rc_ctxErr :: "nat \<Rightarrow> bool"
  rc_clkNow :: "nat \<Rightarrow> Time"

definition retention :: Duration where "retention = 7 * 24 * hour"
definition cleanupInterval :: Duration where "cleanupInterval = hour"

text \<open>The callback of \<open>drain\<close>: the event put on the bus for a row.\<close>

definition relayEvent :: "OutboxMessage \<Rightarrow> Payload BusEvent" where
  "relayEvent m = \<lparr>be_Subject = om_Subject m, be_At = om_CreatedAt m, be_Payload = om_Payload m\<rparr>"

text \<open>
  The loop of \<open>drain\<close> over a store operation: \<open>for\<close> until a batch comes back short. A batch of 0 would never
  end, so the loop is a partial function; \<open>None\<close> is a run that does not return.
\<close>

partial_function (option) drainLoop ::
  "('s, int) op \<Rightarrow> ('s \<Rightarrow> bool) \<Rightarrow> int \<Rightarrow> 's \<Rightarrow> ((Err + bool) \<times> 's) option" where
  "drainLoop publishPending canceled batch s =
    (case publishPending s of
       (Inl e, s') \<Rightarrow> Some (if canceled s' then Inr False else Inl (wrap ''outbox store'' e), s')
     | (Inr n, s') \<Rightarrow> if n < batch then Some (Inr True, s') else drainLoop publishPending canceled batch s')"

definition observeBacklog :: "RelayConfig \<Rightarrow> (DB \<times> 'w, (int \<times> Duration) option) op" where
  "observeBacklog c s =
    (case onDB UnpublishedStats s of
       (Inl e, s') \<Rightarrow> (if rc_ctxErr c (db_stmt (fst s')) then Inr None else Inl (wrap ''outbox store'' e), s')
     | (Inr (rows, oldest), s') \<Rightarrow>
         (Inr (Some (rows, if rows > 0 then max 0 (time_Sub (rc_clkNow c (db_stmt (fst s'))) oldest) else 0)), s'))"

text \<open>\<open>drain\<close>: the loop, then the backlog unless the loop was left because the context ended.\<close>

definition drain :: "RelayConfig \<Rightarrow> (Payload BusEvent \<Rightarrow> ('w, unit) op) \<Rightarrow> DB \<times> 'w
    \<Rightarrow> ((Err + (int \<times> Duration) option) \<times> DB \<times> 'w) option" where
  "drain c busPublish s =
    (case drainLoop (PublishPending (rc_batch c) (\<lambda>m. busPublish (relayEvent m)))
        (\<lambda>s. rc_ctxErr c (db_stmt (fst s))) (rc_batch c) s of
       None \<Rightarrow> None
     | Some (Inl e, s') \<Rightarrow> Some (Inl e, s')
     | Some (Inr False, s') \<Rightarrow> Some (Inr None, s')
     | Some (Inr True, s') \<Rightarrow> Some (observeBacklog c s'))"

definition cleanup :: "RelayConfig \<Rightarrow> unit dbop" where
  "cleanup c db =
    (case DeletePublishedBefore (time_Add (rc_clkNow c (db_stmt db)) (- retention)) db of
       (Inl e, db') \<Rightarrow> (if rc_ctxErr c (db_stmt db') then Inr () else Inl (wrap ''outbox store'' e), db')
     | (Inr n, db') \<Rightarrow> (Inr (), db'))"

text \<open>
  \<open>Run\<close>: the first drain, then the \<open>select\<close> loop, driven by the sequence of channel receives that the
  scheduler picks; an empty sequence is a relay that waits.
\<close>

datatype RelayTick = CtxDone | TickerFired | CleanupFired

fun relayLoop :: "RelayConfig \<Rightarrow> (Payload BusEvent \<Rightarrow> ('w, unit) op) \<Rightarrow> RelayTick list \<Rightarrow> DB \<times> 'w
    \<Rightarrow> ((Err + unit) \<times> DB \<times> 'w) option" where
  "relayLoop c busPublish [] s = Some (Inr (), s)"
| "relayLoop c busPublish (CtxDone # ts) s = Some (Inr (), s)"
| "relayLoop c busPublish (TickerFired # ts) s =
    (case drain c busPublish s of None \<Rightarrow> None
     | Some (Inl e, s') \<Rightarrow> Some (Inl e, s')
     | Some (Inr _, s') \<Rightarrow> relayLoop c busPublish ts s')"
| "relayLoop c busPublish (CleanupFired # ts) s =
    (case onDB (cleanup c) s of
       (Inl e, s') \<Rightarrow> Some (Inl e, s')
     | (Inr _, s') \<Rightarrow> relayLoop c busPublish ts s')"

definition relayRun :: "RelayConfig \<Rightarrow> (Payload BusEvent \<Rightarrow> ('w, unit) op) \<Rightarrow> RelayTick list \<Rightarrow> DB \<times> 'w
    \<Rightarrow> ((Err + unit) \<times> DB \<times> 'w) option" where
  "relayRun c busPublish ts s =
    (case drain c busPublish s of None \<Rightarrow> None
     | Some (Inl e, s') \<Rightarrow> Some (Inl e, s')
     | Some (Inr _, s') \<Rightarrow> relayLoop c busPublish ts s')"

lemma drainLoop_preserves:
  assumes "\<And>s r s'. P s \<Longrightarrow> publishPending s = (r, s') \<Longrightarrow> P s'"
    and "drainLoop publishPending canceled n s = Some (r, s')" and "P s"
  shows "P s'"
proof -
  have "p = publishPending \<longrightarrow> P s \<longrightarrow> P (snd x)" if "drainLoop p c m s = Some x" for p c m s x
  proof (rule drainLoop.raw_induct [rotated, OF that])
    fix loop :: "('a, int) op \<Rightarrow> ('a \<Rightarrow> bool) \<Rightarrow> int \<Rightarrow> 'a \<Rightarrow> ((Err + bool) \<times> 'a) option" and p c m s x
    assume IH: "\<And>p c m s y. loop p c m s = Some y \<Longrightarrow> p = publishPending \<longrightarrow> P s \<longrightarrow> P (snd y)"
      and x: "(case p s of (Inl e, s') \<Rightarrow> Some (if c s' then Inr False else Inl (wrap ''outbox store'' e), s')
        | (Inr k, s') \<Rightarrow> if k < m then Some (Inr True, s') else loop p c m s') = Some x"
    obtain y t where y: "p s = (y, t)" by (rule prod.exhaust)
    show "p = publishPending \<longrightarrow> P s \<longrightarrow> P (snd x)"
    proof (intro impI)
      assume p: "p = publishPending" and "P s"
      then have "P t" using assms(1) y by blast
      then show "P (snd x)" using x y IH [of p c m t x] p by (auto split: sum.splits if_splits)
    qed
  qed
  with assms(2,3) show ?thesis by fastforce
qed

subsection \<open>The contract of an outbox store\<close>

text \<open>
  What the relay relies on. A store has a backlog, the messages it still owes in order, and what it
  handed out; a call with a positive limit that succeeds hands out the head of the backlog, at most
  the limit, and takes it off. A call that fails may have handed out a prefix of it again later, so
  nothing leaves the backlog without having been handed out.
\<close>

locale outbox_store =
  fixes publishPending :: "('s, int) op" and limit :: int
    and invar :: "'s \<Rightarrow> bool" and backlog :: "'s \<Rightarrow> 'm list" and handed :: "'s \<Rightarrow> 'm list"
  assumes success: "0 < limit \<Longrightarrow> invar s \<Longrightarrow> publishPending s = (Inr n, s') \<Longrightarrow>
      n = int (length (take (nat limit) (backlog s))) \<and> backlog s' = drop (nat limit) (backlog s)
      \<and> handed s' = handed s @ take (nat limit) (backlog s)"
    and invar: "invar s \<Longrightarrow> publishPending s = (r, s') \<Longrightarrow> invar s'"
begin

text \<open>
  The loop returns from every state, and when it ends normally the whole backlog has been handed out
  in order, every message exactly once.
\<close>

lemma drain_ends:
  assumes limit_pos: "0 < limit" and "invar s"
  shows "\<exists>r s'. drainLoop publishPending canceled limit s = Some (r, s') \<and> invar s'
    \<and> (r = Inr True \<longrightarrow> backlog s' = [] \<and> handed s' = handed s @ backlog s)"
  using assms(2)
proof (induction "length (backlog s)" arbitrary: s rule: less_induct)
  case less
  obtain x s1 where p: "publishPending s = (x, s1)" by fastforce
  have i1: "invar s1" using invar less.prems p by blast
  show ?case
  proof (cases x)
    case (Inl e)
    with p i1 show ?thesis by (auto simp: drainLoop.simps)
  next
    case (Inr n)
    with p success [OF limit_pos less.prems] have n: "n = int (length (take (nat limit) (backlog s)))"
      "backlog s1 = drop (nat limit) (backlog s)" "handed s1 = handed s @ take (nat limit) (backlog s)" by auto
    show ?thesis
    proof (cases "n < limit")
      case True
      with n(1) have "length (backlog s) \<le> nat limit" using limit_pos by (auto simp: min_def split: if_splits)
      with True p Inr i1 n show ?thesis by (auto simp: drainLoop.simps)
    next
      case False
      with n(1) limit_pos have "nat limit \<le> length (backlog s)" "0 < nat limit" by (auto simp: min_def split: if_splits)
      then have "length (backlog s1) < length (backlog s)" using n(2) by simp
      from less.hyps [OF this i1] obtain r s' where "drainLoop publishPending canceled limit s1 = Some (r, s')" "invar s'"
        "r = Inr True \<longrightarrow> backlog s' = [] \<and> handed s' = handed s1 @ backlog s1" by blast
      with False p Inr n show ?thesis by (subst drainLoop.simps) auto
    qed
  qed
qed

end


subsection \<open>The Postgres store meets the contract\<close>

text \<open>A bus whose successful publications are recorded.\<close>

definition traced :: "('e \<Rightarrow> ('w, unit) op) \<Rightarrow> 'e \<Rightarrow> ('w \<times> 'e list, unit) op" where
  "traced publish e s = (case publish e (fst s) of
     (Inl x, w) \<Rightarrow> (Inl x, (w, snd s)) | (Inr u, w) \<Rightarrow> (Inr u, (w, snd s @ [e])))"

definition rowEvent :: "OutboxRow \<Rightarrow> Payload BusEvent" where
  "rowEvent row = relayEvent (outboxMessage row)"

definition pending :: "Tables \<Rightarrow> OutboxRow list" where
  "pending T = sort_key ob_ID (unpublished T)"

definition ids_distinct :: "Tables \<Rightarrow> bool" where
  "ids_distinct T \<longleftrightarrow> distinct (map ob_ID (outbox T))"

definition marked :: "OutboxRow list \<Rightarrow> Time \<Rightarrow> OutboxRow list \<Rightarrow> OutboxRow list" where
  "marked rows t = update_where (\<lambda>r. ob_ID r \<in> ob_ID ` set rows) (\<lambda>r. r\<lparr>ob_PublishedAt := Some t\<rparr>)"

lemma onDB_eq [simp]: "onDB m s = (r, s') \<longleftrightarrow> (\<exists>db. m (fst s) = (r, db) \<and> s' = (db, snd s))"
  by (auto simp: onDB_def split: prod.splits)

lemma publish_loop:
  assumes "forS (\<lambda>row. wrapS (txt row) (onBus (traced busPublish (rowEvent row)))) rows s = (r, s')"
  shows "fst s' = fst s \<and> (\<exists>k. snd (snd s') = snd (snd s) @ map rowEvent (take k rows) \<and> (r = Inr () \<longrightarrow> k = length rows))"
  using assms
proof (induction rows arbitrary: s)
  case Nil
  then show ?case by simp
next
  case (Cons row rows)
  let ?f = "\<lambda>row. wrapS (txt row) (onBus (traced busPublish (rowEvent row)))"
  obtain x s1 where 1: "?f row s = (x, s1)" by (rule prod.exhaust)
  show ?case
  proof (cases x)
    case (Inl e)
    with 1 have "fst s1 = fst s" "snd (snd s1) = snd (snd s)"
      by (auto simp: wrapS_Inl_iff onBus_def traced_def split: prod.splits sum.splits)
    with Cons.prems 1 Inl show ?thesis by (auto simp: bindS_def intro: exI [of _ 0])
  next
    case (Inr u)
    with 1 have s1: "fst s1 = fst s" "snd (snd s1) = snd (snd s) @ [rowEvent row]"
      by (auto simp: onBus_def traced_def split: prod.splits sum.splits)
    from Cons.prems 1 Inr have "forS ?f rows s1 = (r, s')" by (simp add: bindS_def)
    from Cons.IH [OF this] obtain k where "fst s' = fst s1" "snd (snd s') = snd (snd s1) @ map rowEvent (take k rows)"
      "r = Inr () \<longrightarrow> k = length rows" by blast
    with s1 show ?thesis by (intro conjI exI [of _ "Suc k"]) auto
  qed
qed

lemma commitTx_cases: "commitTx db = (r, db') \<Longrightarrow>
    (r = Inr () \<longrightarrow> db_durable db' = db_work db) \<and> (db_durable db' = db_durable db \<or> db_durable db' = db_work db)
    \<and> db_seq db' = db_seq db"
  by (auto simp: commitTx_def exec_def Let_def split: option.splits Fault.splits)

text \<open>
  Every call of \<open>PublishPending\<close>, whatever fails: it either leaves the tables alone and has published a
  prefix of the batch, or it marks the batch in the durable tables after having published all of it.
\<close>

definition batch_of :: "int \<Rightarrow> Tables \<Rightarrow> OutboxRow list" where
  "batch_of n T = take (nat n) (pending T)"

definition published_or_not :: "int \<Rightarrow> Tables \<Rightarrow> Payload BusEvent list \<Rightarrow> Err + int \<Rightarrow> Tables \<Rightarrow> Payload BusEvent list \<Rightarrow> bool" where
  "published_or_not n T l r T' l' \<longleftrightarrow>
     (\<exists>k. T' = T \<and> l' = l @ map rowEvent (take k (batch_of n T)) \<and> (\<forall>x. r = Inr x \<longrightarrow> x = 0 \<and> batch_of n T = []))
   \<or> (\<exists>t. T' = T\<lparr>outbox := marked (batch_of n T) t (outbox T)\<rparr> \<and> l' = l @ map rowEvent (batch_of n T)
        \<and> (\<forall>x. r = Inr x \<longrightarrow> x = int (length (batch_of n T))))"

lemma Claim_cases:
  assumes "exec (q_ClaimUnpublishedOutbox n) db = (r, db')"
  shows "db_durable db' = db_durable db \<and> db_work db' = db_work db \<and> (\<forall>rows. r = Inr rows \<longrightarrow> rows = batch_of n (db_work db))"
  using assms by (auto simp: exec_def q_ClaimUnpublishedOutbox_def Let_def batch_of_def pending_def
    split: option.splits Fault.splits if_splits)

lemma Mark_cases:
  assumes "exec (q_MarkOutboxPublished (map ob_ID rows)) db = (r, db')"
  shows "db_durable db' = db_durable db \<and> (r = Inr () \<longrightarrow> (\<exists>t. db_work db' = (db_work db)\<lparr>outbox := marked rows t (outbox (db_work db))\<rparr>))"
  using assms by (auto simp: exec_def q_MarkOutboxPublished_def Let_def marked_def set_work_def
    split: option.splits Fault.splits if_splits)

lemma publishPendingTx_cases:
  assumes "publishPendingTx n (\<lambda>m. traced busPublish (relayEvent m)) s = (r, s')" and "db_work (fst s) = T"
    and "db_durable (fst s) = T"
  shows "published_or_not n T (snd (snd s)) r (db_durable (fst s')) (snd (snd s'))"
proof -
  have stop: "published_or_not n T l (Inl e) T (l @ map rowEvent (take k (batch_of n T)))" for l e k
    unfolding published_or_not_def by blast
  have stop0: "published_or_not n T l (Inl e) T l" for l e using stop [of l e 0] by simp
  obtain x db1 where 1: "exec (q_ClaimUnpublishedOutbox n) (fst s) = (x, db1)" by (rule prod.exhaust)
  note c = Claim_cases [OF 1]
  show ?thesis
  proof (cases x)
    case (Inl e)
    with assms 1 have "r = Inl (wrap ''postgres: claim outbox rows'' e)" "s' = (db1, snd s)"
      by (auto simp: publishPendingTx_def bindS_def wrapS_def mapErrS_def onDB_def)
    with c assms(3) stop0 show ?thesis by simp
  next
    case (Inr rows)
    with c assms(2) have rows: "rows = batch_of n T" by simp
    let ?loop = "forS (\<lambda>row. wrapS (''postgres: publish outbox row '' @ fmt_d (ob_ID row))
      (onBus (traced busPublish (rowEvent row)))) rows"
    have rest: "(if rows = [] then returnS 0 else
      bindS ?loop (\<lambda>_. bindS (wrapS ''postgres: mark outbox published'' (onDB (exec (q_MarkOutboxPublished (map ob_ID rows))))) (\<lambda>_.
      bindS (wrapS ''postgres: commit outbox publish'' (onDB commitTx)) (\<lambda>_. returnS (int (length rows))))))
      (db1, snd s) = (r, s')"
      using assms(1) 1 Inr by (auto simp: publishPendingTx_def rowEvent_def bindS_def wrapS_def mapErrS_def onDB_def)
    show ?thesis
    proof (cases "rows = []")
      case True
      with rest c assms rows show ?thesis unfolding published_or_not_def by (auto intro!: disjI1 exI [of _ 0])
    next
      case False
      obtain y s2 where 2: "?loop (db1, snd s) = (y, s2)" by (rule prod.exhaust)
      from publish_loop [OF 2] obtain k where k: "fst s2 = db1" "snd (snd s2) = snd (snd s) @ map rowEvent (take k rows)"
        "y = Inr () \<longrightarrow> k = length rows" by auto
      show ?thesis
      proof (cases y)
        case (Inl e)
        with rest False 2 have "r = Inl e" "s' = s2" by (auto simp: bindS_def)
        with k c assms(3) stop rows show ?thesis by simp
      next
        case Inry: (Inr u)
        obtain z db3 where 3: "exec (q_MarkOutboxPublished (map ob_ID rows)) (fst s2) = (z, db3)" by (rule prod.exhaust)
        note m = Mark_cases [OF 3]
        show ?thesis
        proof (cases z)
          case (Inl e)
          with rest False 2 Inry 3 have "r = Inl (wrap ''postgres: mark outbox published'' e)" "s' = (db3, snd s2)"
            by (auto simp: bindS_def wrapS_def mapErrS_def onDB_def)
          with k c m assms(3) stop rows show ?thesis by simp
        next
          case Inrz: (Inr v)
          with m k(1) c assms(2) obtain t where t: "db_work db3 = T\<lparr>outbox := marked rows t (outbox T)\<rparr>"
            "db_durable db3 = T" using assms(3) by auto
          obtain q db4 where 4: "commitTx db3 = (q, db4)" by (rule prod.exhaust)
          from rest False 2 Inry 3 Inrz 4 have s': "s' = (db4, snd s2)"
            and r: "r = (case q of Inl e \<Rightarrow> Inl (wrap ''postgres: commit outbox publish'' e) | Inr _ \<Rightarrow> Inr (int (length rows)))"
            by (cases q; simp add: bindS_def wrapS_def mapErrS_def onDB_def returnS_def)+
          have l: "snd (snd s2) = snd (snd s) @ map rowEvent (batch_of n T)" using k Inry rows by simp
          show ?thesis
          proof (cases "db_durable db4 = db_work db3")
            case True
            then show ?thesis
              unfolding published_or_not_def s' using l t r rows by (intro disjI2 exI [of _ t]) (auto split: sum.splits)
          next
            case False
            then have "db_durable db4 = T" using commitTx_cases [OF 4] t(2) by blast
            moreover obtain e where "q = Inl e"
            proof (cases q)
              case (Inr a)
              with commitTx_cases [OF 4] False show ?thesis by simp
            qed
            ultimately show ?thesis using l r stop [of _ _ "length (batch_of n T)"] by (simp add: s')
          qed
        qed
      qed
    qed
  qed
qed

lemma PublishPending_cases:
  assumes "PublishPending n (\<lambda>m. traced busPublish (relayEvent m)) s = (r, s')"
  shows "published_or_not n (db_durable (fst s)) (snd (snd s)) r (db_durable (fst s')) (snd (snd s'))"
proof -
  obtain b s1 where 1: "wrapS ''postgres: begin outbox publish'' (onDB beginTx) s = (b, s1)" by (rule prod.exhaust)
  then have s1: "snd s1 = snd s" "db_durable (fst s1) = db_durable (fst s)"
    using beginTx_durable [of "fst s"] by (cases b; auto simp: wrapS_Inl_iff)+
  show ?thesis
  proof (cases b)
    case (Inl e)
    with assms 1 have "s' = s1" "r = Inl e" by (auto simp: PublishPending_def)
    with s1 show ?thesis unfolding published_or_not_def by (intro disjI1 exI [of _ 0]) simp
  next
    case (Inr u)
    have w1: "db_work (fst s1) = db_durable (fst s)"
      using 1 Inr by (auto simp: beginTx_def exec_Inr_iff)
    obtain r2 s2 where 2: "publishPendingTx n (\<lambda>m. traced busPublish (relayEvent m)) s1 = (r2, s2)" by (rule prod.exhaust)
    have "r = r2" "s' = (rollbackTx (fst s2), snd s2)"
      using assms 1 Inr 2 by (auto simp: PublishPending_def split: prod.splits)
    with publishPendingTx_cases [OF 2 w1 s1(2)] s1(1) show ?thesis by simp
  qed
qed

lemma pending_marked:
  assumes "ids_distinct T"
  shows "pending (T\<lparr>outbox := marked (batch_of n T) t (outbox T)\<rparr>) = drop (nat n) (pending T)"
proof -
  let ?keep = "\<lambda>r. ob_ID r \<notin> ob_ID ` set (batch_of n T)"
  have "filter (\<lambda>r. ob_PublishedAt r = None) (marked (batch_of n T) t xs) = filter ?keep (filter (\<lambda>r. ob_PublishedAt r = None) xs)" for xs
    by (induction xs) (auto simp: marked_def update_where_def)
  then have "pending (T\<lparr>outbox := marked (batch_of n T) t (outbox T)\<rparr>) = filter ?keep (pending T)"
    by (simp add: pending_def unpublished_def filter_sort)
  also have "\<dots> = filter ?keep (take (nat n) (pending T)) @ filter ?keep (drop (nat n) (pending T))"
    by (metis append_take_drop_id filter_append)
  also have "filter ?keep (take (nat n) (pending T)) = []" by (auto simp: batch_of_def filter_empty_conv)
  also have "filter ?keep (drop (nat n) (pending T)) = drop (nat n) (pending T)"
  proof (rule filter_True, rule ballI)
    fix r assume r: "r \<in> set (drop (nat n) (pending T))"
    have "distinct (map ob_ID (pending T))"
      using assms by (simp add: pending_def unpublished_def ids_distinct_def distinct_sort_key_map distinct_map_filter)
    then have "distinct (map ob_ID (take (nat n) (pending T)) @ map ob_ID (drop (nat n) (pending T)))"
      by (metis append_take_drop_id map_append)
    with r show "?keep r" by (auto simp: batch_of_def)
  qed
  finally show ?thesis by simp
qed

lemma ids_marked: "ids_distinct (T\<lparr>outbox := marked rows t (outbox T)\<rparr>) = ids_distinct T"
  by (simp add: ids_distinct_def marked_def map_update_where)

definition relay_invar :: "DB \<times> 'w \<Rightarrow> bool" where
  "relay_invar s \<longleftrightarrow> ids_distinct (db_durable (fst s))"

definition relay_backlog :: "DB \<times> 'w \<Rightarrow> Payload BusEvent list" where
  "relay_backlog s = map rowEvent (pending (db_durable (fst s)))"

definition relay_handed :: "DB \<times> 'w \<times> Payload BusEvent list \<Rightarrow> Payload BusEvent list" where
  "relay_handed s = snd (snd s)"

lemmas relay_defs = relay_invar_def relay_backlog_def relay_handed_def

interpretation pg: outbox_store
  "PublishPending n (\<lambda>m. traced (busPublish :: Payload BusEvent \<Rightarrow> ('w, unit) op) (relayEvent m))" n
  relay_invar relay_backlog relay_handed
proof unfold_locales
  fix s s' :: "DB \<times> 'w \<times> Payload BusEvent list" and x
  assume "0 < n" and i: "relay_invar s" and p: "PublishPending n (\<lambda>m. traced busPublish (relayEvent m)) s = (Inr x, s')"
  note c = PublishPending_cases [OF p, unfolded published_or_not_def]
  have "pending (db_durable (fst s)) = []" if "batch_of n (db_durable (fst s)) = []"
    using that \<open>0 < n\<close> by (auto simp: batch_of_def)
  then show "x = int (length (take (nat n) (relay_backlog s))) \<and> relay_backlog s' = drop (nat n) (relay_backlog s)
      \<and> relay_handed s' = relay_handed s @ take (nat n) (relay_backlog s)"
    using c i pending_marked [of "db_durable (fst s)" n]
    by (auto simp: relay_defs batch_of_def take_map drop_map)
next
  fix s s' :: "DB \<times> 'w \<times> Payload BusEvent list" and r
  assume "relay_invar s" and p: "PublishPending n (\<lambda>m. traced busPublish (relayEvent m)) s = (r, s')"
  with PublishPending_cases [OF p, unfolded published_or_not_def] show "relay_invar s'"
    by (auto simp: relay_invar_def ids_marked)
qed

lemma observeBacklog_effect:
  assumes "observeBacklog c s = (r, s')"
  shows "db_durable (fst s') = db_durable (fst s) \<and> snd s' = snd s
    \<and> (\<forall>b. r = Inr (Some b) \<longrightarrow> fst b = int (length (unpublished (db_durable (fst s)))))"
proof -
  obtain x db where x: "UnpublishedStats (fst s) = (x, db)" by (rule prod.exhaust)
  then have db: "db_durable db = db_durable (fst s)"
    "x = Inr y \<longrightarrow> fst y = int (length (unpublished (db_durable (fst s))))" for y
    by (auto simp: UnpublishedStats_def wrapS_def mapErrS_def autocommit_def exec_def q_OutboxUnpublishedStats_def Let_def
        split: option.splits Fault.splits prod.splits sum.splits)
  show ?thesis
    using assms x db by (cases x) (auto simp: observeBacklog_def onDB_def split: if_splits prod.splits)
qed

subsection \<open>Properties of the relay\<close>

definition published_on_bus :: "Tables \<Rightarrow> Payload BusEvent list \<Rightarrow> bool" where
  "published_on_bus T l \<longleftrightarrow> ids_distinct T \<and> (\<forall>r\<in>set (outbox T). ob_PublishedAt r \<noteq> None \<longrightarrow> rowEvent r \<in> set l)"

lemma PublishPending_keeps_published:
  assumes "PublishPending n (\<lambda>m. traced busPublish (relayEvent m)) s = (r, s')"
    and "published_on_bus (db_durable (fst s)) (snd (snd s))"
  shows "published_on_bus (db_durable (fst s')) (snd (snd s'))
    \<and> map (\<lambda>r. r\<lparr>ob_PublishedAt := None\<rparr>) (outbox (db_durable (fst s')))
      = map (\<lambda>r. r\<lparr>ob_PublishedAt := None\<rparr>) (outbox (db_durable (fst s)))"
proof -
  let ?T = "db_durable (fst s)"
  from PublishPending_cases [OF assms(1), unfolded published_or_not_def] show ?thesis
  proof (elim disjE exE conjE)
    fix k assume "db_durable (fst s') = ?T" "snd (snd s') = snd (snd s) @ map rowEvent (take k (batch_of n ?T))"
    with assms(2) show ?thesis by (auto simp: published_on_bus_def)
  next
    fix t assume T': "db_durable (fst s') = ?T\<lparr>outbox := marked (batch_of n ?T) t (outbox ?T)\<rparr>"
      and l': "snd (snd s') = snd (snd s) @ map rowEvent (batch_of n ?T)"
    have d: "distinct (map ob_ID (outbox ?T))" using assms(2) by (simp add: published_on_bus_def ids_distinct_def)
    have sub: "set (batch_of n ?T) \<subseteq> set (outbox ?T)"
      by (auto simp: batch_of_def pending_def unpublished_def dest: in_set_takeD)
    have "rowEvent x \<in> set (snd (snd s'))" if x: "x \<in> set (outbox (db_durable (fst s')))" "ob_PublishedAt x \<noteq> None" for x
    proof -
      from x(1) obtain y where y: "y \<in> set (outbox ?T)"
        "x = (if ob_ID y \<in> ob_ID ` set (batch_of n ?T) then y\<lparr>ob_PublishedAt := Some t\<rparr> else y)"
        by (auto simp: T' marked_def update_where_def)
      show ?thesis
      proof (cases "ob_ID y \<in> ob_ID ` set (batch_of n ?T)")
        case True
        then obtain z where "z \<in> set (batch_of n ?T)" "ob_ID z = ob_ID y" by auto
        with sub y(1) d have "y \<in> set (batch_of n ?T)" by (metis distinct_map_inj subsetD)
        moreover have "rowEvent x = rowEvent y" using y(2) by (simp add: rowEvent_def relayEvent_def outboxMessage_def)
        ultimately show ?thesis by (auto simp: l')
      next
        case False
        with x(2) y assms(2) show ?thesis by (simp add: l' published_on_bus_def)
      qed
    qed
    moreover have "map (\<lambda>r. r\<lparr>ob_PublishedAt := None\<rparr>) (outbox (db_durable (fst s')))
      = map (\<lambda>r. r\<lparr>ob_PublishedAt := None\<rparr>) (outbox ?T)"
      unfolding T' marked_def by (simp add: map_update_where)
    ultimately show ?thesis using assms(2) by (simp add: published_on_bus_def T' ids_marked)
  qed
qed

text \<open>
  C13: the relay never marks what it has not published. Whatever statements or publications fail, a
  call of \<open>PublishPending\<close> keeps this invariant of the durable outbox: row IDs are unique and every row
  with a publication time has had its event put on the bus. It also never changes a row otherwise, so
  an unpublished row stays in the table until a later call publishes it.
\<close>

theorem PublishPending_marks_only_published:
  assumes "PublishPending n (\<lambda>m. traced busPublish (relayEvent m)) s = (r, s')"
    and "published_on_bus (db_durable (fst s)) (snd (snd s))"
  shows "published_on_bus (db_durable (fst s')) (snd (snd s'))
    \<and> map (\<lambda>r. r\<lparr>ob_PublishedAt := None\<rparr>) (outbox (db_durable (fst s')))
      = map (\<lambda>r. r\<lparr>ob_PublishedAt := None\<rparr>) (outbox (db_durable (fst s)))"
  by (rule PublishPending_keeps_published [OF assms])

definition demo_row :: "int \<Rightarrow> Time option \<Rightarrow> OutboxRow" where
  "demo_row i t = \<lparr>ob_ID = i, ob_Subject = ''ledger.unmatched_sell'', ob_Payload = UnmatchedSell \<lparr>us_BotID = ''manual'',
     us_Venue = ''bybit'', us_Base = ''BTC'', us_Quote = ''USDT'', us_ClientOrderID = ''01JG3'', us_SellFillID = 1,
     us_UnmatchedQty = 1\<rparr>, ob_CreatedAt = Time 0, ob_PublishedAt = t\<rparr>"

definition demo_outbox :: "DB \<times> Payload InProc \<times> Payload BusEvent list" where
  "demo_outbox = ((new_db (\<lambda>_. None) (\<lambda>_. Time 9))\<lparr>db_durable := no_tables\<lparr>outbox := [demo_row 2 None, demo_row 1 None]\<rparr>\<rparr>,
     NewInProc, [])"

lemmas demo_outbox_defs = demo_outbox_def demo_row_def new_db_def no_tables_def ids_distinct_def

lemma PublishPending_marks_only_published_witness:
  "let run = PublishPending 10 (\<lambda>m. traced Publish (relayEvent m)) demo_outbox in
     published_on_bus (db_durable (fst (snd run))) (snd (snd (snd run)))"
proof -
  have "published_on_bus (db_durable (fst demo_outbox)) (snd (snd demo_outbox))"
    by (simp add: published_on_bus_def demo_outbox_defs)
  from PublishPending_marks_only_published [OF prod.collapse [symmetric] this, of 10 Publish] show ?thesis
    by (simp add: Let_def)
qed



lemma cleanup_tables:
  assumes "cleanup c db = (r, db')"
  shows "db_durable db' = db_durable db \<or>
    db_durable db' = (db_durable db)\<lparr>outbox := filter (\<lambda>r. \<not> published_before (pg_time (time_Add (rc_clkNow c (db_stmt db)) (- retention))) r) (outbox (db_durable db))\<rparr>"
proof -
  from assms obtain x db1 where x: "DeletePublishedBefore (time_Add (rc_clkNow c (db_stmt db)) (- retention)) db = (x, db1)" "db_durable db' = db_durable db1"
    by (auto simp: cleanup_def split: prod.splits sum.splits)
  then show ?thesis
    by (auto simp: DeletePublishedBefore_def wrapS_def mapErrS_def autocommit_def exec_def q_DeleteOutboxPublishedBefore_def
        set_work_def Let_def split: option.splits Fault.splits prod.splits sum.splits)
qed

lemma cleanup_effect:
  assumes "cleanup c db = (r, db')"
  shows "unpublished (db_durable db') = unpublished (db_durable db)
    \<and> (\<forall>row\<in>set (outbox (db_durable db)). row \<in> set (outbox (db_durable db')) \<or>
        (\<exists>t. ob_PublishedAt row = Some t \<and> nanos t < nanos (rc_clkNow c (db_stmt db)) - 7 * 24 * 60 * 60 * 10 ^ 9))"
proof -
  let ?cut = "time_Add (rc_clkNow c (db_stmt db)) (- retention)"
  note d = cleanup_tables [OF assms]
  have u: "filter (\<lambda>r. ob_PublishedAt r = None) (filter (\<lambda>r. \<not> published_before t r) xs) = filter (\<lambda>r. ob_PublishedAt r = None) xs" for t xs
    by (induction xs) (auto simp: published_before_def)
  have "nanos (pg_time ?cut) \<le> nanos (rc_clkNow c (db_stmt db)) - 7 * 24 * 60 * 60 * 10 ^ 9"
    unfolding pg_time_def time_Add_def retention_def duration_defs by simp
  then have "nanos t < nanos (rc_clkNow c (db_stmt db)) - 7 * 24 * 60 * 60 * 10 ^ 9" if "t < pg_time ?cut" for t
    using that unfolding less_Time_def by linarith
  note old = this
  from d show ?thesis
  proof
    assume "db_durable db' = db_durable db"
    then show ?thesis by simp
  next
    assume T: "db_durable db' = (db_durable db)\<lparr>outbox := filter (\<lambda>r. \<not> published_before (pg_time ?cut) r) (outbox (db_durable db))\<rparr>"
    have "unpublished (db_durable db') = unpublished (db_durable db)"
      using u by (simp add: unpublished_def T del: filter_filter)
    moreover have "row \<in> set (outbox (db_durable db')) \<or> (\<exists>t. ob_PublishedAt row = Some t \<and> t < pg_time ?cut)"
      if "row \<in> set (outbox (db_durable db))" for row
      using that by (auto simp: T published_before_def split: option.splits)
    ultimately show ?thesis using old by blast
  qed
qed

text \<open>
  Cleaning up deletes only what was published long ago. Whatever fails, a run of \<open>cleanup\<close> leaves
  the unpublished rows as they are, and every row it deletes was published more than seven days before
  the time the clock showed.
\<close>

theorem cleanup_retention:
  assumes "cleanup c db = (r, db')"
  shows "unpublished (db_durable db') = unpublished (db_durable db)
    \<and> (\<forall>row\<in>set (outbox (db_durable db)). row \<in> set (outbox (db_durable db')) \<or>
        (\<exists>t. ob_PublishedAt row = Some t \<and> nanos t < nanos (rc_clkNow c (db_stmt db)) - 7 * 24 * 60 * 60 * 10 ^ 9))"
  by (rule cleanup_effect [OF assms])

lemma cleanup_retention_witness:
  "unpublished (db_durable (snd (cleanup \<lparr>rc_batch = 1, rc_ctxErr = (\<lambda>_. False), rc_clkNow = (\<lambda>_. Time 5)\<rparr> (fst demo_outbox))))
     = unpublished (db_durable (fst demo_outbox))"
  using cleanup_retention [OF prod.collapse [symmetric]] by blast


lemma drain_published_on_bus:
  assumes "drain c (traced busPublish) s = Some (r, s')" "published_on_bus (db_durable (fst s)) (snd (snd s))"
  shows "published_on_bus (db_durable (fst s')) (snd (snd s'))"
proof -
  let ?P = "PublishPending (rc_batch c) (\<lambda>m. traced busPublish (relayEvent m))"
  from assms(1) obtain x s1 where x: "drainLoop ?P (\<lambda>s. rc_ctxErr c (db_stmt (fst s))) (rc_batch c) s = Some (x, s1)"
    "s' = s1 \<or> (\<exists>b. observeBacklog c s1 = (b, s'))"
    unfolding drain_def by (auto split: option.splits sum.splits bool.splits)
  have "published_on_bus (db_durable (fst s1)) (snd (snd s1))"
    using drainLoop_preserves [where P = "\<lambda>s. published_on_bus (db_durable (fst s)) (snd (snd s))", OF _ x(1) assms(2)]
      PublishPending_keeps_published by blast
  then show ?thesis using x(2) observeBacklog_effect by metis
qed

lemma cleanup_published_on_bus:
  assumes "cleanup c db = (r, db')" "published_on_bus (db_durable db) l"
  shows "published_on_bus (db_durable db') l"
  using cleanup_tables [OF assms(1)] assms(2)
  by (auto simp: published_on_bus_def ids_distinct_def distinct_map_filter)

lemma drain_returns: "0 < rc_batch c \<Longrightarrow> ids_distinct (db_durable (fst s)) \<Longrightarrow> \<exists>r s'. drain c (traced busPublish) s = Some (r, s')"
  using pg.drain_ends [of "rc_batch c" s busPublish "\<lambda>s. rc_ctxErr c (db_stmt (fst s))"]
  by (auto simp: drain_def relay_invar_def split: sum.splits bool.splits) (metis prod.exhaust)

lemma relayLoop_safe:
  assumes "0 < rc_batch c" "published_on_bus (db_durable (fst s)) (snd (snd s))"
  shows "\<exists>r s'. relayLoop c (traced busPublish) ts s = Some (r, s') \<and> published_on_bus (db_durable (fst s')) (snd (snd s'))"
  using assms(2)
proof (induction ts arbitrary: s)
  case Nil
  then show ?case by simp
next
  case (Cons t ts)
  show ?case
  proof (cases t)
    case CtxDone
    with Cons.prems show ?thesis by simp
  next
    case TickerFired
    obtain r s1 where 1: "drain c (traced busPublish) s = Some (r, s1)"
      using drain_returns [OF assms(1)] Cons.prems unfolding published_on_bus_def by blast
    from drain_published_on_bus [OF 1 Cons.prems] Cons.IH [of s1] show ?thesis
      by (cases r) (auto simp: TickerFired 1)
  next
    case CleanupFired
    obtain r db1 where 1: "cleanup c (fst s) = (r, db1)" by (rule prod.exhaust)
    from cleanup_published_on_bus [OF 1 Cons.prems] Cons.IH [of "(db1, snd s)"] show ?thesis
      by (cases r) (auto simp: CleanupFired onDB_def 1)
  qed
qed

text \<open>
  The relay as a whole is safe and never hangs. For a positive batch size, every sequence of ticks,
  every pattern of faults and every bus, \<open>Run\<close> processes the ticks and returns, and afterwards row IDs are
  still unique and every row with a publication time has had its event put on the bus, provided that held
  at the start.
\<close>

theorem relayRun_safe:
  assumes "0 < rc_batch c" and "published_on_bus (db_durable (fst s)) (snd (snd s))"
  shows "\<exists>r s'. relayRun c (traced busPublish) ts s = Some (r, s') \<and> published_on_bus (db_durable (fst s')) (snd (snd s'))"
proof -
  obtain r s1 where 1: "drain c (traced busPublish) s = Some (r, s1)"
    using drain_returns [OF assms(1)] assms(2) unfolding published_on_bus_def by blast
  from drain_published_on_bus [OF 1 assms(2)] relayLoop_safe [OF assms(1), of s1] show ?thesis
    by (cases r) (auto simp: relayRun_def 1)
qed

lemma relayRun_safe_witness:
  "\<exists>r s'. relayRun \<lparr>rc_batch = 1, rc_ctxErr = (\<lambda>_. False), rc_clkNow = (\<lambda>_. Time 5)\<rparr> (traced Publish)
      [TickerFired, CleanupFired, CtxDone] demo_outbox = Some (r, s')
    \<and> published_on_bus (db_durable (fst s')) (snd (snd s'))"
  by (rule relayRun_safe) (simp_all add: published_on_bus_def demo_outbox_defs)

end
