(* ===== verification/Store_Reach.thy ===== *)
theory Store_Reach
  imports Store_Safety Outbox
begin

section \<open>The databases the stores can produce\<close>

text \<open>
  Every call of the stores is classified by what it does to the durable tables, whatever faults
  strike, and preserves the invariants; so every reachable database satisfies them. The properties
  of the stored orders and of the ledger are read off the invariants here.
\<close>

subsection \<open>Invariants under small changes\<close>

lemma store_inv_cong:
  assumes "order_tables T = order_tables T'" "ledger_tables T = ledger_tables T'"
  shows "store_inv T q = store_inv T' q"
proof -
  have e: "orders T = orders T'" "order_transitions T = order_transitions T'" "fills T = fills T'" "lots T = lots T'"
    "lot_closures T = lot_closures T'" "unmatched_sells T = unmatched_sells T'"
    using assms by (simp_all add: order_tables_def ledger_tables_def)
  have f: "find_order cid T = find_order cid T'" for cid by (simp add: find_order_def e)
  show ?thesis
    by (simp add: store_inv_def orders_inv_def trail_inv_def fills_inv_def lots_inv_def posted_inv_def posted_def balance_inv_def
        order_ids_def fill_ids_def lot_ids_def transitions_of_def filled_by_def closed_of_def unmatched_of_def closed_lot_def
        held_def unmatched_total_def traded_def fill_in_def e f)
qed

lemma store_inv_seq: "store_inv T q \<Longrightarrow> seq_le q q' \<Longrightarrow> store_inv T q'"
  by (fastforce simp: store_inv_def fills_inv_def seq_le_def)

text \<open>
  Rewriting order rows without touching their identity, side, inventory, status or filled quantity
  keeps every invariant: stamping a cancel request and adopting a venue ID are such updates.
\<close>

lemma store_inv_relabel:
  assumes "store_inv T q" "orders T' = update_where P g (orders T)"
    and g: "\<And>w. o_ClientOrderID (g w) = o_ClientOrderID w" "\<And>w. o_Side (g w) = o_Side w"
      "\<And>w. order_inventory (g w) = order_inventory w" "\<And>w. row_state (g w) = row_state w"
    and "order_transitions T' = order_transitions T" "fills T' = fills T" "ledger_tables T' = ledger_tables T"
  shows "store_inv T' q"
proof -
  have e: "order_transitions T' = order_transitions T" "fills T' = fills T" "lots T' = lots T"
    "lot_closures T' = lot_closures T" "unmatched_sells T' = unmatched_sells T"
    using assms by (simp_all add: ledger_tables_def)
  have rows: "\<exists>y\<in>set (orders T). o_ClientOrderID y = o_ClientOrderID w \<and> o_Side y = o_Side w
      \<and> order_inventory y = order_inventory w \<and> row_state y = row_state w" if "w \<in> set (orders T')" for w
    using that by (auto simp: assms(2) update_where_def g)
  note ids = order_ids_update_where [OF g(1) assms(2)]
  have st: "o_Status y = o_Status w \<and> o_FilledQty y = o_FilledQty w" if "row_state y = row_state w" for y w
    using that by (simp add: row_state_def)
  have fi: "fill_in T' side k = fill_in T side k" for side k
  proof
    fix f
    have "find (\<lambda>w. o_ClientOrderID w = cid) (update_where P g xs) =
        map_option (\<lambda>w. if P w then g w else w) (find (\<lambda>w. o_ClientOrderID w = cid) xs)" for cid xs
      by (induction xs) (auto simp: update_where_def g)
    then show "fill_in T' side k f = fill_in T side k f"
      by (auto simp: fill_in_def find_order_def assms(2) g split: option.splits)
  qed
  have same: "transitions_of T' = transitions_of T" "filled_by T' = filled_by T" "fill_ids T' = fill_ids T"
    "lots_inv T' = lots_inv T" "balance_inv T' = balance_inv T"
    by (simp_all add: fun_eq_iff transitions_of_def filled_by_def fill_ids_def lots_inv_def lot_ids_def closed_lot_def
        balance_inv_def held_def traded_def unmatched_total_def fi e)
  have po: "posted T' f w = posted T f y" if "o_Side y = o_Side w" "order_inventory y = order_inventory w" for f w y
    using that by (simp add: posted_def closed_of_def unmatched_of_def e)
  have I: "orders_inv T" "trail_inv T" "fills_inv T q" "lots_inv T" "posted_inv T" "balance_inv T"
    using assms(1) by (simp_all add: store_inv_def)
  have "orders_inv T'"
    unfolding orders_inv_def ids(2)
  proof (intro conjI ballI)
    show "distinct (map o_ClientOrderID (orders T))" using I(1) by (simp add: orders_inv_def)
  next
    fix w assume "w \<in> set (orders T')"
    from rows [OF this] I(1) st show "known_status (o_Status w)" "o_Side w \<in> {Buy, Sell}"
      unfolding orders_inv_def by metis+
  qed
  moreover have "trail_inv T'"
    unfolding trail_inv_def same ids(1) e(1)
  proof (intro conjI ballI)
    fix w assume "w \<in> set (orders T')"
    from rows [OF this] I(2) show "replay new_state (transitions_of T (o_ClientOrderID w)) = Some (row_state w)"
      "map tr_Seq (transitions_of T (o_ClientOrderID w)) = map int [1..<Suc (length (transitions_of T (o_ClientOrderID w)))]"
      unfolding trail_inv_def by metis+
  qed (use I(2) in \<open>simp add: trail_inv_def\<close>)
  moreover have "fills_inv T' q"
    unfolding fills_inv_def same ids(1) e(2)
  proof (intro conjI ballI)
    fix w assume "w \<in> set (orders T')"
    from rows [OF this] I(3) st show "o_FilledQty w = filled_by T (o_ClientOrderID w)"
      unfolding fills_inv_def by metis
  qed (use I(3) in \<open>simp_all add: fills_inv_def\<close>)
  moreover have "posted_inv T'"
    unfolding posted_inv_def same e(2-5)
  proof (intro conjI ballI impI)
    fix f w assume "f \<in> set (fills T)" "w \<in> set (orders T')" "o_ClientOrderID w = fl_ClientOrderID f"
    with rows I(5) po show "posted T' f w" unfolding posted_inv_def by metis
  qed (use I(5) in \<open>simp_all add: posted_inv_def\<close>)
  ultimately show ?thesis using I same by (simp add: store_inv_def)
qed

subsection \<open>What a call of ApplyEvent does\<close>

definition grows :: "DB \<Rightarrow> DB \<Rightarrow> bool" where "grows db db' \<longleftrightarrow> seq_le (db_seq db) (db_seq db')"

lemma grows_order: "reflp grows" "transp grows"
  by (auto simp: grows_def reflp_def intro!: transpI intro: seq_le_trans)

lemma grows_frame: "keeps frame m \<Longrightarrow> keeps grows m"
  by (auto simp: keeps_def frame_def grows_def)

lemma grows_Tx: "keeps grows beginTx" "keeps grows commitTx"
  by (auto simp: keeps_def grows_def beginTx_def commitTx_def exec_def Let_def split: option.split Fault.split)

lemma grows_inTx:
  assumes "keeps grows body"
  shows "keeps grows (inTx w body)"
  unfolding keeps_def
proof
  fix db
  obtain r db1 where 1: "wrapS w beginTx db = (r, db1)" by (rule prod.exhaust)
  then have "grows db db1" using grows_Tx(1) by (metis keeps_wrap keepsD)
  moreover have "grows db1 (snd (body db1))" using assms by (simp add: keeps_def)
  ultimately show "grows db (snd (inTx w body db))"
    by (cases r) (auto simp: inTx_eq 1 grows_def rollbackTx_def intro: seq_le_trans)
qed

lemma ApplyEvent_grows: "keeps grows (ApplyEvent s source ev)"
  unfolding ApplyEvent_def applyEventTx_def
  by (auto intro!: grows_inTx keeps_bind [OF grows_order(2)] keeps_return [OF grows_order(1)] keeps_fail [OF grows_order(1)]
      grows_Tx frame_persistDecision [THEN grows_frame] frame_adopt [THEN grows_frame] frame_stmts_exec [THEN grows_frame]
      split: option.split sum.split)

definition drops :: "Decision \<Rightarrow> bool" where
  "drops d \<longleftrightarrow> \<not> d_Transition d \<and> \<not> 0 < d_FillDelta d"

definition dropped_result :: "Decision \<Rightarrow> ApplyResult" where
  "dropped_result d = \<lparr>ar_Decision = d, ar_Outcome = \<lparr>UnmatchedQty = 0\<rparr>, ar_FillConflict = False\<rparr>"

definition adopt :: "string \<Rightarrow> string \<Rightarrow> Time \<Rightarrow> Tables \<Rightarrow> Tables" where
  "adopt cid vid t T = T\<lparr>orders := update_where (\<lambda>w. o_ClientOrderID w = cid \<and> o_VenueOrderID w = None)
     (\<lambda>w. w\<lparr>o_VenueOrderID := Some vid, o_UpdatedAt := t\<rparr>) (orders T)\<rparr>"

lemma adoptVenueOrderID_cases:
  assumes "adoptVenueOrderID row vid db = (r, db')" and "find_order (o_ClientOrderID row) (db_work db) = Some row"
  obtains (no) "r = Inr False" "db' = db" "o_VenueOrderID row \<noteq> None \<or> vid = []"
    | (yes) t where "r = Inr True" "o_VenueOrderID row = None" "vid \<noteq> []"
        "db_work db' = adopt (o_ClientOrderID row) vid t (db_work db)"
    | (failed) e where "r = Inl e"
proof (cases "o_VenueOrderID row \<noteq> None \<or> vid = []")
  case True
  with assms show ?thesis by (intro no) (auto simp: adoptVenueOrderID_def)
next
  case False
  have f: "find (\<lambda>w. o_ClientOrderID w = c \<and> o_VenueOrderID w = None) xs \<noteq> None"
    if "find (\<lambda>w. o_ClientOrderID w = c) xs = Some row" "o_VenueOrderID row = None" for c xs
    using that by (induction xs) (auto split: if_splits)
  show ?thesis
  proof (cases r)
    case (Inl e)
    then show ?thesis by (rule failed)
  next
    case (Inr b)
    with assms(1) False obtain n where x: "exec (q_AdoptVenueOrderID (o_ClientOrderID row) (nullString vid)) db = (Inr n, db')" "b = True"
      by (auto simp: adoptVenueOrderID_def)
    then have "db_work db' = adopt (o_ClientOrderID row) vid (now db) (db_work db)"
      using f [of "o_ClientOrderID row" "orders (db_work db)"] assms(2) False
      by (auto simp: exec_Inr_iff q_AdoptVenueOrderID_def set_work_def adopt_def nullString_def find_order_def now_def
          split: option.splits if_splits)
    with Inr x False show ?thesis by (intro yes) auto
  qed
qed

lemma beginTx_Inr: "beginTx db = (Inr u, db') \<Longrightarrow> db_work db' = db_durable db \<and> db_durable db' = db_durable db \<and> db_seq db' = db_seq db"
  by (auto simp: beginTx_def exec_Inr_iff)

text \<open>
  The three outcomes of a call, whatever fails: the durable tables are untouched, only the venue's order
  ID was adopted, or the decision was persisted.
\<close>

lemma applyEventTx_cases:
  assumes "applyEventTx s source ev db = (r, db')" and "db_work db = T" "db_durable db = T"
  obtains (unchanged) "db_durable db' = T"
      "\<And>x. r = Inr x \<Longrightarrow> \<exists>row d. find_order (rf_ClientOrderID (ev_Ref ev)) T = Some row \<and> Transition (row_state row) ev = Inr d
        \<and> drops d \<and> x = dropped_result d \<and> (o_VenueOrderID row \<noteq> None \<or> rf_VenueOrderID (ev_Ref ev) = [])"
    | (adopted) row d t where "find_order (rf_ClientOrderID (ev_Ref ev)) T = Some row" "Transition (row_state row) ev = Inr d"
      "drops d" "o_VenueOrderID row = None" "rf_VenueOrderID (ev_Ref ev) \<noteq> []"
      "db_durable db' = adopt (rf_ClientOrderID (ev_Ref ev)) (rf_VenueOrderID (ev_Ref ev)) t T"
      "\<And>x. r = Inr x \<Longrightarrow> x = dropped_result d"
    | (persisted) row d res db1 db2 where "find_order (rf_ClientOrderID (ev_Ref ev)) T = Some row"
      "Transition (row_state row) ev = Inr d" "\<not> drops d"
      "persistDecision s row source ev d db1 = (Inr res, db2)" "db_work db1 = T" "db_seq db1 = db_seq db"
      "db_durable db' = db_work db2" "db_seq db' = db_seq db2" "\<And>x. r = Inr x \<Longrightarrow> x = res"
proof -
  let ?cid = "rf_ClientOrderID (ev_Ref ev)" and ?vid = "rf_VenueOrderID (ev_Ref ev)"
  obtain y db1 where 1: "exec (q_GetOrderForUpdate ?cid) db = (y, db1)" by (rule prod.exhaust)
  then have db1: "db_work db1 = T" "db_durable db1 = T" "db_seq db1 = db_seq db"
    "\<And>q. y = Inr q \<Longrightarrow> q = find_order ?cid T"
    using assms(2,3) by (auto simp: exec_def q_GetOrderForUpdate_def Let_def split: option.splits Fault.splits)
  show thesis
  proof (cases "\<exists>row d. y = Inr (Some row) \<and> Transition (row_state row) ev = Inr d")
    case False
    then have "\<exists>e. r = Inl e \<and> db' = db1"
      using assms(1) 1 by (auto simp: applyEventTx_def bindS_def wrapS_def mapErrS_def failS_def row_state_def
          split: sum.splits option.splits)
    with db1 show thesis by (intro unchanged) auto
  next
    case True
    then obtain row d where row: "y = Inr (Some row)" and d: "Transition (row_state row) ev = Inr d" by blast
    have find: "find_order ?cid T = Some row" using db1(4) row by simp
    then have cid: "o_ClientOrderID row = ?cid" by (auto simp: find_order_def find_Some_iff)
    have run: "(if drops d then
           bindS (adoptVenueOrderID row ?vid) (\<lambda>adopted.
           bindS (if adopted then wrapS ''postgres: commit apply event'' commitTx else returnS ())
             (\<lambda>_. returnS (dropped_result d)))
         else bindS (persistDecision s row source ev d) (\<lambda>result.
           bindS (wrapS ''postgres: commit apply event'' commitTx) (\<lambda>_. returnS result))) db1 = (r, db')"
      using assms(1) 1 row d unfolding applyEventTx_def drops_def dropped_result_def row_state_def
      by (simp add: bindS_def wrapS_def mapErrS_def)
    show thesis
    proof (cases "drops d")
      case True
      obtain a db2 where 2: "adoptVenueOrderID row ?vid db1 = (a, db2)" by (rule prod.exhaust)
      have d2: "db_durable db2 = T" using keepsD [OF frame_adopt 2] db1(2) by (simp add: frame_def)
      have f1: "find_order (o_ClientOrderID row) (db_work db1) = Some row" using find cid db1(1) by simp
      from 2 f1 show thesis
      proof (cases rule: adoptVenueOrderID_cases)
        case no
        with run True 2 have "r = Inr (dropped_result d)" "db' = db1" by (auto simp: bindS_def returnS_def)
        with no True find d db1(2) show thesis by (intro unchanged) auto
      next
        case (failed e)
        with run True 2 have "r = Inl e" "db' = db2" by (auto simp: bindS_def)
        with d2 show thesis by (intro unchanged) auto
      next
        case (yes t)
        obtain q db3 where 3: "commitTx db2 = (q, db3)" by (rule prod.exhaust)
        have db': "db' = db3" and r: "r = (case q of Inl e \<Rightarrow> Inl (wrap ''postgres: commit apply event'' e) | Inr _ \<Rightarrow> Inr (dropped_result d))"
          using run True 2 yes(1) 3 by (cases q; simp add: bindS_def wrapS_def mapErrS_def returnS_def)+
        show thesis
        proof (cases "db_durable db3 = db_work db2")
          case True
          with \<open>drops d\<close> yes find d db1(1) r db' cid show thesis by (intro adopted [of row d t]) (auto split: sum.splits)
        next
          case False
          with commitTx_cases [OF 3] have "db_durable db3 = T" "q \<noteq> Inr ()" using d2 by auto
          with r db' show thesis by (intro unchanged) (auto split: sum.splits)
        qed
      qed
    next
      case False
      obtain a db2 where 2: "persistDecision s row source ev d db1 = (a, db2)" by (rule prod.exhaust)
      have d2: "db_durable db2 = T" using keepsD [OF frame_persistDecision 2] db1(2) by (simp add: frame_def)
      show thesis
      proof (cases a)
        case (Inl e)
        with run False 2 have "r = Inl e" "db' = db2" by (auto simp: bindS_def)
        with d2 show thesis by (intro unchanged) auto
      next
        case (Inr res)
        obtain q db3 where 3: "commitTx db2 = (q, db3)" by (rule prod.exhaust)
        have db': "db' = db3" and r: "r = (case q of Inl e \<Rightarrow> Inl (wrap ''postgres: commit apply event'' e) | Inr _ \<Rightarrow> Inr res)"
          using run False 2 Inr 3 by (cases q; simp add: bindS_def wrapS_def mapErrS_def returnS_def)+
        show thesis
        proof (cases "db_durable db3 = db_work db2")
          case True
          with False find d 2 Inr db1 commitTx_cases [OF 3] r db' show thesis
            by (intro persisted [of row d db1 res db2]) (auto split: sum.splits)
        next
          case False
          with commitTx_cases [OF 3] have "db_durable db3 = T" "q \<noteq> Inr ()" using d2 by auto
          with r db' show thesis by (intro unchanged) (auto split: sum.splits)
        qed
      qed
    qed
  qed
qed

lemma ApplyEvent_cases:
  assumes "ApplyEvent s source ev db = (r, db')"
  obtains (unchanged) "db_durable db' = db_durable db"
      "\<And>x. r = Inr x \<Longrightarrow> \<exists>row d. find_order (rf_ClientOrderID (ev_Ref ev)) (db_durable db) = Some row
        \<and> Transition (row_state row) ev = Inr d \<and> drops d \<and> x = dropped_result d
        \<and> (o_VenueOrderID row \<noteq> None \<or> rf_VenueOrderID (ev_Ref ev) = [])"
    | (adopted) row d t where "find_order (rf_ClientOrderID (ev_Ref ev)) (db_durable db) = Some row"
      "Transition (row_state row) ev = Inr d" "drops d" "o_VenueOrderID row = None" "rf_VenueOrderID (ev_Ref ev) \<noteq> []"
      "db_durable db' = adopt (rf_ClientOrderID (ev_Ref ev)) (rf_VenueOrderID (ev_Ref ev)) t (db_durable db)"
      "\<And>x. r = Inr x \<Longrightarrow> x = dropped_result d"
    | (persisted) row d res db1 db2 where "find_order (rf_ClientOrderID (ev_Ref ev)) (db_durable db) = Some row"
      "Transition (row_state row) ev = Inr d" "\<not> drops d"
      "persistDecision s row source ev d db1 = (Inr res, db2)" "db_work db1 = db_durable db" "db_seq db1 = db_seq db"
      "db_durable db' = db_work db2" "db_seq db' = db_seq db2" "\<And>x. r = Inr x \<Longrightarrow> x = res"
proof -
  obtain b db0 where 0: "wrapS ''postgres: begin apply event'' beginTx db = (b, db0)" by (rule prod.exhaust)
  show thesis
  proof (cases b)
    case (Inl e)
    then have "db_durable db0 = db_durable db" using 0 beginTx_durable [of db] by (metis snd_conv snd_wrapS)
    with Inl 0 assms show thesis by (intro unchanged) (auto simp: ApplyEvent_def inTx_def)
  next
    case (Inr u)
    with 0 have w: "db_work db0 = db_durable db" "db_durable db0 = db_durable db" "db_seq db0 = db_seq db"
      using beginTx_Inr by auto
    obtain x db1 where 1: "applyEventTx s source ev db0 = (x, db1)" by (rule prod.exhaust)
    have r: "r = x" "db_durable db' = db_durable db1" "db_seq db' = db_seq db1"
      using assms 0 Inr 1 by (auto simp: ApplyEvent_def inTx_def rollbackTx_def)
    from 1 w(1,2) show thesis
    proof (cases rule: applyEventTx_cases)
      case unchanged
      with r show thesis by (intro that(1)) auto
    next
      case (adopted row d t)
      with r show thesis by (intro that(2) [of row d t]) auto
    next
      case (persisted row d res dba dbb)
      with r w show thesis by (intro that(3) [of row d dba res dbb]) auto
    qed
  qed
qed

lemma store_inv_adopt: "store_inv T q \<Longrightarrow> store_inv (adopt cid vid t T) q"
  by (rule store_inv_relabel [where P = "\<lambda>w. o_ClientOrderID w = cid \<and> o_VenueOrderID w = None"
        and g = "\<lambda>w. w\<lparr>o_VenueOrderID := Some vid, o_UpdatedAt := t\<rparr>"])
    (simp_all add: adopt_def order_inventory_def row_state_def ledger_tables_def)

lemma find_order_row: "find_order cid T = Some row \<Longrightarrow> o_ClientOrderID row = cid"
  by (auto simp: find_order_def find_Some_iff)

context lot_selector
begin

lemma ApplyEvent_applies:
  assumes "persistDecision s row source ev d db1 = (Inr res, db2)" "selector s = Select"
    "store_inv (db_work db1) q" "find_order cid (db_work db1) = Some row" "Transition (row_state row) ev = Inr d"
  shows "applies row d (rf_VenueOrderID (ev_Ref ev)) (seq_fills (db_seq db1)) (seq_fills (db_seq db2)) (db_work db1) (db_work db2)"
    "ar_Decision res = d"
  using persistDecision_applies [OF assms(1,2)] assms(3,4) find_order_row [OF assms(4)] by (auto simp: store_inv_def)

lemma ApplyEvent_store_inv:
  assumes "ApplyEvent s source ev db = (r, db')" "selector s = Select" "store_inv (db_durable db) (db_seq db)"
  shows "store_inv (db_durable db') (db_seq db')"
proof -
  have g: "seq_le (db_seq db) (db_seq db')" using keepsD [OF ApplyEvent_grows assms(1)] by (simp add: grows_def)
  from assms(1) show ?thesis
  proof (cases rule: ApplyEvent_cases)
    case unchanged
    with assms(3) g show ?thesis by (simp add: store_inv_seq)
  next
    case (adopted row d t)
    with assms(3) g show ?thesis by (simp add: store_inv_seq store_inv_adopt)
  next
    case (persisted row d res db1 db2)
    have a: "applies row d (rf_VenueOrderID (ev_Ref ev)) (seq_fills (db_seq db)) (seq_fills (db_seq db')) (db_durable db) (db_durable db')"
      using ApplyEvent_applies(1) [OF persisted(4) assms(2), of "db_seq db"] persisted assms(3) by simp
    have "find_order (o_ClientOrderID row) (db_durable db) = Some row"
      using persisted(1) find_order_row by metis
    from applies_store_inv [OF a assms(3) this] Transition_Inr [OF persisted(2)] show ?thesis by blast
  qed
qed

end

subsection \<open>The other operations\<close>

lemma frame_stmts_auto:
  "keeps frame (InsertPendingOrder cid venue base quote symbol side typ price qty botID)"
  "keeps frame (q_GetOrder cid)" "keeps frame (q_ListActiveOrders venue)"
  "keeps frame (q_ListOrders ven statuses bid cursorAt cursorID n)"
  "keeps frame (q_MarkCancelRequested cid ts)" "keeps frame (q_DeleteOutboxPublishedBefore ts)"
  "keeps frame q_OutboxUnpublishedStats"
  by (auto simp: keeps_def frame_def seq_le_def stmt_defs set_work_def Let_def)

lemma autocommit_cases:
  assumes "autocommit q db = (r, db')" "keeps frame q"
  obtains (unchanged) "db_durable db' = db_durable db" "seq_le (db_seq db) (db_seq db')"
      "\<And>y. r = Inr y \<Longrightarrow> False"
    | (ran) x db1 db2 where "db_work db1 = db_durable db" "db_seq db1 = db_seq db" "q db1 = (Inr x, db2)"
      "db_durable db' = db_work db2" "db_seq db' = db_seq db2" "\<And>y. r = Inr y \<Longrightarrow> y = x"
proof -
  let ?db0 = "db\<lparr>db_stmt := Suc (db_stmt db)\<rparr>"
  let ?db1 = "?db0\<lparr>db_work := db_durable db, db_tx := Suc (db_tx db)\<rparr>"
  obtain x db2 where x: "q ?db1 = (x, db2)" by (rule prod.exhaust)
  have f: "db_durable db2 = db_durable db" "seq_le (db_seq db) (db_seq db2)"
    using keepsD [OF assms(2) x] by (simp_all add: frame_def)
  consider (before) e where "r = Inl e" "db' = ?db0"
    | (fail) e where "r = Inl e" "x = Inl e" "db' = rollbackTx db2"
    | (after) e v where "r = Inl e" "x = Inl v" "db' = rollbackTx db2"
    | (ok) v where "x = Inr v" "db' = db2\<lparr>db_durable := db_work db2\<rparr>" "\<And>y. r = Inr y \<Longrightarrow> y = v"
    using assms(1) x by (cases x) (auto simp: autocommit_def exec_def Let_def split: option.splits Fault.splits)
  then show thesis
  proof cases
    case before
    then show thesis by (intro unchanged) auto
  next
    case fail
    with f show thesis by (intro unchanged) (auto simp: rollbackTx_def)
  next
    case after
    with f show thesis by (intro unchanged) (auto simp: rollbackTx_def)
  next
    case (ok v)
    with x show thesis by (intro ran [of ?db1 v db2]) auto
  qed
qed

lemma store_inv_new_order:
  assumes "store_inv T q" "find_order (o_ClientOrderID r) T = None" "row_state r = new_state" "o_Side r \<in> {Buy, Sell}"
  shows "store_inv (T\<lparr>orders := orders T @ [r]\<rparr>) q"
proof -
  let ?T = "T\<lparr>orders := orders T @ [r]\<rparr>"
  have I: "orders_inv T" "trail_inv T" "fills_inv T q" "lots_inv T" "posted_inv T" "balance_inv T"
    using assms(1) by (simp_all add: store_inv_def)
  have new: "o_ClientOrderID r \<notin> order_ids T"
    using assms(2) by (simp add: find_order_def find_key_None_iff order_ids_def)
  have tr: "transitions_of ?T = transitions_of T" "transitions_of T (o_ClientOrderID r) = []"
    using I(2) new by (auto simp: transitions_of_def trail_inv_def filter_empty_conv)
  have fb: "filled_by ?T = filled_by T" "filled_by T (o_ClientOrderID r) = 0"
    using I(3) new by (auto simp: filled_by_def fills_inv_def intro!: sum_list_if_none)
  have ids: "order_ids ?T = insert (o_ClientOrderID r) (order_ids T)" by (simp add: order_ids_def)
  have st: "o_Status r = StatusPending" "o_FilledQty r = 0" using assms(3) by (simp_all add: row_state_def new_state_def)
  have fo: "find_order cid ?T = find_order cid T" if "cid \<in> order_ids T" for cid
  proof -
    have "find P (xs @ ys) = (case find P xs of None \<Rightarrow> find P ys | Some x \<Rightarrow> Some x)" for P and xs ys :: "OrderRow list"
      by (induction xs) auto
    moreover have "find_order cid T \<noteq> None" using that by (simp add: find_order_def find_key_None_iff order_ids_def)
    ultimately show ?thesis by (auto simp: find_order_def)
  qed
  have "fill_in ?T side k f = fill_in T side k f" if "f \<in> set (fills T)" for side k f
    using I(3) that fo by (simp add: fill_in_def fills_inv_def)
  then have td: "traded ?T side k = traded T side k" for side k
    unfolding traded_def by (simp cong: map_cong)
  have "orders_inv ?T" using I(1) assms(4) new st by (auto simp: orders_inv_def order_ids_def)
  moreover have "trail_inv ?T"
    using I(2) tr assms(3) by (auto simp: trail_inv_def ids)
  moreover have "fills_inv ?T q" using I(3) fb st by (auto simp: fills_inv_def ids)
  moreover have "lots_inv ?T" using I(4) by (simp add: lots_inv_def lot_ids_def closed_lot_def)
  moreover have "posted_inv ?T"
  proof -
    have "posted ?T = posted T" by (simp add: fun_eq_iff posted_def closed_of_def unmatched_of_def)
    moreover have "\<forall>f\<in>set (fills T). o_ClientOrderID r \<noteq> fl_ClientOrderID f"
      using I(3) new by (auto simp: fills_inv_def)
    ultimately show ?thesis using I(5) by (auto simp: posted_inv_def fill_ids_def)
  qed
  moreover have "balance_inv ?T"
    using I(6) unfolding balance_inv_def td by (simp add: held_def unmatched_total_def)
  ultimately show ?thesis by (simp add: store_inv_def)
qed

lemma autocommit_wrap_bind:
  assumes "bindS (wrapS w (autocommit m)) f db = (r, db')" "\<And>x s. snd (f x s) = s"
  shows "\<exists>x. autocommit m db = (x, db')"
proof -
  obtain x db1 where x: "autocommit m db = (x, db1)" by (rule prod.exhaust)
  with assms show ?thesis
    by (cases x) (auto simp: bindS_def wrapS_def mapErrS_def, metis snd_conv)
qed

lemma CreatePending_store_inv:
  assumes "CreatePending req db = (r, db')" "store_inv (db_durable db) (db_seq db)"
  shows "store_inv (db_durable db') (db_seq db')"
proof -
  from assms(1) obtain x where x: "autocommit (InsertPendingOrder (rq_ClientOrderID req)
      (i_Venue (rq_Instrument req)) (i_Base (rq_Instrument req)) (i_Quote (rq_Instrument req))
      (i_VenueSymbol (rq_Instrument req)) (rq_Side req) (rq_Type req) (rq_Price req) (rq_Qty req) (rq_BotID req)) db = (x, db')"
    using autocommit_wrap_bind [OF assms(1) [unfolded CreatePending_def]] by (auto simp: returnS_def)
  from x frame_stmts_auto(1) show ?thesis
  proof (cases rule: autocommit_cases)
    case unchanged
    with assms(2) show ?thesis by (simp add: store_inv_seq)
  next
    case (ran v db1 db2)
    have "db_work db2 = db_work db1 \<or> (\<exists>r. db_work db2 = (db_work db1)\<lparr>orders := orders (db_work db1) @ [r]\<rparr>
        \<and> find_order (o_ClientOrderID r) (db_work db1) = None \<and> row_state r = new_state \<and> o_Side r \<in> {Buy, Sell})"
      "db_seq db2 = db_seq db1"
      using ran(3) by (auto simp: InsertPendingOrder_def set_work_def row_state_def new_state_def StatusPending_def
          Buy_def Sell_def split: if_splits)
    with ran assms(2) show ?thesis by (auto intro: store_inv_new_order)
  qed
qed

lemma MarkCancelRequested_store_inv:
  assumes "MarkCancelRequested cid ts db = (r, db')" "store_inv (db_durable db) (db_seq db)"
  shows "store_inv (db_durable db') (db_seq db')"
proof -
  from assms(1) obtain x where x: "autocommit (q_MarkCancelRequested cid ts) db = (x, db')"
    using autocommit_wrap_bind [OF assms(1) [unfolded MarkCancelRequested_def]] by (auto simp: returnS_def failS_def)
  from x frame_stmts_auto(5) show ?thesis
  proof (cases rule: autocommit_cases)
    case unchanged
    with assms(2) show ?thesis by (simp add: store_inv_seq)
  next
    case (ran v db1 db2)
    let ?g = "\<lambda>w. w\<lparr>o_CancelRequestedAt := (case o_CancelRequestedAt w of None \<Rightarrow> Some (pg_time ts) | Some t \<Rightarrow> Some t),
        o_UpdatedAt := now db1\<rparr>"
    have "store_inv (db_work db2) (db_seq db)"
      by (rule store_inv_relabel [OF assms(2), where P = "\<lambda>w. o_ClientOrderID w = cid" and g = ?g])
        (use ran in \<open>auto simp: q_MarkCancelRequested_def set_work_def order_inventory_def row_state_def ledger_tables_def\<close>)
    with ran show ?thesis by (auto simp: q_MarkCancelRequested_def set_work_def)
  qed
qed

lemma PublishPending_seq:
  assumes "PublishPending n (\<lambda>m. traced busPublish (relayEvent m)) s = (r, s')"
  shows "seq_le (db_seq (fst s)) (db_seq (fst s'))"
proof -
  let ?R = "\<lambda>s s'. grows (fst s) (fst s')"
  have R: "reflp ?R" "transp ?R" using grows_order by (auto simp: reflp_def transp_def)
  have db: "keeps grows m \<Longrightarrow> keeps ?R (onDB m)" for m
    unfolding keeps_def onDB_def by (auto split: prod.splits) (metis snd_conv)
  have bus: "keeps ?R (onBus m)" for m
    using R(1) unfolding keeps_def onBus_def by (auto simp: reflp_def split: prod.splits)
  have k2: "keeps ?R (publishPendingTx n (\<lambda>m. traced busPublish (relayEvent m)))"
    unfolding publishPendingTx_def
    by (auto intro!: keeps_bind [OF R(2)] keeps_return [OF R(1)] keeps_for [OF R] db bus grows_Tx
        frame_stmts_exec [THEN grows_frame])
  have k1: "keeps ?R (wrapS ''postgres: begin outbox publish'' (onDB beginTx))" by (auto intro: db grows_Tx)
  obtain b s1 where 1: "wrapS ''postgres: begin outbox publish'' (onDB beginTx) s = (b, s1)" by (rule prod.exhaust)
  obtain x s2 where 2: "publishPendingTx n (\<lambda>m. traced busPublish (relayEvent m)) s1 = (x, s2)" by (rule prod.exhaust)
  have "?R s s1" "?R s1 s2" using keepsD [OF k1 1] keepsD [OF k2 2] by simp_all
  then show ?thesis
    using assms 1 2 by (cases b) (auto simp: PublishPending_def grows_def rollbackTx_def intro: seq_le_trans split: prod.splits)
qed

lemma PublishPending_store_inv:
  assumes "PublishPending n (\<lambda>m. traced busPublish (relayEvent m)) s = (r, s')" "store_inv (db_durable (fst s)) (db_seq (fst s))"
  shows "store_inv (db_durable (fst s')) (db_seq (fst s'))"
proof -
  have "order_tables (db_durable (fst s')) = order_tables (db_durable (fst s))
      \<and> ledger_tables (db_durable (fst s')) = ledger_tables (db_durable (fst s))"
    using PublishPending_cases [OF assms(1)] by (auto simp: published_or_not_def order_tables_def ledger_tables_def)
  then show ?thesis
    using store_inv_cong assms(2) store_inv_seq PublishPending_seq [OF assms(1)] by blast
qed

lemma autocommit_read_inv:
  assumes "autocommit q db = (r, db')" "keeps frame q" "store_inv (db_durable db) (db_seq db)"
    "\<And>db1 x db2. q db1 = (Inr x, db2) \<Longrightarrow> order_tables (db_work db2) = order_tables (db_work db1)
      \<and> ledger_tables (db_work db2) = ledger_tables (db_work db1) \<and> seq_le (db_seq db1) (db_seq db2)"
  shows "store_inv (db_durable db') (db_seq db')"
  using assms(1,2)
proof (cases rule: autocommit_cases)
  case unchanged
  with assms(3) show ?thesis by (simp add: store_inv_seq)
next
  case (ran x db1 db2)
  with assms(4) [OF ran(3)] assms(3) show ?thesis using store_inv_cong store_inv_seq by metis
qed

subsection \<open>Reachable databases\<close>

text \<open>
  The databases the daemon can produce from an empty one: any sequence of calls of the stores, by
  whichever services make them, with any arguments and under any pattern of faults and clock readings.
\<close>

inductive store_reach :: "DB \<Rightarrow> bool" where
  empty: "store_reach (new_db faults clock)"
| create: "store_reach db \<Longrightarrow> CreatePending req db = (r1, db') \<Longrightarrow> store_reach db'"
| apply_event: "store_reach db \<Longrightarrow> selector s = FIFO_Select \<Longrightarrow> ApplyEvent s source ev db = (r2, db') \<Longrightarrow> store_reach db'"
| mark_cancel: "store_reach db \<Longrightarrow> MarkCancelRequested cid ts db = (r3, db') \<Longrightarrow> store_reach db'"
| get: "store_reach db \<Longrightarrow> GetOrder cid db = (r4, db') \<Longrightarrow> store_reach db'"
| list_active: "store_reach db \<Longrightarrow> ListActiveOrders venue db = (r5, db') \<Longrightarrow> store_reach db'"
| list_page: "store_reach db \<Longrightarrow> ListOrders query db = (r6, db') \<Longrightarrow> store_reach db'"
| publish: "store_reach db \<Longrightarrow> PublishPending n (\<lambda>m. traced Publish (relayEvent m)) (db, b, l) = (r7, (db', w)) \<Longrightarrow> store_reach db'"
| delete: "store_reach db \<Longrightarrow> DeletePublishedBefore ts db = (r8, db') \<Longrightarrow> store_reach db'"
| stats: "store_reach db \<Longrightarrow> UnpublishedStats db = (r9, db') \<Longrightarrow> store_reach db'"

lemma store_inv_empty: "store_inv no_tables q"
  by (simp add: store_inv_def orders_inv_def trail_inv_def fills_inv_def lots_inv_def posted_inv_def balance_inv_def
      no_tables_def held_def traded_def unmatched_total_def)

lemma snd_return [simp]: "snd (returnS x s) = s" "snd (failS e s) = s"
  by (simp_all add: returnS_def failS_def)

lemma store_reach_inv: "store_reach db \<Longrightarrow> store_inv (db_durable db) (db_seq db)"
proof (induction rule: store_reach.induct)
  case (empty faults clock)
  then show ?case by (simp add: new_db_def store_inv_empty)
next
  case (create db req r1 db')
  then show ?case by (blast intro: CreatePending_store_inv)
next
  case (apply_event db s source ev r2 db')
  then show ?case by (blast intro: fifo.ApplyEvent_store_inv)
next
  case (mark_cancel db cid ts r3 db')
  then show ?case by (blast intro: MarkCancelRequested_store_inv)
next
  case (get db cid r4 db')
  then obtain x where "autocommit (q_GetOrder cid) db = (x, db')"
    using autocommit_wrap_bind [OF get.hyps(2) [unfolded GetOrder_def]] by (auto split: option.split)
  from autocommit_read_inv [OF this frame_stmts_auto(2) get.IH] show ?case by (auto simp: q_GetOrder_def)
next
  case (list_active db venue r5 db')
  then obtain x where "autocommit (q_ListActiveOrders venue) db = (x, db')"
    using autocommit_wrap_bind [OF list_active.hyps(2) [unfolded ListActiveOrders_def]] by auto
  from autocommit_read_inv [OF this frame_stmts_auto(3) list_active.IH] show ?case by (auto simp: q_ListActiveOrders_def)
next
  case (list_page db query r6 db')
  from autocommit_wrap_bind [OF list_page.hyps(2) [unfolded ListOrders_def]] obtain x where
    "autocommit (q_ListOrders (q_Venue query) (if q_Statuses query = [] then None else Some (q_Statuses query)) (q_BotID query)
      (map_option pg_time (q_CursorCreatedAt query)) (q_CursorID query) (wrap64 (q_Limit query + 1))) db = (x, db')" by auto
  then show ?case
    by (rule autocommit_read_inv [OF _ frame_stmts_auto(4) list_page.IH]) (auto simp: q_ListOrders_def split: if_splits)
next
  case (publish db n b l r7 db' w)
  from PublishPending_store_inv [OF publish.hyps(2)] publish.IH show ?case by simp
next
  case (delete db ts r8 db')
  then obtain x where "autocommit (q_DeleteOutboxPublishedBefore ts) db = (x, db')"
    by (auto simp: DeletePublishedBefore_def wrapS_def mapErrS_def split: prod.splits sum.splits)
  from autocommit_read_inv [OF this frame_stmts_auto(6) delete.IH] show ?case
    by (auto simp: q_DeleteOutboxPublishedBefore_def set_work_def order_tables_def ledger_tables_def)
next
  case (stats db r9 db')
  then obtain x where "autocommit q_OutboxUnpublishedStats db = (x, db')"
    by (auto simp: UnpublishedStats_def wrapS_def mapErrS_def split: prod.splits sum.splits)
  from autocommit_read_inv [OF this frame_stmts_auto(7) stats.IH] show ?case
    by (auto simp: q_OutboxUnpublishedStats_def Let_def)
qed

subsection \<open>The order row after a call\<close>

lemma find_update_where_P:
  assumes "\<And>w. o_ClientOrderID (g w) = o_ClientOrderID w"
  shows "find (\<lambda>w. o_ClientOrderID w = cid) (update_where P g xs) =
    map_option (\<lambda>w. if P w then g w else w) (find (\<lambda>w. o_ClientOrderID w = cid) xs)"
  using assms by (induction xs) (auto simp: update_where_def)

lemma applies_find:
  assumes "applies row d v n n' T T'" "find_order (o_ClientOrderID row) T = Some row"
  shows "\<exists>row'. find_order (o_ClientOrderID row) T' = Some row' \<and> row_state row' = apply_decision (row_state row) d
      \<and> o_VenueOrderID row' = coalesce (o_VenueOrderID row) (nullString v)"
    and "cid \<noteq> o_ClientOrderID row \<Longrightarrow> find_order cid T' = find_order cid T"
proof -
  from assms(1) obtain g where g: "orders T' = update_where (\<lambda>w. o_ClientOrderID w = o_ClientOrderID row) g (orders T)"
    "\<forall>w. o_ClientOrderID (g w) = o_ClientOrderID w \<and> o_VenueOrderID (g w) = coalesce (o_VenueOrderID w) (nullString v)
      \<and> row_state (g w) = \<lparr>st_Status = d_To d, st_FilledQty = o_FilledQty row + d_FillDelta d\<rparr>"
    unfolding applies_def by blast
  then have f: "find_order c T' = map_option (\<lambda>w. if o_ClientOrderID w = o_ClientOrderID row then g w else w) (find_order c T)" for c
    unfolding find_order_def g(1) by (intro find_update_where_P) simp
  show "\<exists>row'. find_order (o_ClientOrderID row) T' = Some row' \<and> row_state row' = apply_decision (row_state row) d
      \<and> o_VenueOrderID row' = coalesce (o_VenueOrderID row) (nullString v)"
    using f [of "o_ClientOrderID row"] assms(2) g(2) by (simp add: apply_decision_def row_state_def)
  show "find_order cid T' = find_order cid T" if "cid \<noteq> o_ClientOrderID row"
    using f [of cid] that find_order_row [of cid T] by (cases "find_order cid T") auto
qed

lemma adopt_find:
  "find_order c (adopt cid vid t T) = map_option (\<lambda>w. if o_ClientOrderID w = cid \<and> o_VenueOrderID w = None
     then w\<lparr>o_VenueOrderID := Some vid, o_UpdatedAt := t\<rparr> else w) (find_order c T)"
  unfolding find_order_def adopt_def by (simp add: find_update_where_P)

lemma adopt_find_other: "c \<noteq> cid \<Longrightarrow> find_order c (adopt cid vid t T) = find_order c T"
  using find_order_row [of c T] by (cases "find_order c T") (auto simp: adopt_find)

lemma drops_state: "Transition st ev = Inr d \<Longrightarrow> drops d \<Longrightarrow> apply_decision st d = st"
proof -
  assume t: "Transition st ev = Inr d" and "drops d"
  then have "d_FillDelta d = 0" "\<not> d_Transition d" using Transition_Inr(4) [OF t] by (auto simp: drops_def)
  moreover have "d_To d = st_Status st" if "\<not> d_Transition d"
    using t that by (auto simp: Transition_def Let_def split: if_splits)
  ultimately show ?thesis by (simp add: apply_decision_def)
qed

context lot_selector
begin

lemma ApplyEvent_row:
  assumes "ApplyEvent s source ev db = (Inr x, db')" "selector s = Select" "store_inv (db_durable db) (db_seq db)"
  shows "\<exists>row row'. find_order (rf_ClientOrderID (ev_Ref ev)) (db_durable db) = Some row
      \<and> find_order (rf_ClientOrderID (ev_Ref ev)) (db_durable db') = Some row'
      \<and> Transition (row_state row) ev = Inr (ar_Decision x)
      \<and> row_state row' = join_event ev (row_state row)
      \<and> (o_VenueOrderID row' \<noteq> None \<or> rf_VenueOrderID (ev_Ref ev) = [])
      \<and> (o_VenueOrderID row \<noteq> None \<longrightarrow> o_VenueOrderID row' = o_VenueOrderID row)"
    and "cid \<noteq> rf_ClientOrderID (ev_Ref ev) \<Longrightarrow> find_order cid (db_durable db') = find_order cid (db_durable db)"
proof -
  have "(\<exists>row row'. find_order (rf_ClientOrderID (ev_Ref ev)) (db_durable db) = Some row
      \<and> find_order (rf_ClientOrderID (ev_Ref ev)) (db_durable db') = Some row'
      \<and> Transition (row_state row) ev = Inr (ar_Decision x)
      \<and> row_state row' = join_event ev (row_state row)
      \<and> (o_VenueOrderID row' \<noteq> None \<or> rf_VenueOrderID (ev_Ref ev) = [])
      \<and> (o_VenueOrderID row \<noteq> None \<longrightarrow> o_VenueOrderID row' = o_VenueOrderID row))
    \<and> (cid \<noteq> rf_ClientOrderID (ev_Ref ev) \<longrightarrow> find_order cid (db_durable db') = find_order cid (db_durable db))"
    using assms(1)
  proof (cases rule: ApplyEvent_cases)
    case unchanged
    then obtain row d where row: "find_order (rf_ClientOrderID (ev_Ref ev)) (db_durable db) = Some row"
      "Transition (row_state row) ev = Inr d" "drops d" "x = dropped_result d"
      "o_VenueOrderID row \<noteq> None \<or> rf_VenueOrderID (ev_Ref ev) = []" by blast
    have "row_state row = join_event ev (row_state row)"
      using drops_state [OF row(2,3)] Transition_Inr(5) [OF row(2)] by simp
    with row unchanged(1) show ?thesis by (auto simp: dropped_result_def)
  next
    case (adopted row d t)
    have "row_state row = join_event ev (row_state row)"
      using drops_state [OF adopted(2,3)] Transition_Inr(5) [OF adopted(2)] by simp
    with adopted adopted(7) [OF refl] find_order_row show ?thesis
      by (auto simp: adopt_find_other adopt_find [of "rf_ClientOrderID (ev_Ref ev)"] dropped_result_def row_state_def)
  next
    case (persisted row d res db1 db2)
    have cid: "o_ClientOrderID row = rf_ClientOrderID (ev_Ref ev)" using persisted(1) by (rule find_order_row)
    have a: "applies row d (rf_VenueOrderID (ev_Ref ev)) (seq_fills (db_seq db1)) (seq_fills (db_seq db2)) (db_durable db) (db_durable db')"
      "ar_Decision res = d"
      using ApplyEvent_applies [OF persisted(4) assms(2), of "db_seq db"] persisted assms(3) by auto
    have x: "x = res" using persisted(9) by simp
    from applies_find [OF a(1)] persisted(1,2) cid Transition_Inr(5) [OF persisted(2)] a(2) x show ?thesis
      by (cases "o_VenueOrderID row") (auto simp: nullString_def)
  qed
  then show "\<exists>row row'. find_order (rf_ClientOrderID (ev_Ref ev)) (db_durable db) = Some row
      \<and> find_order (rf_ClientOrderID (ev_Ref ev)) (db_durable db') = Some row'
      \<and> Transition (row_state row) ev = Inr (ar_Decision x)
      \<and> row_state row' = join_event ev (row_state row)
      \<and> (o_VenueOrderID row' \<noteq> None \<or> rf_VenueOrderID (ev_Ref ev) = [])
      \<and> (o_VenueOrderID row \<noteq> None \<longrightarrow> o_VenueOrderID row' = o_VenueOrderID row)"
    "cid \<noteq> rf_ClientOrderID (ev_Ref ev) \<Longrightarrow> find_order cid (db_durable db') = find_order cid (db_durable db)"
    by blast+
qed

end


lemma replay_drops:
  assumes "known_status (st_Status st)" "known_status (ev_Status ev)" "Transition (join_event ev st) ev = Inr d"
  shows "drops d"
proof -
  have "apply_decision (join_event ev st) d = join_event ev (join_event ev st)" using Transition_Inr(5) [OF assms(3)] .
  then have "d_FillDelta d = 0"
    by (auto simp: join_event_idem apply_decision_def dest: arg_cong [where f = st_FilledQty])
  moreover have "\<not> d_Transition d"
    using assms(3) join_event_known [OF assms(1,2)] assms(2) rank_of_le [of "ev_Status ev"]
    by (auto simp: Transition_def Let_def rank_known terminalRank_def join_event_def max_def split: if_splits)
  ultimately show ?thesis by (simp add: drops_def)
qed

subsection \<open>Properties of the order store\<close>

definition demo_run :: "Side \<Rightarrow> DB" where
  "demo_run side = snd (ApplyEvent demo_store SourceStream (demo_event StatusFilled 1) (demo_db side (\<lambda>_. None)))"

lemma demo_reach: "store_reach (demo_db side (\<lambda>_. None))" "store_reach (demo_run side)"
proof -
  have "demo_db side (\<lambda>_. None) = snd (CreatePending (demo_request side) (new_db (\<lambda>_. None) (\<lambda>_. Time 1000)))"
  proof -
    have "db_faults (snd (CreatePending (demo_request side) (new_db (\<lambda>_. None) (\<lambda>_. Time 1000)))) = (\<lambda>_. None)"
      by (simp add: demo_defs run_defs eval_defs Let_def)
    then show ?thesis unfolding demo_db_def by (metis DB.surjective DB.update_convs(6))
  qed
  then show 1: "store_reach (demo_db side (\<lambda>_. None))"
    using store_reach.create [OF store_reach.empty prod.collapse [symmetric]] by simp
  show "store_reach (demo_run side)"
    unfolding demo_run_def by (rule store_reach.apply_event [OF 1 _ prod.collapse [symmetric]]) (simp add: demo_store_def)
qed

text \<open>
  C1: the inventory balances. In every database the daemon can produce, for every inventory (bot, venue,
  base and quote), what the lots still hold plus everything sold equals everything bought plus what the
  sells could not match: no fill creates or loses inventory, whatever faults and orders of events.
\<close>

theorem inventory_balance:
  assumes "store_reach db"
  shows "held (db_durable db) k + traded (db_durable db) Sell k = traded (db_durable db) Buy k + unmatched_total (db_durable db) k"
  using store_reach_inv [OF assms] unfolding store_inv_def balance_inv_def by blast

lemma inventory_balance_witness:
  "held (db_durable (demo_run Buy)) (''manual'', ''bybit'', ''BTC'', ''USDT'')
    + traded (db_durable (demo_run Buy)) Sell (''manual'', ''bybit'', ''BTC'', ''USDT'')
   = traded (db_durable (demo_run Buy)) Buy (''manual'', ''bybit'', ''BTC'', ''USDT'')
    + unmatched_total (db_durable (demo_run Buy)) (''manual'', ''bybit'', ''BTC'', ''USDT'')"
  by (rule inventory_balance [OF demo_reach(2)])

text \<open>
  C31: every filled unit is accounted for. In every database the daemon can produce, the filled quantity
  of an order is the sum of its fill rows, every fill of a buy opened a lot of exactly its quantity in the
  order's inventory, and every fill of a sell is split without remainder into lot closures and an
  unmatched rest.
\<close>

theorem fills_account_for_orders:
  assumes "store_reach db" and "r \<in> set (orders (db_durable db))"
  shows "o_FilledQty r = (\<Sum>f\<leftarrow>fills (db_durable db). if fl_ClientOrderID f = o_ClientOrderID r then fl_Qty f else 0)
    \<and> (\<forall>f\<in>set (fills (db_durable db)). fl_ClientOrderID f = o_ClientOrderID r \<longrightarrow>
        (if o_Side r = Buy
         then \<exists>l\<in>set (lots (db_durable db)). lo_OpenedByFillID l = fl_ID f \<and> lo_Qty l = fl_Qty f
           \<and> lot_inventory l = order_inventory r
         else closed_of (db_durable db) (fl_ID f) + unmatched_of (db_durable db) (fl_ID f) = fl_Qty f))"
  using store_reach_inv [OF assms(1)] assms(2)
  by (auto simp: store_inv_def fills_inv_def filled_by_def posted_inv_def posted_def)

lemma fills_account_for_orders_witness:
  "\<exists>r\<in>set (orders (db_durable (demo_run Sell))). o_FilledQty r = 1
    \<and> 1 = (\<Sum>f\<leftarrow>fills (db_durable (demo_run Sell)). if fl_ClientOrderID f = o_ClientOrderID r then fl_Qty f else 0)"
proof -
  have "map o_FilledQty (orders (db_durable (demo_run Sell))) = [1]"
    unfolding demo_run_def by (simp add: demo_defs run_defs eval_defs Let_def)
  then obtain r where "r \<in> set (orders (db_durable (demo_run Sell)))" "o_FilledQty r = 1"
    by (metis image_eqI imageE list.set_intros(1) list.set_map)
  with fills_account_for_orders [OF demo_reach(2)] show ?thesis by metis
qed

text \<open>
  C32: the audit trail explains every order. In every database the daemon can produce, the transitions of
  an order are numbered 1, 2, 3 and so on without gaps, each starts at the status the one before ended
  with and never lowers the filled quantity, and replaying them from a new pending order ends at the
  status and quantity the order row holds.
\<close>

theorem audit_trail:
  assumes "store_reach db" and "r \<in> set (orders (db_durable db))"
  shows "replay new_state (transitions_of (db_durable db) (o_ClientOrderID r)) = Some (row_state r)
    \<and> map tr_Seq (transitions_of (db_durable db) (o_ClientOrderID r))
      = map int [1..<Suc (length (transitions_of (db_durable db) (o_ClientOrderID r)))]"
  using store_reach_inv [OF assms(1)] assms(2) by (auto simp: store_inv_def trail_inv_def)

lemma audit_trail_witness:
  "\<exists>r\<in>set (orders (db_durable (demo_run Buy))). o_Status r = StatusFilled
    \<and> replay new_state (transitions_of (db_durable (demo_run Buy)) (o_ClientOrderID r)) = Some (row_state r)"
proof -
  have "map o_Status (orders (db_durable (demo_run Buy))) = [StatusFilled]"
    unfolding demo_run_def by (simp add: demo_defs run_defs eval_defs Let_def lot_checks_def)
  then obtain r where "r \<in> set (orders (db_durable (demo_run Buy)))" "o_Status r = StatusFilled"
    by (metis image_eqI imageE list.set_intros(1) list.set_map)
  with audit_trail [OF demo_reach(2)] show ?thesis by metis
qed

text \<open>
  C36: lots and closures agree. In every database the daemon can produce, lot IDs are unique, every lot
  satisfies the row constraints (remaining between zero and its quantity, closed with a closing time
  exactly when nothing remains), and what remains of a lot is its quantity less all closures of it.
\<close>

theorem lots_agree_with_closures:
  assumes "store_reach db"
  shows "distinct (map lo_ID (lots (db_durable db)))
    \<and> (\<forall>l\<in>set (lots (db_durable db)). lot_checks l \<and> lo_RemainingQty l = lo_Qty l
        - (\<Sum>c\<leftarrow>lot_closures (db_durable db). if cl_LotID c = lo_ID l then cl_Qty c else 0))"
  using store_reach_inv [OF assms] by (auto simp: store_inv_def lots_inv_def closed_lot_def)

lemma lots_agree_with_closures_witness:
  "\<exists>l. l \<in> set (lots (db_durable (demo_run Buy))) \<and> lo_RemainingQty l = 1 \<and> lot_checks l"
proof -
  have "map lo_RemainingQty (lots (db_durable (demo_run Buy))) = [1]"
    unfolding demo_run_def by (simp add: demo_defs run_defs eval_defs Let_def lot_checks_def)
  then obtain l where "l \<in> set (lots (db_durable (demo_run Buy)))" "lo_RemainingQty l = 1"
    by (metis image_eqI imageE list.set_intros(1) list.set_map)
  with lots_agree_with_closures [OF demo_reach(2)] show ?thesis by metis
qed

end
