(* ===== verification/Store_Refinement.thy ===== *)
theory Store_Refinement
  imports Store_Reach
begin

section \<open>The store implements the state machine\<close>

text \<open>
  The order row behind the store follows the abstract machine: one event is one join, a replayed event
  changes nothing, and the order of delivery does not matter.
\<close>



lemma demo_succeeds: "ApplyEvent demo_store SourceStream (demo_event StatusFilled 1) (demo_db Buy (\<lambda>_. None)) =
    (Inr \<lparr>ar_Decision = \<lparr>d_Transition = True, d_To = StatusFilled, d_FillDelta = 1, d_FillAnomaly = False, d_Drop = []\<rparr>,
       ar_Outcome = \<lparr>UnmatchedQty = 0\<rparr>, ar_FillConflict = False\<rparr>, demo_run Buy)"
proof -
  have "fst (ApplyEvent demo_store SourceStream (demo_event StatusFilled 1) (demo_db Buy (\<lambda>_. None))) =
    Inr \<lparr>ar_Decision = \<lparr>d_Transition = True, d_To = StatusFilled, d_FillDelta = 1, d_FillAnomaly = False, d_Drop = []\<rparr>,
       ar_Outcome = \<lparr>UnmatchedQty = 0\<rparr>, ar_FillConflict = False\<rparr>"
    by (simp add: demo_defs run_defs eval_defs Let_def lot_checks_def)
  then show ?thesis by (simp add: demo_run_def prod_eq_iff)
qed


text \<open>
  C33: applying an event is idempotent. Once an event has been applied, delivering it again, from
  whatever source, with whatever store and under whatever faults, leaves the durable tables as they are;
  if the second call succeeds it reports a drop.
\<close>

theorem ApplyEvent_idempotent:
  assumes "store_reach db" and "selector s = FIFO_Select" and "ApplyEvent s source ev db = (Inr x, db')"
    and "db_durable db2 = db_durable db'" and "ApplyEvent s2 source2 ev db2 = (r, db3)"
  shows "db_durable db3 = db_durable db2 \<and> (\<forall>y. r = Inr y \<longrightarrow> d_Drop (ar_Decision y) \<noteq> [] \<and> ar_FillConflict y = False)"
proof -
  obtain row row' where row: "find_order (rf_ClientOrderID (ev_Ref ev)) (db_durable db2) = Some row'"
    "Transition (row_state row) ev = Inr (ar_Decision x)" "row_state row' = join_event ev (row_state row)"
    "o_VenueOrderID row' \<noteq> None \<or> rf_VenueOrderID (ev_Ref ev) = []"
    using fifo.ApplyEvent_row(1) [OF assms(3,2) store_reach_inv [OF assms(1)]] assms(4) by auto
  have k: "known_status (st_Status (row_state row))" "known_status (ev_Status ev)" using Transition_Inr [OF row(2)] by simp_all
  have d: "drops d" if "Transition (row_state row') ev = Inr d" for d
    using replay_drops [OF k] that row(3) by simp
  have nd: "d_Drop d \<noteq> []" if "Transition (row_state row') ev = Inr d" for d
    using d [OF that] that by (auto simp: drops_def Transition_def Let_def split: if_splits)
  from assms(5) show ?thesis
  proof (cases rule: ApplyEvent_cases)
    case unchanged
    with row(1) nd show ?thesis by (auto simp: dropped_result_def)
  next
    case (adopted row2 d2 t)
    with row show ?thesis by auto
  next
    case (persisted row2 d2 res db4 db5)
    with row d show ?thesis by auto
  qed
qed

lemma ApplyEvent_idempotent_witness:
  "db_durable (snd (ApplyEvent demo_store SourceReconcile (demo_event StatusFilled 1) (demo_run Buy))) = db_durable (demo_run Buy)"
  using ApplyEvent_idempotent [OF demo_reach(1) _ demo_succeeds refl prod.collapse [symmetric]]
  by (simp add: demo_store_def)

definition applyAll :: "OrderStore \<Rightarrow> Source \<Rightarrow> Event list \<Rightarrow> unit dbop" where
  "applyAll s source evs = forS (\<lambda>ev. bindS (ApplyEvent s source ev) (\<lambda>_. returnS ())) evs"

lemma applyAll_join:
  assumes "store_reach db" "selector s = FIFO_Select" "applyAll s source evs db = (Inr u, db')"
    "\<forall>ev\<in>set evs. rf_ClientOrderID (ev_Ref ev) = cid" "find_order cid (db_durable db) = Some row"
  shows "\<exists>row'. find_order cid (db_durable db') = Some row' \<and> row_state row' = fold join_event evs (row_state row)
    \<and> (\<forall>ev\<in>set evs. known_status (ev_Status ev))"
  using assms
proof (induction evs arbitrary: db row)
  case Nil
  then show ?case by (simp add: applyAll_def)
next
  case (Cons ev evs)
  from Cons.prems(3) obtain x db1 where 1: "ApplyEvent s source ev db = (Inr x, db1)" "applyAll s source evs db1 = (Inr u, db')"
    by (auto simp: applyAll_def)
  have reach: "store_reach db1" using Cons.prems(1,2) 1(1) by (rule store_reach.apply_event)
  from fifo.ApplyEvent_row(1) [OF 1(1) Cons.prems(2) store_reach_inv [OF Cons.prems(1)]] Cons.prems(4,5)
  obtain row1 where row1: "find_order cid (db_durable db1) = Some row1" "row_state row1 = join_event ev (row_state row)"
    "Transition (row_state row) ev = Inr (ar_Decision x)" by auto
  from Cons.IH [OF reach Cons.prems(2) 1(2) _ row1(1)] Cons.prems(4) row1(2) Transition_Inr(2) [OF row1(3)]
  show ?case by auto
qed

text \<open>
  C11: stored orders converge. Two databases that hold an order in the same state, and to which the
  events of two lists have been applied successfully in the lists' order, hold it in the same state
  again whenever the lists have the same events, in whatever order and however often, and the terminal
  events among them agree.
\<close>

theorem stored_orders_converge:
  assumes "store_reach db1" and "store_reach db2" and "selector s1 = FIFO_Select" and "selector s2 = FIFO_Select"
    and "find_order cid (db_durable db1) = Some row1" and "find_order cid (db_durable db2) = Some row2"
    and "row_state row1 = row_state row2"
    and "applyAll s1 source1 evs1 db1 = (Inr u1, db1')" and "applyAll s2 source2 evs2 db2 = (Inr u2, db2')"
    and "\<forall>ev\<in>set evs1. rf_ClientOrderID (ev_Ref ev) = cid" and "set evs1 = set evs2" and "terminals_agree evs1"
  shows "map_option row_state (find_order cid (db_durable db1')) = map_option row_state (find_order cid (db_durable db2'))
    \<and> find_order cid (db_durable db1') \<noteq> None"
proof -
  from applyAll_join [OF assms(1,3,8,10,5)] applyAll_join [OF assms(2,4,9) _ assms(6)] assms(10,11)
  obtain r1 r2 where "find_order cid (db_durable db1') = Some r1" "row_state r1 = fold join_event evs1 (row_state row1)"
    "find_order cid (db_durable db2') = Some r2" "row_state r2 = fold join_event evs2 (row_state row2)"
    "\<forall>ev\<in>set evs1. known_status (ev_Status ev)" by auto
  moreover from this fold_join_set [OF assms(12) _ assms(11)] have
    "fold join_event evs1 (row_state row1) = fold join_event evs2 (row_state row2)" using assms(7) by simp
  ultimately show ?thesis by simp
qed

lemma demo_all:
  "fst (applyAll demo_store SourceStream [demo_event StatusOpen 0, demo_event StatusFilled 1] (demo_db Sell (\<lambda>_. None))) = Inr ()"
  "fst (applyAll demo_store SourceStream [demo_event StatusFilled 1, demo_event StatusOpen 0] (demo_db Sell (\<lambda>_. None))) = Inr ()"
  by (simp_all add: applyAll_def demo_defs run_defs eval_defs Let_def)

lemma stored_orders_converge_witness:
  "map_option row_state (find_order ''01JG3'' (db_durable (snd (applyAll demo_store SourceStream
      [demo_event StatusOpen 0, demo_event StatusFilled 1] (demo_db Sell (\<lambda>_. None)))))) =
   map_option row_state (find_order ''01JG3'' (db_durable (snd (applyAll demo_store SourceStream
      [demo_event StatusFilled 1, demo_event StatusOpen 0] (demo_db Sell (\<lambda>_. None))))))"
proof -
  have "find_order ''01JG3'' (db_durable (demo_db Sell (\<lambda>_. None))) \<noteq> None"
    by (simp add: demo_defs run_defs eval_defs Let_def)
  then obtain row where row: "find_order ''01JG3'' (db_durable (demo_db Sell (\<lambda>_. None))) = Some row" by blast
  have "applyAll demo_store SourceStream [demo_event StatusOpen 0, demo_event StatusFilled 1] (demo_db Sell (\<lambda>_. None)) =
      (Inr (), snd (applyAll demo_store SourceStream [demo_event StatusOpen 0, demo_event StatusFilled 1] (demo_db Sell (\<lambda>_. None))))"
    "applyAll demo_store SourceStream [demo_event StatusFilled 1, demo_event StatusOpen 0] (demo_db Sell (\<lambda>_. None)) =
      (Inr (), snd (applyAll demo_store SourceStream [demo_event StatusFilled 1, demo_event StatusOpen 0] (demo_db Sell (\<lambda>_. None))))"
    using demo_all by (simp_all add: prod_eq_iff)
  from stored_orders_converge [OF demo_reach(1) demo_reach(1) _ _ row row refl this] show ?thesis
    by (auto simp: demo_store_def demo_event_def terminals_agree_def Terminal_iff)
qed
end
