(* ===== verification/Store_Progress.thy ===== *)
theory Store_Progress
  imports Store_Refinement
begin

section \<open>Applying events makes progress\<close>

text \<open>
  The constraints of the schema are never in the way: on a database the daemon can produce, with a
  connection that works, every statement of \<open>ApplyEvent\<close> succeeds for a well-formed event. The lemmas follow
  the call tree bottom up, for any selector that meets the contract \<open>lot_selector\<close>.
\<close>

lemma list_ex_key: "list_ex (\<lambda>x. k x = a) xs \<longleftrightarrow> a \<in> k ` set xs"
  by (force simp: list_ex_iff)

definition succeeds :: "('s, 'a) op \<Rightarrow> 's \<Rightarrow> bool" where
  "succeeds m s \<longleftrightarrow> (\<exists>x s'. m s = (Inr x, s'))"

lemma succeeds_bind: "m s = (Inr x, s1) \<Longrightarrow> succeeds (f x) s1 \<Longrightarrow> succeeds (bindS m f) s"
  by (auto simp: succeeds_def)

lemma succeeds_wrap [simp]: "succeeds (wrapS w m) s = succeeds m s"
  by (simp add: succeeds_def)

lemma succeeds_return [simp]: "succeeds (returnS x) s"
  by (simp add: succeeds_def)

definition no_faults :: "DB \<Rightarrow> bool" where "no_faults db \<longleftrightarrow> db_faults db = (\<lambda>_. None)"

lemma no_faults_frame: "no_faults db \<Longrightarrow> keeps frame m \<Longrightarrow> m db = (r, db') \<Longrightarrow> no_faults db'"
  using keepsD [of frame m db r db'] by (simp add: frame_def no_faults_def)

lemma succeeds_exec: "no_faults db \<Longrightarrow> succeeds q (db\<lparr>db_stmt := Suc (db_stmt db)\<rparr>) \<Longrightarrow> succeeds (exec q) db"
  by (auto simp: succeeds_def exec_Inr_iff no_faults_def)

lemma InsertTransition_succeeds:
  assumes "no_faults db" "source \<in> {''local'', ''stream'', ''ack'', ''reconcile''}" "find_order cid (db_work db) \<noteq> None"
    "max_seq cid (db_work db) < 2147483647"
  shows "succeeds (exec (q_InsertTransition cid a b f source reason ts)) db"
  using assms by (intro succeeds_exec) (auto simp: succeeds_def q_InsertTransition_def Let_def)

lemma insertFill_succeeds:
  assumes "no_faults db" "find_order (if_ClientOrderID p) (db_work db) \<noteq> None"
    "list_ex (\<lambda>t. tr_ID t = if_TransitionID p) (order_transitions (db_work db))"
  shows "succeeds (insertFill p) db"
proof -
  have q: "succeeds (exec (q_InsertFill p')) db'" 
    if "no_faults db'" "db_work db' = db_work db" "if_ClientOrderID p' = if_ClientOrderID p" "if_TransitionID p' = if_TransitionID p" for p' db'
    using that assms by (intro succeeds_exec) (auto simp: succeeds_def q_InsertFill_def Let_def)
  obtain r db1 where 1: "exec (q_InsertFill p) db = (Inr r, db1)" using q [of db p] assms(1) by (auto simp: succeeds_def)
  show ?thesis
  proof (cases r)
    case (Some i)
    with 1 show ?thesis by (auto simp: insertFill_def succeeds_def)
  next
    case None
    let ?p = "p\<lparr>if_VenueFillID := None, if_Fee := None, if_FeeCurrency := None\<rparr>"
    have w: "db_work db1 = db_work db" using InsertFill_None 1 None by blast
    have n: "no_faults db1" using no_faults_frame [OF assms(1) frame_exec [OF frame_stmts(5)] 1] .
    obtain r2 db2 where 2: "exec (q_InsertFill ?p) db1 = (Inr r2, db2)" using q [of db1 ?p] n w by (auto simp: succeeds_def)
    then have "\<exists>i. r2 = Some i" by (auto simp: exec_Inr_iff q_InsertFill_def Let_def split: if_splits)
    with 1 2 None show ?thesis by (auto simp: insertFill_def succeeds_def)
  qed
qed

lemma insertOutboxJSON_succeeds: "no_faults db \<Longrightarrow> json_ok p \<Longrightarrow> succeeds (insertOutboxJSON subject p) db"
  by (auto simp: insertOutboxJSON_def succeeds_def q_InsertOutbox_def Let_def exec_Inr_iff no_faults_def)

lemma ApplyOrderUpdate_succeeds:
  assumes "no_faults db" "find_order cid (db_work db) = Some row" "known_status status"
    "\<not> venue_order_id_taken cid (coalesce (o_VenueOrderID row) vid) (o_Venue row) (db_work db)"
  shows "succeeds (exec (q_ApplyOrderUpdate cid status filled avg vid reason)) db"
  using assms by (intro succeeds_exec)
    (auto simp: succeeds_def q_ApplyOrderUpdate_def order_statuses_def known_status_def status_defs)

lemma openLot_succeeds:
  assumes "no_faults db" "0 < qty" "0 \<le> ev_FillPrice ev" "newID s \<notin> lot_ids (db_work db)"
    "fid \<notin> lo_OpenedByFillID ` set (lots (db_work db))" "fid \<in> fill_ids (db_work db)"
  shows "succeeds (openLot s r ev qty fid) db"
proof -
  have "\<not> list_ex (\<lambda>x. lo_ID x = newID s) (lots (db_work db))" "\<not> list_ex (\<lambda>x. lo_OpenedByFillID x = fid) (lots (db_work db))"
    "list_ex (\<lambda>f. fl_ID f = fid) (fills (db_work db))"
    using assms(4-6) by (simp_all add: list_ex_key lot_ids_def fill_ids_def)
  with assms(1-3) show ?thesis
    by (auto simp: openLot_def succeeds_def exec_Inr_iff no_faults_def q_InsertLot_def lot_checks_def Let_def)
qed

lemma recordClosure_succeeds:
  assumes "no_faults db" "0 < c_Qty c" "0 \<le> price" "lots_inv (db_work db)"
    "l \<in> set (lots (db_work db))" "lo_ID l = c_LotID c" "c_Qty c \<le> lo_RemainingQty l"
    "fid \<in> fill_ids (db_work db)"
    "\<forall>x\<in>set (lot_closures (db_work db)). cl_LotID x = c_LotID c \<longrightarrow> cl_SellFillID x \<noteq> fid"
  shows "succeeds (recordClosure price ts fid c) db"
proof -
  have "succeeds (exec (q_InsertLotClosure (c_LotID c) fid (c_Qty c) price ts)) db"
    using assms by (intro succeeds_exec)
      (auto simp: succeeds_def q_InsertLotClosure_def Let_def list_ex_iff fill_ids_def)
  then obtain u db1 where 1: "exec (q_InsertLotClosure (c_LotID c) fid (c_Qty c) price ts) db = (Inr u, db1)"
    by (auto simp: succeeds_def)
  have n: "no_faults db1" using no_faults_frame [OF assms(1) frame_exec [OF frame_stmts(9)] 1] .
  have lots: "lots (db_work db1) = lots (db_work db)" using InsertLotClosure_Inr [OF 1] by auto
  have "lot_checks (decrement_lot (c_Qty c) ts x)" if "x \<in> set (lots (db_work db))" "lo_ID x = c_LotID c" for x
  proof -
    have "x = l" using that assms(4-6) by (auto simp: lots_inv_def intro: distinct_map_inj)
    moreover have "lot_checks l" using assms(4,5) by (simp add: lots_inv_def)
    ultimately show ?thesis using assms(2,7) by (auto simp: lot_checks_def decrement_lot_def)
  qed
  then have "succeeds (exec (q_DecrementLot (c_LotID c) (c_Qty c) ts)) db1"
    using n lots by (intro succeeds_exec) (auto simp: succeeds_def q_DecrementLot_def list_ex_iff)
  then show ?thesis unfolding recordClosure_def using 1 by (intro succeeds_bind [where s = db and x = u and ?s1.0 = db1]) auto
qed

lemma recordClosure_frame: "keeps frame (recordClosure price ts fid c)"
  by (auto simp: recordClosure_def intro!: frame_intros)

lemma closure_loop_succeeds:
  assumes "no_faults db" "0 \<le> price" "lots_inv (db_work db)" "fid \<in> fill_ids (db_work db)"
    "distinct (map c_LotID cs)" "\<forall>c\<in>set cs. 0 < c_Qty c"
    "\<forall>c\<in>set cs. \<exists>l\<in>set (lots (db_work db)). lo_ID l = c_LotID c \<and> c_Qty c \<le> lo_RemainingQty l"
    "\<forall>c\<in>set cs. \<forall>x\<in>set (lot_closures (db_work db)). cl_LotID x = c_LotID c \<longrightarrow> cl_SellFillID x \<noteq> fid"
  shows "succeeds (forS (recordClosure price ts fid) cs) db"
  using assms
proof (induction cs arbitrary: db)
  case Nil
  then show ?case by simp
next
  case (Cons c cs)
  from Cons.prems(7) obtain l where l: "l \<in> set (lots (db_work db))" "lo_ID l = c_LotID c" "c_Qty c \<le> lo_RemainingQty l" by auto
  have "succeeds (recordClosure price ts fid c) db"
    using recordClosure_succeeds [OF Cons.prems(1) _ Cons.prems(2,3) l Cons.prems(4)] Cons.prems(6,8) by simp
  then obtain u db1 where 1: "recordClosure price ts fid c db = (Inr u, db1)" by (auto simp: succeeds_def)
  from recordClosure_effect [OF 1] obtain row where row: "db_work db1 = (db_work db)\<lparr>lot_closures := lot_closures (db_work db) @ [row],
       lots := update_where (\<lambda>l. lo_ID l = cl_LotID row) (decrement_lot (cl_Qty row) ts) (lots (db_work db))\<rparr>"
     "cl_LotID row = c_LotID c" "cl_SellFillID row = fid" "cl_Qty row = c_Qty c"
     "\<forall>l\<in>set (lots (db_work db)). lo_ID l = cl_LotID row \<longrightarrow> lot_checks (decrement_lot (cl_Qty row) ts l)"
    by metis
  have "closes fid (lot_inventory l) (c_Qty c) (db_work db) (db_work db1)"
    using closure_closes [OF row(1) _ l(1) _ row(5)] Cons.prems(3) l row by (simp add: lots_inv_def)
  then have inv: "lots_inv (db_work db1)" "fills (db_work db1) = fills (db_work db)" using Cons.prems(3) by (simp_all add: closes_def)
  have "\<exists>l\<in>set (lots (db_work db1)). lo_ID l = c_LotID x \<and> c_Qty x \<le> lo_RemainingQty l" if "x \<in> set cs" for x
  proof -
    from Cons.prems(7) that obtain l where "l \<in> set (lots (db_work db))" "lo_ID l = c_LotID x" "c_Qty x \<le> lo_RemainingQty l" by auto
    moreover have "c_LotID x \<noteq> c_LotID c" using Cons.prems(5) that by (auto simp: image_iff)
    ultimately have "l \<in> set (lots (db_work db1))" by (auto simp: row set_update_where)
    with \<open>lo_ID l = c_LotID x\<close> \<open>c_Qty x \<le> lo_RemainingQty l\<close> show ?thesis by blast
  qed
  moreover have "\<forall>x\<in>set cs. \<forall>y\<in>set (lot_closures (db_work db1)). cl_LotID y = c_LotID x \<longrightarrow> cl_SellFillID y \<noteq> fid"
    using Cons.prems(5,8) row(1,2) by (auto simp: image_iff)
  ultimately have "succeeds (forS (recordClosure price ts fid) cs) db1"
    using Cons.prems no_faults_frame [OF Cons.prems(1) recordClosure_frame 1] inv
    by (intro Cons.IH) (auto simp: fill_ids_def)
  then show ?case using 1 by (auto intro: succeeds_bind)
qed

lemma recordUnmatched_succeeds:
  assumes "no_faults db" "0 < qty" "fid \<in> fill_ids (db_work db)" "fid \<notin> un_SellFillID ` set (unmatched_sells (db_work db))"
  shows "succeeds (recordUnmatched r ev qty fid) db"
proof -
  have "\<not> list_ex (\<lambda>u. un_SellFillID u = fid) (unmatched_sells (db_work db))" "list_ex (\<lambda>f. fl_ID f = fid) (fills (db_work db))"
    using assms(3,4) by (simp_all add: list_ex_key fill_ids_def)
  with assms(1,2) have "succeeds (exec (q_InsertUnmatchedSell fid (o_BotID r) (o_Venue r) (o_Base r) (o_Quote r) qty (ev_At ev))) db"
    by (intro succeeds_exec) (auto simp: succeeds_def q_InsertUnmatchedSell_def)
  then obtain u db1 where 1: "exec (q_InsertUnmatchedSell fid (o_BotID r) (o_Venue r) (o_Base r) (o_Quote r) qty (ev_At ev)) db = (Inr u, db1)"
    by (auto simp: succeeds_def)
  have "no_faults db1" using no_faults_frame [OF assms(1) frame_exec [OF frame_stmts(11)] 1] .
  then show ?thesis
    unfolding recordUnmatched_def using 1 by (intro succeeds_bind [where s = db and x = u and ?s1.0 = db1] insertOutboxJSON_succeeds) auto
qed

lemma frame_insertFill: "keeps frame (insertFill p)"
  by (auto simp: insertFill_def intro!: frame_intros split: option.split)

lemma frame_persistFill: "keeps frame (persistFill s r ev d trID)"
  by (auto simp: persistFill_def Let_def intro!: frame_intros frame_insertFill)

text \<open>A fill whose ID is new to the ledger.\<close>

definition fresh_fill :: "int \<Rightarrow> Tables \<Rightarrow> bool" where
  "fresh_fill fid T \<longleftrightarrow> fid \<in> fill_ids T \<and> fid \<notin> lo_OpenedByFillID ` set (lots T)
     \<and> fid \<notin> cl_SellFillID ` set (lot_closures T) \<and> fid \<notin> un_SellFillID ` set (unmatched_sells T)"

context lot_selector
begin

lemma closeLots_succeeds:
  assumes "no_faults db" "selector s = Select" "0 < qty" "0 \<le> ev_FillPrice ev" "lots_inv (db_work db)" "fresh_fill fid (db_work db)"
  shows "succeeds (closeLots s r ev qty fid) db"
proof -
  have "succeeds (exec (q_ListOpenLotsForUpdate (o_BotID r) (o_Venue r) (o_Base r) (o_Quote r))) db"
    using assms(1) by (intro succeeds_exec) (auto simp: succeeds_def q_ListOpenLotsForUpdate_def)
  then obtain rows db1 where 1: "exec (q_ListOpenLotsForUpdate (o_BotID r) (o_Venue r) (o_Base r) (o_Quote r)) db = (Inr rows, db1)"
    by (auto simp: succeeds_def)
  note list = ListOpenLots_Inr [OF 1]
  have n1: "no_faults db1" using no_faults_frame [OF assms(1) frame_exec [OF frame_stmts(8)] 1] .
  define a where "a = Select (map lotOfRow rows) qty"
  have rows: "set rows \<subseteq> set (lots (db_work db))" "distinct (map lo_ID rows)"
    using list assms(5) by (auto simp: lots_inv_def distinct_sort_key_map distinct_map_filter)
  have "distinct (map l_ID (map lotOfRow rows))" using rows(2) by (simp add: comp_def)
  then have d: "distinct (map c_LotID (Closures a))" unfolding a_def by (rule closure_distinct [OF assms(3)])
  have pos: "\<forall>c\<in>set (Closures a). 0 < c_Qty c" using closure_pos [OF assms(3)] by (auto simp: a_def)
  have lots: "\<forall>c\<in>set (Closures a). \<exists>l\<in>set (lots (db_work db)). lo_ID l = c_LotID c \<and> c_Qty c \<le> lo_RemainingQty l"
    using closure_lot [OF assms(3), of _ "map lotOfRow rows"] rows(1) by (fastforce simp: a_def)
  have "succeeds (forS (recordClosure (ev_FillPrice ev) (ev_At ev) fid) (Closures a)) db1"
    by (rule closure_loop_succeeds [OF n1 assms(4) _ _ d pos])
      (use assms(5,6) list lots in \<open>auto simp: fresh_fill_def\<close>)
  then obtain u db2 where 2: "forS (recordClosure (ev_FillPrice ev) (ev_At ev) fid) (Closures a) db1 = (Inr u, db2)"
    by (auto simp: succeeds_def)
  have n2: "no_faults db2" using no_faults_frame [OF n1 keeps_for [OF frame_order recordClosure_frame] 2] .
  have "closes fid (order_inventory r) (\<Sum>c\<leftarrow>Closures a. c_Qty c) (db_work db1) (db_work db2)"
  proof -
    have "\<forall>c\<in>set (Closures a). \<exists>l\<in>set (lots (db_work db1)). lo_ID l = c_LotID c \<and> lot_inventory l = order_inventory r"
      using closure_lot [OF assms(3), of _ "map lotOfRow rows"] list by (fastforce simp: a_def order_inventory_def)
    then show ?thesis using closure_loop_closes [OF 2] list assms(5) by simp
  qed
  then have t2: "fills (db_work db2) = fills (db_work db)" "unmatched_sells (db_work db2) = unmatched_sells (db_work db)"
    using list by (simp_all add: closes_def)
  have "succeeds (if \<not> IsPositive (Unmatched a) then returnS \<lparr>UnmatchedQty = 0\<rparr>
      else bindS (recordUnmatched r ev (Unmatched a) fid) (\<lambda>_. returnS \<lparr>UnmatchedQty = Unmatched a\<rparr>)) db2"
  proof (cases "0 < Unmatched a")
    case True
    then have "succeeds (recordUnmatched r ev (Unmatched a) fid) db2"
      using n2 assms(6) t2 by (intro recordUnmatched_succeeds) (auto simp: fresh_fill_def fill_ids_def)
    with True show ?thesis by (auto simp: succeeds_def)
  qed simp
  with 1 2 show ?thesis
    unfolding closeLots_def Let_def assms(2) a_def
    by (intro succeeds_bind [where s = db and x = rows and ?s1.0 = db1] succeeds_bind [where s = db1 and x = u and ?s1.0 = db2]) auto
qed

lemma postLedgerFill_succeeds:
  assumes "no_faults db" "selector s = Select" "0 < qty" "0 \<le> ev_FillPrice ev" "lots_inv (db_work db)" "fresh_fill fid (db_work db)"
    "o_Side r \<in> {Buy, Sell}" "newID s \<notin> lot_ids (db_work db)"
  shows "succeeds (postLedgerFill s r ev qty fid) db"
proof -
  have lock: "exec (q_LockInventory k) db = (Inr (), db\<lparr>db_stmt := Suc (db_stmt db)\<rparr>)" for k
    using assms(1) by (simp add: exec_Inr_iff q_LockInventory_def no_faults_def)
  have "no_faults (db\<lparr>db_stmt := Suc (db_stmt db)\<rparr>)" using assms(1) by (simp add: no_faults_def)
  moreover from this have "succeeds (openLot s r ev qty fid) (db\<lparr>db_stmt := Suc (db_stmt db)\<rparr>)"
    using assms by (intro openLot_succeeds) (auto simp: fresh_fill_def)
  moreover from calculation(1) have "succeeds (closeLots s r ev qty fid) (db\<lparr>db_stmt := Suc (db_stmt db)\<rparr>)"
    using assms by (intro closeLots_succeeds) auto
  ultimately show ?thesis
    using assms lock unfolding postLedgerFill_def
    by (auto intro!: succeeds_bind [where s = db])
qed


lemma persistFill_succeeds:
  assumes "no_faults db" "selector s = Select" "0 \<le> ev_FillPrice ev" "lots_inv (db_work db)" "posted_inv (db_work db)"
    "\<forall>f\<in>set (fills (db_work db)). fl_ID f < seq_fills (db_seq db)"
    "o_Side r \<in> {Buy, Sell}" "newID s \<notin> lot_ids (db_work db)"
    "find_order (o_ClientOrderID r) (db_work db) \<noteq> None" "list_ex (\<lambda>t. tr_ID t = trID) (order_transitions (db_work db))"
  shows "succeeds (persistFill s r ev d trID) db"
proof (cases "0 < d_FillDelta d")
  case False
  then show ?thesis by (simp add: persistFill_def)
next
  case True
  obtain fid conflict db1 where 1: "insertFill (fillParams r ev d trID) db = (Inr (fid, conflict), db1)"
    using insertFill_succeeds [OF assms(1), of "fillParams r ev d trID"] assms(9,10) by (auto simp: fillParams_def succeeds_def)
  from insertFill_effect [OF 1] obtain f where f: "db_work db1 = (db_work db)\<lparr>fills := fills (db_work db) @ [f]\<rparr>"
    "fl_ID f = fid" "seq_fills (db_seq db) \<le> fid" by blast
  have n1: "no_faults db1"
    by (rule no_faults_frame [OF assms(1) frame_insertFill 1])
  have "fid \<notin> fill_ids (db_work db)" using assms(6) f(3) by (force simp: fill_ids_def)
  then have "fresh_fill fid (db_work db1)"
    using assms(5) f by (auto simp: fresh_fill_def posted_inv_def fill_ids_def)
  moreover have "lots_inv (db_work db1)" using assms(4) f(1) by (simp add: lots_inv_def lot_ids_def closed_lot_def)
  moreover have "newID s \<notin> lot_ids (db_work db1)" using assms(8) f(1) by (simp add: lot_ids_def)
  moreover define ev' where "ev' = (if conflict then ev\<lparr>ev_VenueFillID := [], ev_Fee := 0, ev_FeeCurrency := []\<rparr> else ev)"
  ultimately have "succeeds (postLedgerFill s r ev' (d_FillDelta d) fid) db1"
    using n1 assms True by (intro postLedgerFill_succeeds) auto
  then show ?thesis
    unfolding persistFill_def using True 1
    by (auto simp: Let_def ev'_def intro!: succeeds_bind [where s = db]) (auto simp: succeeds_def split: if_splits)
qed

lemma persistDecision_succeeds:
  assumes "no_faults db" "selector s = Select" "store_inv (db_work db) (db_seq db)"
    "find_order (o_ClientOrderID r) (db_work db) = Some r" "known_status (d_To d)"
    "source \<in> {''local'', ''stream'', ''ack'', ''reconcile''}" "0 \<le> ev_FillPrice ev" "json_time_ok (ev_At ev)"
    "newID s \<notin> lot_ids (db_work db)" "max_seq (o_ClientOrderID r) (db_work db) < 2147483647"
    "\<not> venue_order_id_taken (o_ClientOrderID r) (coalesce (o_VenueOrderID r) (nullString (rf_VenueOrderID (ev_Ref ev)))) (o_Venue r) (db_work db)"
  shows "succeeds (persistDecision s r source ev d) db"
proof -
  let ?cid = "o_ClientOrderID r" and ?nf = "o_FilledQty r + d_FillDelta d"
  have I: "orders_inv (db_work db)" "fills_inv (db_work db) (db_seq db)" "lots_inv (db_work db)" "posted_inv (db_work db)"
    using assms(3) by (simp_all add: store_inv_def)
  obtain x db1 where 1: "exec (q_InsertTransition ?cid (o_Status r) (d_To d) ?nf source (nullString (ev_Reason ev)) (ev_At ev)) db = (Inr x, db1)"
    using InsertTransition_succeeds [OF assms(1,6)] assms(4,10) by (fastforce simp: succeeds_def)
  from InsertTransition_Inr [OF 1] obtain t where
    t: "db_work db1 = (db_work db)\<lparr>order_transitions := order_transitions (db_work db) @ [t]\<rparr>" "tr_ID t = fst x"
    "seq_fills (db_seq db1) = seq_fills (db_seq db)" by blast
  have n1: "no_faults db1" using no_faults_frame [OF assms(1) frame_exec [OF frame_stmts(4)] 1] .
  have side: "o_Side r \<in> {Buy, Sell}" using I(1) find_order_mem(1) [OF I(1) assms(4)] by (simp add: orders_inv_def)
  have l1: "lots_inv (db_work db1)" using I(3) t(1) by (simp add: lots_inv_def lot_ids_def closed_lot_def)
  have "posted (db_work db1) = posted (db_work db)"
    by (simp add: fun_eq_iff posted_def closed_of_def unmatched_of_def t(1))
  then have p1: "posted_inv (db_work db1)" using I(4) t(1) by (simp add: posted_inv_def fill_ids_def)
  have "succeeds (persistFill s r ev d (fst x)) db1"
    by (rule persistFill_succeeds [OF n1 assms(2,7) l1 p1 _ side])
      (use I(2) assms(4,9) t in \<open>auto simp: fills_inv_def lot_ids_def find_order_def\<close>)
  then obtain ev' out conflict db2 where 2: "persistFill s r ev d (fst x) db1 = (Inr (ev', out, conflict), db2)"
    by (auto simp: succeeds_def)
  note fill = persistFill_effect [OF 2 assms(2) l1]
  have n2: "no_faults db2"
    by (rule no_faults_frame [OF n1 frame_persistFill 2])
  have ev': "ev_At ev' = ev_At ev"
    using 2 by (auto simp: persistFill_def Let_def split: if_splits)
  have o2: "orders (db_work db2) = orders (db_work db)" using fill t(1) by simp
  have "succeeds (exec (q_ApplyOrderUpdate ?cid (d_To d) ?nf (avgFillPrice s r d ev' ?nf)
        (nullString (rf_VenueOrderID (ev_Ref ev'))) (nullString (ev_Reason ev')))) db2"
    using n2 assms(4,5,11) fill o2 by (intro ApplyOrderUpdate_succeeds [where row = r]) (auto simp: find_order_def venue_order_id_taken_def)
  then obtain u db3 where 3: "exec (q_ApplyOrderUpdate ?cid (d_To d) ?nf (avgFillPrice s r d ev' ?nf)
        (nullString (rf_VenueOrderID (ev_Ref ev'))) (nullString (ev_Reason ev'))) db2 = (Inr u, db3)"
    by (auto simp: succeeds_def)
  have n3: "no_faults db3" using no_faults_frame [OF n2 frame_exec [OF frame_stmts(3)] 3] .
  have "succeeds (insertEventOutbox r source ev' d ?nf) db3"
  proof -
    obtain p where p: "insertEventOutbox r source ev' d ?nf = bindS (insertOutboxJSON SubjectOrderUpdated (OrderUpdated p)) (\<lambda>_.
        if \<not> IsPositive (d_FillDelta d) then returnS () else insertOutboxJSON SubjectOrderFilled (OrderFilled
          \<lparr>of_ClientOrderID = o_ClientOrderID r, of_Venue = o_Venue r, of_Base = o_Base r, of_Quote = o_Quote r, of_Status = d_To d,
           of_FilledQty = ?nf, of_Qty = d_FillDelta d, of_Price = ev_FillPrice ev', of_Fee = ev_Fee ev',
           of_FeeCurrency = ev_FeeCurrency ev', of_VenueFillID = ev_VenueFillID ev', of_At = ev_At ev'\<rparr>))" "ou_At p = ev_At ev'"
      by (auto simp: insertEventOutbox_def)
    obtain v db4 where 4: "insertOutboxJSON SubjectOrderUpdated (OrderUpdated p) db3 = (Inr v, db4)"
      using insertOutboxJSON_succeeds [OF n3, of "OrderUpdated p"] p(2) ev' assms(8) by (auto simp: succeeds_def)
    have "no_faults db4" using no_faults_frame [OF n3 frame_insertOutboxJSON 4] .
    then show ?thesis unfolding p(1) using ev' assms(8) 4
      by (intro succeeds_bind [where s = db3 and x = v and ?s1.0 = db4]) (auto intro: insertOutboxJSON_succeeds)
  qed
  then obtain v db4 where 4: "insertEventOutbox r source ev' d ?nf db3 = (Inr v, db4)" by (auto simp: succeeds_def)
  obtain trID sq where x: "x = (trID, sq)" by (rule prod.exhaust)
  show ?thesis
    unfolding succeeds_def persistDecision_def Let_def using 1 2 3 4 x by auto
qed

lemma ApplyEvent_succeeds:
  assumes "no_faults db" "selector s = Select" "store_inv (db_durable db) (db_seq db)"
    "find_order (rf_ClientOrderID (ev_Ref ev)) (db_durable db) = Some r" "known_status (ev_Status ev)"
    "source \<in> {''local'', ''stream'', ''ack'', ''reconcile''}" "0 \<le> ev_FillPrice ev" "json_time_ok (ev_At ev)"
    "newID s \<notin> lot_ids (db_durable db)" "length (transitions_of (db_durable db) (rf_ClientOrderID (ev_Ref ev))) < 2147483647"
    "\<not> venue_order_id_taken (rf_ClientOrderID (ev_Ref ev)) (coalesce (o_VenueOrderID r) (nullString (rf_VenueOrderID (ev_Ref ev))))
      (o_Venue r) (db_durable db)"
  shows "succeeds (ApplyEvent s source ev) db"
proof -
  let ?cid = "rf_ClientOrderID (ev_Ref ev)" and ?vid = "rf_VenueOrderID (ev_Ref ev)"
  have I: "orders_inv (db_durable db)" "trail_inv (db_durable db)" using assms(3) by (simp_all add: store_inv_def)
  have r: "r \<in> set (orders (db_durable db))" "o_ClientOrderID r = ?cid" using find_order_mem [OF I(1) assms(4)] by auto
  have "known_status (st_Status (row_state r))" using I(1) r(1) by (simp add: orders_inv_def row_state_def)
  with assms(5) obtain d where d: "Transition (row_state r) ev = Inr d" using Transition_known by blast
  have sq: "max_seq ?cid (db_durable db) < 2147483647"
    using max_seq_length [of "db_durable db" ?cid] I(2) r assms(10) by (auto simp: trail_inv_def)
  define db1 where "db1 = db\<lparr>db_stmt := Suc (Suc (db_stmt db)), db_work := db_durable db, db_tx := Suc (db_tx db)\<rparr>"
  have n1: "no_faults db1" and w1: "db_work db1 = db_durable db" "db_seq db1 = db_seq db"
    using assms(1) by (simp_all add: db1_def no_faults_def)
  have commit: "\<exists>db'. commitTx x = (Inr (), db')" if "no_faults x" for x
    using that by (simp add: commitTx_def exec_Inr_iff no_faults_def)
  have run: "succeeds (if drops d then
           bindS (adoptVenueOrderID r ?vid) (\<lambda>adopted.
           bindS (if adopted then wrapS ''postgres: commit apply event'' commitTx else returnS ())
             (\<lambda>_. returnS (dropped_result d)))
         else bindS (persistDecision s r source ev d) (\<lambda>result.
           bindS (wrapS ''postgres: commit apply event'' commitTx) (\<lambda>_. returnS result))) db1"
  proof (cases "drops d")
    case True
    have "succeeds (adoptVenueOrderID r ?vid) db1"
    proof (cases "o_VenueOrderID r \<noteq> None \<or> ?vid = []")
      case True
      then show ?thesis by (auto simp: adoptVenueOrderID_def succeeds_def)
    next
      case False
      have "o_Venue x = o_Venue r" if "find (\<lambda>w. o_ClientOrderID w = ?cid \<and> o_VenueOrderID w = None) (orders (db_durable db)) = Some x" for x
      proof -
        have "x \<in> set (orders (db_durable db))" "o_ClientOrderID x = ?cid" using that by (auto simp: find_Some_iff)
        then have "x = r" using I(1) r by (auto simp: orders_inv_def intro: distinct_map_inj)
        then show ?thesis by simp
      qed
      then have "succeeds (exec (q_AdoptVenueOrderID ?cid (nullString ?vid))) db1"
        using n1 w1 assms(11) False by (intro succeeds_exec) (auto simp: succeeds_def q_AdoptVenueOrderID_def split: option.splits)
      then show ?thesis using False r(2) by (auto simp: adoptVenueOrderID_def succeeds_def)
    qed
    then obtain a db2 where 2: "adoptVenueOrderID r ?vid db1 = (Inr a, db2)" by (auto simp: succeeds_def)
    have "no_faults db2" using no_faults_frame [OF n1 frame_adopt 2] .
    with 2 True commit show ?thesis by (auto simp: succeeds_def)
  next
    case False
    have "succeeds (persistDecision s r source ev d) db1"
      using n1 w1 assms r sq Transition_Inr(3) [OF d] by (intro persistDecision_succeeds) auto
    then obtain a db2 where 2: "persistDecision s r source ev d db1 = (Inr a, db2)" by (auto simp: succeeds_def)
    have "no_faults db2" using no_faults_frame [OF n1 frame_persistDecision 2] .
    with 2 False commit show ?thesis by (auto simp: succeeds_def)
  qed
  have b: "beginTx db = (Inr (), db\<lparr>db_stmt := Suc (db_stmt db), db_work := db_durable db, db_tx := Suc (db_tx db)\<rparr>)"
    using assms(1) by (simp add: beginTx_def exec_Inr_iff no_faults_def)
  have g: "exec (q_GetOrderForUpdate ?cid) (db\<lparr>db_stmt := Suc (db_stmt db), db_work := db_durable db, db_tx := Suc (db_tx db)\<rparr>)
      = (Inr (Some r), db1)"
    using assms(1,4) by (simp add: exec_Inr_iff no_faults_def q_GetOrderForUpdate_def db1_def)
  show ?thesis
    using run b g d unfolding succeeds_def ApplyEvent_def inTx_eq applyEventTx_def drops_def dropped_result_def row_state_def
    by (auto simp: bindS_def wrapS_def mapErrS_def)
qed

end

subsection \<open>Properties\<close>

text \<open>
  C7: a well-formed event of a known order is always applied. On a reachable database whose connection
  does not fail, \<open>ApplyEvent\<close> succeeds for every event with a known status, a non-negative price and an
  encodable time, from a known source, as long as the fresh lot ID is unused, the order has fewer than
  2147483647 transitions and the venue's order ID belongs to no other order of the venue: no check, unique
  or foreign key constraint of the schema is ever violated, whatever the lots look like.
\<close>

theorem ApplyEvent_makes_progress:
  assumes "store_reach db" and "no_faults db" and "selector s = FIFO_Select"
    and "find_order (rf_ClientOrderID (ev_Ref ev)) (db_durable db) = Some r" and "known_status (ev_Status ev)"
    and "source \<in> {SourceLocal, SourceStream, SourceAck, SourceReconcile}" and "0 \<le> ev_FillPrice ev"
    and "json_time_ok (ev_At ev)" and "newID s \<notin> lo_ID ` set (lots (db_durable db))"
    and "length (transitions_of (db_durable db) (rf_ClientOrderID (ev_Ref ev))) < 2147483647"
    and "\<not> venue_order_id_taken (rf_ClientOrderID (ev_Ref ev))
      (coalesce (o_VenueOrderID r) (nullString (rf_VenueOrderID (ev_Ref ev)))) (o_Venue r) (db_durable db)"
  shows "\<exists>x db'. ApplyEvent s source ev db = (Inr x, db')"
  using fifo.ApplyEvent_succeeds [OF assms(2,3) store_reach_inv [OF assms(1)] assms(4,5)] assms(6-11)
  by (simp add: succeeds_def lot_ids_def SourceLocal_def SourceStream_def SourceAck_def SourceReconcile_def)

lemma ApplyEvent_makes_progress_witness:
  "\<exists>x db'. ApplyEvent demo_store SourceAck (demo_event StatusOpen 0) (demo_db Sell (\<lambda>_. None)) = (Inr x, db')"
proof -
  let ?db = "demo_db Sell (\<lambda>_. None)"
  have "map o_ClientOrderID (orders (db_durable ?db)) = [''01JG3'']" "lots (db_durable ?db) = []"
    "order_transitions (db_durable ?db) = []" "no_faults ?db"
    by (simp_all add: no_faults_def demo_defs run_defs eval_defs Let_def)
  then obtain r where r: "orders (db_durable ?db) = [r]" "o_ClientOrderID r = ''01JG3''" by auto
  show ?thesis
    by (rule ApplyEvent_makes_progress [OF demo_reach(1), where r = r])
      (use r \<open>lots (db_durable ?db) = []\<close> \<open>order_transitions (db_durable ?db) = []\<close> \<open>no_faults ?db\<close> in
        \<open>simp_all add: find_order_def transitions_of_def venue_order_id_taken_def demo_store_def demo_event_def
          json_time_ok_def duration_defs\<close>)
qed

end
