(* ===== verification/Store_Advance.thy ===== *)
theory Store_Advance
  imports Store_Progress
begin

section \<open>Orders only advance\<close>

text \<open>
  What one call of the stores can do to the rows of \<open>orders\<close>, whatever the caller, its arguments and
  the faults: rows are never deleted, the terms of an order never change, its status climbs in rank
  and stops at a terminal one, its filled quantity grows, and the venue's ID and the stamp of the
  cancel request are written once. The services are built on this: between two of their calls any
  number of other calls may have run.
\<close>

inductive store_step :: "DB \<Rightarrow> DB \<Rightarrow> bool" where
  create: "CreatePending req db = (r1, db') \<Longrightarrow> store_step db db'"
| apply_event: "selector s = FIFO_Select \<Longrightarrow> ApplyEvent s source ev db = (r2, db') \<Longrightarrow> store_step db db'"
| mark_cancel: "MarkCancelRequested cid ts db = (r3, db') \<Longrightarrow> store_step db db'"
| get: "GetOrder cid db = (r4, db') \<Longrightarrow> store_step db db'"
| list_active: "ListActiveOrders venue db = (r5, db') \<Longrightarrow> store_step db db'"
| list_page: "ListOrders query db = (r6, db') \<Longrightarrow> store_step db db'"
| publish: "PublishPending n (\<lambda>m. traced Publish (relayEvent m)) (db, b, l) = (r7, (db', w)) \<Longrightarrow> store_step db db'"
| delete: "DeletePublishedBefore ts db = (r8, db') \<Longrightarrow> store_step db db'"
| stats: "UnpublishedStats db = (r9, db') \<Longrightarrow> store_step db db'"

lemma store_step_reach: "store_step db db' \<Longrightarrow> store_reach db \<Longrightarrow> store_reach db'"
  by (induction rule: store_step.induct) (blast intro: store_reach.intros)+

lemma store_steps_reach: "store_step\<^sup>*\<^sup>* db db' \<Longrightarrow> store_reach db \<Longrightarrow> store_reach db'"
  by (induction rule: rtranclp_induct) (auto intro: store_step_reach)

definition row_advances :: "OrderRow \<Rightarrow> OrderRow \<Rightarrow> bool" where
  "row_advances row row' \<longleftrightarrow> row_terms row' = row_terms row
     \<and> rank_of (o_Status row) \<le> rank_of (o_Status row') \<and> (Terminal (o_Status row) \<longrightarrow> o_Status row' = o_Status row)
     \<and> o_FilledQty row \<le> o_FilledQty row'
     \<and> (o_VenueOrderID row \<noteq> None \<longrightarrow> o_VenueOrderID row' = o_VenueOrderID row)
     \<and> (o_CancelRequestedAt row \<noteq> None \<longrightarrow> o_CancelRequestedAt row' = o_CancelRequestedAt row)"

definition advances :: "Tables \<Rightarrow> Tables \<Rightarrow> bool" where
  "advances T T' \<longleftrightarrow> (\<forall>cid row. find_order cid T = Some row \<longrightarrow>
     (\<exists>row'. find_order cid T' = Some row' \<and> row_advances row row'))"

lemma row_advances_refl [simp]: "row_advances row row" by (simp add: row_advances_def)

lemma row_advances_trans: "row_advances a b \<Longrightarrow> row_advances b c \<Longrightarrow> row_advances a c"
  unfolding row_advances_def by auto

lemma advances_refl [simp]: "advances T T" by (simp add: advances_def)

lemma advances_trans: "advances T U \<Longrightarrow> advances U V \<Longrightarrow> advances T V"
  unfolding advances_def by (meson row_advances_trans)

lemma advancesD: "advances T T' \<Longrightarrow> find_order cid T = Some row \<Longrightarrow>
    \<exists>row'. find_order cid T' = Some row' \<and> row_advances row row'"
  by (simp add: advances_def)

lemma advances_orders: "orders T' = orders T \<Longrightarrow> advances T T'"
  by (auto simp: advances_def find_order_def intro: row_advances_refl)

lemma find_append_Some: "find P xs = Some x \<Longrightarrow> find P (xs @ ys) = Some x"
  by (induction xs) auto

lemma advances_append: "orders T' = orders T @ rows \<Longrightarrow> advances T T'"
  using find_append_Some by (fastforce simp: advances_def find_order_def)

lemma advances_update:
  assumes "orders T' = update_where P g (orders T)" "\<And>w. row_terms (g w) = row_terms w"
    "\<And>cid w. find_order cid T = Some w \<Longrightarrow> P w \<Longrightarrow> row_advances w (g w)"
  shows "advances T T'"
proof -
  have "o_ClientOrderID (g w) = o_ClientOrderID w" for w using assms(2) [of w] by (simp add: row_terms_def)
  then have "find_order cid T' = map_option (\<lambda>w. if P w then g w else w) (find_order cid T)" for cid
    unfolding find_order_def assms(1) by (rule find_update_where_P)
  then show ?thesis using assms(3) by (auto simp: advances_def)
qed

lemma join_terminal: "Terminal (st_Status st) \<Longrightarrow> st_Status (join_event ev st) = st_Status st"
  using rank_of_le [of "ev_Status ev"] by (simp add: join_event_def Terminal_iff)

lemma applies_advances:
  assumes "applies row d v n n' T T'" "find_order (o_ClientOrderID row) T = Some row"
    "Transition (row_state row) ev = Inr d"
  shows "advances T T'"
proof -
  from assms(1) obtain g where g: "orders T' = update_where (\<lambda>w. o_ClientOrderID w = o_ClientOrderID row) g (orders T)"
    "\<forall>w. row_terms (g w) = row_terms w \<and> o_CancelRequestedAt (g w) = o_CancelRequestedAt w
      \<and> o_VenueOrderID (g w) = coalesce (o_VenueOrderID w) (nullString v)
      \<and> row_state (g w) = \<lparr>st_Status = d_To d, st_FilledQty = o_FilledQty row + d_FillDelta d\<rparr>"
    unfolding applies_def by blast
  have j: "apply_decision (row_state row) d = join_event ev (row_state row)" using Transition_Inr(5) [OF assms(3)] by simp
  have "row_advances row (g row)"
  proof -
    have "row_state (g row) = join_event ev (row_state row)"
      using g(2) j by (simp add: apply_decision_def row_state_def)
    then have "o_Status (g row) = st_Status (join_event ev (row_state row))"
      "o_FilledQty (g row) = st_FilledQty (join_event ev (row_state row))"
      by (metis row_state_def State.select_convs(1), metis row_state_def State.select_convs(2))
    then show ?thesis
      using join_event_mono [of "row_state row" ev] join_terminal [of "row_state row" ev] g(2)
      by (cases "o_VenueOrderID row") (auto simp: row_advances_def row_state_def)
  qed
  then have adv: "row_advances row (g row)" .
  show ?thesis
  proof (rule advances_update [OF g(1)])
    show "row_terms (g w) = row_terms w" for w using g(2) by blast
    fix cid w assume w: "find_order cid T = Some w" "o_ClientOrderID w = o_ClientOrderID row"
    with assms(2) find_order_row [OF w(1)] have "w = row" by simp
    with adv show "row_advances w (g w)" by simp
  qed
qed

lemma ApplyEvent_advances:
  assumes "ApplyEvent s source ev db = (r, db')" "selector s = FIFO_Select" "store_inv (db_durable db) (db_seq db)"
  shows "advances (db_durable db) (db_durable db')"
  using assms(1)
proof (cases rule: ApplyEvent_cases)
  case unchanged
  then show ?thesis by simp
next
  case (adopted row d t)
  show ?thesis
    by (rule advances_update [where P = "\<lambda>w. o_ClientOrderID w = rf_ClientOrderID (ev_Ref ev) \<and> o_VenueOrderID w = None"
          and g = "\<lambda>w. w\<lparr>o_VenueOrderID := Some (rf_VenueOrderID (ev_Ref ev)), o_UpdatedAt := t\<rparr>"])
      (auto simp: adopted(6) adopt_def row_advances_def row_terms_def)
next
  case (persisted row d res db1 db2)
  have cid: "o_ClientOrderID row = rf_ClientOrderID (ev_Ref ev)" using persisted(1) by (rule find_order_row)
  have "applies row d (rf_VenueOrderID (ev_Ref ev)) (seq_fills (db_seq db1)) (seq_fills (db_seq db2)) (db_durable db) (db_durable db')"
    using fifo.ApplyEvent_applies [OF persisted(4) assms(2), of "db_seq db"] persisted assms(3) by auto
  from applies_advances [OF this _ persisted(2)] persisted(1) cid show ?thesis by simp
qed

lemma autocommit_advances:
  assumes "autocommit q db = (r, db')" "keeps frame q"
    "\<And>db1 x db2. q db1 = (Inr x, db2) \<Longrightarrow> advances (db_work db1) (db_work db2)"
  shows "advances (db_durable db) (db_durable db')"
  using assms(1,2)
proof (cases rule: autocommit_cases)
  case unchanged
  then show ?thesis by simp
next
  case (ran x db1 db2)
  with assms(3) [OF ran(3)] show ?thesis by simp
qed

lemma MarkCancel_advances: "q_MarkCancelRequested cid ts db1 = (Inr x, db2) \<Longrightarrow> advances (db_work db1) (db_work db2)"
  by (rule advances_update [where P = "\<lambda>w. o_ClientOrderID w = cid"
        and g = "\<lambda>w. w\<lparr>o_CancelRequestedAt := (case o_CancelRequestedAt w of None \<Rightarrow> Some (pg_time ts) | Some t \<Rightarrow> Some t),
          o_UpdatedAt := now db1\<rparr>"])
    (auto simp: q_MarkCancelRequested_def set_work_def row_advances_def row_terms_def)

lemma InsertPending_advances: "InsertPendingOrder cid venue base quote symbol side typ price qty botID db1 = (Inr x, db2)
    \<Longrightarrow> advances (db_work db1) (db_work db2)"
  by (auto simp: InsertPendingOrder_def set_work_def intro: advances_append split: if_splits)

lemma store_step_advances: "store_step db db' \<Longrightarrow> store_reach db \<Longrightarrow> advances (db_durable db) (db_durable db')"
proof (induction rule: store_step.induct)
  case (create req db r1 db')
  from autocommit_wrap_bind [OF create.hyps(1) [unfolded CreatePending_def]] obtain x where
    "autocommit (InsertPendingOrder (rq_ClientOrderID req)
      (i_Venue (rq_Instrument req)) (i_Base (rq_Instrument req)) (i_Quote (rq_Instrument req))
      (i_VenueSymbol (rq_Instrument req)) (rq_Side req) (rq_Type req) (rq_Price req) (rq_Qty req) (rq_BotID req)) db = (x, db')" by auto
  then show ?case by (rule autocommit_advances [OF _ frame_stmts_auto(1) InsertPending_advances])
next
  case (apply_event s source ev db r2 db')
  then show ?case using ApplyEvent_advances store_reach_inv by blast
next
  case (mark_cancel cid ts db r3 db')
  from autocommit_wrap_bind [OF mark_cancel.hyps(1) [unfolded MarkCancelRequested_def]] obtain x where
    "autocommit (q_MarkCancelRequested cid ts) db = (x, db')" by auto
  then show ?case by (rule autocommit_advances [OF _ frame_stmts_auto(5) MarkCancel_advances])
next
  case (get cid db r4 db')
  from autocommit_wrap_bind [OF get.hyps(1) [unfolded GetOrder_def]] obtain x where
    "autocommit (q_GetOrder cid) db = (x, db')" by (auto split: option.split)
  then show ?case by (rule autocommit_advances [OF _ frame_stmts_auto(2)]) (auto simp: q_GetOrder_def)
next
  case (list_active venue db r5 db')
  from autocommit_wrap_bind [OF list_active.hyps(1) [unfolded ListActiveOrders_def]] obtain x where
    "autocommit (q_ListActiveOrders venue) db = (x, db')" by auto
  then show ?case by (rule autocommit_advances [OF _ frame_stmts_auto(3)]) (auto simp: q_ListActiveOrders_def)
next
  case (list_page query db r6 db')
  from autocommit_wrap_bind [OF list_page.hyps(1) [unfolded ListOrders_def]] obtain x where
    "autocommit (q_ListOrders (q_Venue query) (if q_Statuses query = [] then None else Some (q_Statuses query)) (q_BotID query)
      (map_option pg_time (q_CursorCreatedAt query)) (q_CursorID query) (wrap64 (q_Limit query + 1))) db = (x, db')" by auto
  then show ?case by (rule autocommit_advances [OF _ frame_stmts_auto(4)]) (auto simp: q_ListOrders_def split: if_splits)
next
  case (publish n db b l r7 db' w)
  then show ?case using PublishPending_cases [OF publish.hyps(1)]
    by (auto simp: published_or_not_def intro: advances_orders)
next
  case (delete ts db r8 db')
  then obtain x where "autocommit (q_DeleteOutboxPublishedBefore ts) db = (x, db')"
    by (auto simp: DeletePublishedBefore_def wrapS_def mapErrS_def split: prod.splits sum.splits)
  then show ?case
    by (rule autocommit_advances [OF _ frame_stmts_auto(6)])
      (auto simp: q_DeleteOutboxPublishedBefore_def set_work_def intro: advances_orders)
next
  case (stats db r9 db')
  then obtain x where "autocommit q_OutboxUnpublishedStats db = (x, db')"
    by (auto simp: UnpublishedStats_def wrapS_def mapErrS_def split: prod.splits sum.splits)
  then show ?case
    by (rule autocommit_advances [OF _ frame_stmts_auto(7)]) (auto simp: q_OutboxUnpublishedStats_def Let_def)
qed

lemma store_steps_advance: "store_step\<^sup>*\<^sup>* db db' \<Longrightarrow> store_reach db \<Longrightarrow> advances (db_durable db) (db_durable db')"
  by (induction rule: rtranclp_induct) (auto intro: advances_trans store_step_advances dest: store_steps_reach)

text \<open>
  C4: an order that is stored stays stored and only advances, through any sequence of calls of the
  stores with any arguments and under any faults. Its identity and its terms (client order ID, bot,
  venue, pair, symbol, side, type, price, quantity, creation time) never change; its status never falls
  in rank, and a terminal status is final; its filled quantity never falls; the venue's order ID, once
  adopted, and the time of the first cancel request are never overwritten.
\<close>

theorem orders_only_advance:
  assumes "store_reach db" "store_step\<^sup>*\<^sup>* db db'" "find_order cid (db_durable db) = Some row"
  shows "\<exists>row'. find_order cid (db_durable db') = Some row' \<and> row_terms row' = row_terms row
     \<and> rank_of (o_Status row) \<le> rank_of (o_Status row') \<and> (Terminal (o_Status row) \<longrightarrow> o_Status row' = o_Status row)
     \<and> o_FilledQty row \<le> o_FilledQty row'
     \<and> (o_VenueOrderID row \<noteq> None \<longrightarrow> o_VenueOrderID row' = o_VenueOrderID row)
     \<and> (o_CancelRequestedAt row \<noteq> None \<longrightarrow> o_CancelRequestedAt row' = o_CancelRequestedAt row)"
  using advancesD [OF store_steps_advance [OF assms(2,1)] assms(3)] by (simp add: row_advances_def)

lemma demo_step: "store_step (demo_db side (\<lambda>_. None)) (demo_run side)"
  unfolding demo_run_def by (rule store_step.apply_event [OF _ prod.collapse [symmetric]]) (simp add: demo_store_def)

lemma demo_row: "\<exists>row. find_order ''01JG3'' (db_durable (demo_db Buy (\<lambda>_. None))) = Some row \<and> o_Status row = StatusPending"
  by (simp add: demo_defs run_defs eval_defs Let_def)

lemma orders_only_advance_witness:
  "\<exists>row row'. find_order ''01JG3'' (db_durable (demo_db Buy (\<lambda>_. None))) = Some row
     \<and> find_order ''01JG3'' (db_durable (demo_run Buy)) = Some row' \<and> row_terms row' = row_terms row"
proof -
  from demo_row obtain row where "find_order ''01JG3'' (db_durable (demo_db Buy (\<lambda>_. None))) = Some row" by blast
  with orders_only_advance [OF demo_reach(1) r_into_rtranclp [of store_step, OF demo_step] this] show ?thesis by blast
qed

end
