(* ===== verification/Store_Errors.thy ===== *)
theory Store_Errors
  imports Store_Advance
begin

section \<open>What the store reports as not found\<close>

text \<open>
  The services treat \<open>ErrNotFound\<close> as an answer and every other error of the store as a failure, so it
  matters that nothing but a missing order is reported that way. The errors of the driver, which
  \<open>db_faults\<close> injects, are not that sentinel; every other error of the store's operations is a text of
  its own or wraps one of those.
\<close>

named_theorems clean_intros \<open>operations that never report a missing record\<close>

definition driver_faults :: "DB \<Rightarrow> bool" where
  "driver_faults db \<longleftrightarrow> (\<forall>n e. db_faults db n = Some (FailBefore e) \<or> db_faults db n = Some (FailAfter e) \<longrightarrow>
     \<not> errors_Is e ErrNotFound)"

definition same_faults :: "DB \<Rightarrow> DB \<Rightarrow> bool" where "same_faults db db' \<longleftrightarrow> db_faults db' = db_faults db"

lemma same_faults_order: "reflp same_faults" "transp same_faults"
  by (auto simp: same_faults_def reflp_def intro!: transpI)

lemma same_faults_frame: "keeps frame m \<Longrightarrow> keeps same_faults m"
  by (auto simp: keeps_def frame_def same_faults_def)

lemma same_faults_Tx: "keeps same_faults beginTx" "keeps same_faults commitTx"
  by (auto simp: keeps_def same_faults_def beginTx_def commitTx_def exec_def Let_def split: option.split Fault.split)

lemma same_faults_inTx:
  assumes "keeps same_faults body"
  shows "keeps same_faults (inTx w body)"
  unfolding keeps_def
proof
  fix db
  obtain r db1 where 1: "wrapS w beginTx db = (r, db1)" by (rule prod.exhaust)
  then have "same_faults db db1" using same_faults_Tx(1) by (metis keeps_wrap keepsD)
  moreover have "same_faults db1 (snd (body db1))" using assms by (simp add: keeps_def)
  ultimately show "same_faults db (snd (inTx w body db))"
    by (cases r) (auto simp: inTx_eq 1 same_faults_def rollbackTx_def)
qed

lemma same_faults_autocommit:
  assumes "keeps frame q"
  shows "keeps same_faults (autocommit q)"
proof -
  have "db_faults (snd (q db)) = db_faults db" for db using assms by (simp add: keeps_def frame_def)
  then have "q db = (r, db') \<Longrightarrow> db_faults db' = db_faults db" for r db db' by (metis snd_conv)
  then show ?thesis
    by (auto simp: keeps_def same_faults_def autocommit_def exec_def Let_def rollbackTx_def
        split: option.split Fault.split prod.split sum.split)
qed

definition clean :: "'a dbop \<Rightarrow> bool" where
  "clean m \<longleftrightarrow> keeps same_faults m
     \<and> (\<forall>db e db'. driver_faults db \<longrightarrow> m db = (Inl e, db') \<longrightarrow> \<not> errors_Is e ErrNotFound)"

lemma cleanD: "clean m \<Longrightarrow> driver_faults db \<Longrightarrow> m db = (Inl e, db') \<Longrightarrow> \<not> errors_Is e ErrNotFound"
  unfolding clean_def by blast

lemma clean_faults: "keeps same_faults m \<Longrightarrow> m db = (r, db') \<Longrightarrow> driver_faults db' = driver_faults db"
  using keepsD by (fastforce simp: same_faults_def driver_faults_def)

lemma clean_return [clean_intros]: "clean (returnS x)"
  by (simp add: clean_def same_faults_order)

lemma clean_fail [clean_intros]: "\<not> errors_Is e ErrNotFound \<Longrightarrow> clean (failS e)"
  by (simp add: clean_def same_faults_order)

lemma clean_wrap [clean_intros]: "clean m \<Longrightarrow> clean (wrapS t m)"
  unfolding clean_def by (auto simp: wrapS_Inl_iff)

lemma clean_bind [clean_intros]:
  assumes "clean m" "\<And>x. clean (f x)"
  shows "clean (bindS m f)"
proof -
  have k: "keeps same_faults m" "\<And>x. keeps same_faults (f x)" using assms by (auto simp: clean_def)
  have "\<not> errors_Is e ErrNotFound" if d: "driver_faults db" and e: "bindS m f db = (Inl e, db')" for db e db'
    using e unfolding bindS_Inl_iff
  proof (elim disjE exE conjE)
    assume "m db = (Inl e, db')"
    then show ?thesis by (rule cleanD [OF assms(1) d])
  next
    fix x u assume u: "m db = (Inr x, u)" "f x u = (Inl e, db')"
    then have "driver_faults u" using clean_faults [OF k(1)] d by blast
    from cleanD [OF assms(2) this u(2)] show ?thesis .
  qed
  with k show ?thesis by (auto simp: clean_def intro: keeps_bind same_faults_order)
qed

lemma clean_for [clean_intros]: "(\<And>x. clean (f x)) \<Longrightarrow> clean (forS f xs)"
  by (induction xs) (auto intro: clean_intros)

lemma clean_exec:
  assumes "keeps frame q" "\<And>db e db'. q db = (Inl e, db') \<Longrightarrow> \<not> errors_Is e ErrNotFound"
  shows "clean (exec q)"
  using assms(2) frame_exec [OF assms(1), THEN same_faults_frame]
  unfolding clean_def driver_faults_def exec_def Let_def by (auto split: option.splits Fault.splits)

lemma clean_stmts [clean_intros]:
  "clean (exec (q_GetOrderForUpdate cid))"
  "clean (exec (q_AdoptVenueOrderID cid vid))"
  "clean (exec (q_ApplyOrderUpdate cid status filled avg vid reason))"
  "clean (exec (q_InsertTransition cid from_st to_st filled source reason ts))"
  "clean (exec (q_InsertFill p))"
  "clean (exec (q_LockInventory key))"
  "clean (exec (q_InsertLot lid botID venue base quote qty cost fill ts))"
  "clean (exec (q_ListOpenLotsForUpdate botID venue base quote))"
  "clean (exec (q_InsertLotClosure lid fill qty price ts))"
  "clean (exec (q_DecrementLot lid qty ts))"
  "clean (exec (q_InsertUnmatchedSell fill botID venue base quote qty ts))"
  "clean (exec (q_InsertOutbox subject payload))"
  by (rule clean_exec, rule frame_stmts,
      (auto simp: stmt_defs violates_def returnS_def Let_def set_work_def split: if_splits option.splits)[1])+

lemma clean_commit [clean_intros]: "clean commitTx"
  using same_faults_Tx(2)
  by (auto simp: clean_def commitTx_def exec_def Let_def driver_faults_def split: option.splits Fault.splits)

lemma clean_persistDecision: "clean (persistDecision s row source ev d)"
  unfolding persistDecision_def persistFill_def insertFill_def postLedgerFill_def openLot_def closeLots_def
    recordClosure_def recordUnmatched_def insertEventOutbox_def insertOutboxJSON_def Let_def
  by (auto intro!: clean_intros split: prod.split option.split)

lemma clean_adopt: "clean (adoptVenueOrderID row vid)"
  unfolding adoptVenueOrderID_def by (auto intro!: clean_intros)

lemma clean_beginTx: "clean beginTx"
  using same_faults_Tx(1)
  by (auto simp: clean_def beginTx_def exec_def Let_def driver_faults_def split: option.splits Fault.splits)

lemma Transition_error_clean: "Transition st ev = Inl e \<Longrightarrow> \<not> errors_Is e ErrNotFound"
  by (auto simp: Transition_def bindR_Inl_iff rank_def Let_def split: if_splits)

lemma applyEventTx_unknown:
  assumes "applyEventTx s source ev db = (Inl e, db')" "driver_faults db" "errors_Is e ErrNotFound"
  shows "find_order (rf_ClientOrderID (ev_Ref ev)) (db_work db) = None"
proof (rule ccontr)
  let ?get = "wrapS ''postgres: lock order'' (exec (q_GetOrderForUpdate (rf_ClientOrderID (ev_Ref ev))))"
  assume "find_order (rf_ClientOrderID (ev_Ref ev)) (db_work db) \<noteq> None"
  then obtain row where row: "find_order (rf_ClientOrderID (ev_Ref ev)) (db_work db) = Some row" by blast
  have c: "clean ?get" by (intro clean_intros)
  consider "?get db = (Inl e, db')" | r db1 where "?get db = (Inr r, db1)"
      "(case r of None \<Rightarrow> failS (ESentinel ErrNotFound) | Some row \<Rightarrow>
        (case Transition \<lparr>st_Status = o_Status row, st_FilledQty = o_FilledQty row\<rparr> ev of
           Inl e \<Rightarrow> failS e
         | Inr decision \<Rightarrow>
           if \<not> d_Transition decision \<and> \<not> IsPositive (d_FillDelta decision) then
             bindS (adoptVenueOrderID row (rf_VenueOrderID (ev_Ref ev))) (\<lambda>adopted.
             bindS (if adopted then wrapS ''postgres: commit apply event'' commitTx else returnS ())
               (\<lambda>_. returnS \<lparr>ar_Decision = decision, ar_Outcome = \<lparr>UnmatchedQty = 0\<rparr>, ar_FillConflict = False\<rparr>))
           else
             bindS (persistDecision s row source ev decision) (\<lambda>result.
             bindS (wrapS ''postgres: commit apply event'' commitTx) (\<lambda>_. returnS result)))) db1 = (Inl e, db')"
    using assms(1) unfolding applyEventTx_def bindS_Inl_iff by blast
  then show False
  proof cases
    case 1
    with cleanD [OF c assms(2)] assms(3) show False by blast
  next
    case 2
    then have r: "r = Some row" using row by (auto simp: exec_Inr_iff q_GetOrderForUpdate_def)
    have "driver_faults db1" using clean_faults [of ?get, OF _ 2(1)] c assms(2) by (simp add: clean_def)
    moreover have "clean (case Transition \<lparr>st_Status = o_Status row, st_FilledQty = o_FilledQty row\<rparr> ev of
           Inl e \<Rightarrow> failS e
         | Inr decision \<Rightarrow>
           if \<not> d_Transition decision \<and> \<not> IsPositive (d_FillDelta decision) then
             bindS (adoptVenueOrderID row (rf_VenueOrderID (ev_Ref ev))) (\<lambda>adopted.
             bindS (if adopted then wrapS ''postgres: commit apply event'' commitTx else returnS ())
               (\<lambda>_. returnS \<lparr>ar_Decision = decision, ar_Outcome = \<lparr>UnmatchedQty = 0\<rparr>, ar_FillConflict = False\<rparr>))
           else
             bindS (persistDecision s row source ev decision) (\<lambda>result.
             bindS (wrapS ''postgres: commit apply event'' commitTx) (\<lambda>_. returnS result)))"
      by (auto split: sum.split intro!: clean_intros clean_adopt clean_persistDecision Transition_error_clean)
    ultimately show False using cleanD 2(2) r assms(3) by fastforce
  qed
qed

lemma ApplyEvent_unknown:
  assumes "ApplyEvent s source ev db = (Inl e, db')" "driver_faults db" "errors_Is e ErrNotFound"
  shows "find_order (rf_ClientOrderID (ev_Ref ev)) (db_durable db) = None"
proof -
  obtain b db0 where 0: "wrapS ''postgres: begin apply event'' beginTx db = (b, db0)" by (rule prod.exhaust)
  have c: "clean (wrapS ''postgres: begin apply event'' beginTx)" by (intro clean_intros clean_beginTx)
  show ?thesis
  proof (cases b)
    case (Inl x)
    with 0 assms cleanD [OF c assms(2)] show ?thesis by (auto simp: ApplyEvent_def inTx_def)
  next
    case (Inr u)
    have d: "driver_faults db0" using clean_faults [of "wrapS ''postgres: begin apply event'' beginTx", OF _ 0] c assms(2) by (simp add: clean_def)
    have w: "db_work db0 = db_durable db" using 0 Inr beginTx_Inr by auto
    obtain x db1 where 1: "applyEventTx s source ev db0 = (x, db1)" by (rule prod.exhaust)
    have "x = Inl e" using 0 Inr 1 assms(1) by (simp add: ApplyEvent_def inTx_def del: wrapS_Inr_iff)
    from applyEventTx_unknown [OF 1 [unfolded this] d assms(3)] w show ?thesis by simp
  qed
qed

lemma autocommit_clean:
  assumes "autocommit q db = (Inl e, db')" "driver_faults db" "\<And>db e db'. q db = (Inl e, db') \<Longrightarrow> \<not> errors_Is e ErrNotFound"
  shows "\<not> errors_Is e ErrNotFound"
proof -
  let ?db1 = "db\<lparr>db_stmt := Suc (db_stmt db), db_work := db_durable db, db_tx := Suc (db_tx db)\<rparr>"
  have "\<not> errors_Is e' ErrNotFound" if "q ?db1 = (Inl e', d)" for e' d using assms(3) that .
  with assms(1,2) show ?thesis
    by (auto simp: autocommit_def exec_def Let_def driver_faults_def
        split: option.splits Fault.splits prod.splits sum.splits)
qed

lemma GetOrder_unknown:
  assumes "GetOrder cid db = (Inl e, db')" "driver_faults db" "errors_Is e ErrNotFound"
  shows "find_order cid (db_durable db') = None"
proof -
  from assms(1) consider (failed) e' where "autocommit (q_GetOrder cid) db = (Inl e', db')" "errors_Is e ErrNotFound = errors_Is e' ErrNotFound"
    | (none) "autocommit (q_GetOrder cid) db = (Inr None, db')"
    by (auto simp: GetOrder_def bindS_Inl_iff wrapS_Inl_iff split: option.splits)
  then show ?thesis
  proof cases
    case failed
    from autocommit_clean [OF failed(1) assms(2)] failed(2) assms(3) show ?thesis by (simp add: q_GetOrder_def)
  next
    case none
    then show ?thesis
      by (auto simp: autocommit_def exec_def Let_def q_GetOrder_def split: option.splits Fault.splits)
  qed
qed

text \<open>No call of the stores changes which statements the connection fails.\<close>

lemma same_faults_read: "keeps frame q \<Longrightarrow> (\<And>x. keeps same_faults (f x)) \<Longrightarrow> keeps same_faults (bindS (wrapS t (autocommit q)) f)"
  by (intro keeps_bind [OF same_faults_order(2)]) (simp_all add: same_faults_autocommit)

lemma same_faults_store:
  "keeps same_faults (CreatePending req)" "keeps same_faults (MarkCancelRequested cid ts)" "keeps same_faults (GetOrder cid)"
  "keeps same_faults (ListActiveOrders venue)" "keeps same_faults (ListOrders query)"
  "keeps same_faults (DeletePublishedBefore ts)" "keeps same_faults UnpublishedStats"
  unfolding CreatePending_def MarkCancelRequested_def GetOrder_def ListActiveOrders_def ListOrders_def
    DeletePublishedBefore_def UnpublishedStats_def
  by (auto intro!: same_faults_read frame_stmts_auto same_faults_autocommit keeps_return keeps_fail same_faults_order split: option.split)

lemma same_faults_ApplyEvent: "keeps same_faults (ApplyEvent s source ev)"
  unfolding ApplyEvent_def applyEventTx_def
  by (auto intro!: same_faults_inTx keeps_bind [OF same_faults_order(2)] keeps_return keeps_fail same_faults_order
      same_faults_Tx frame_persistDecision [THEN same_faults_frame] frame_adopt [THEN same_faults_frame]
      frame_stmts_exec [THEN same_faults_frame] split: option.split sum.split)

lemma same_faults_PublishPending:
  assumes "PublishPending n (\<lambda>m. traced busPublish (relayEvent m)) s = (r, s')"
  shows "db_faults (fst s') = db_faults (fst s)"
proof -
  let ?R = "\<lambda>s s'. same_faults (fst s) (fst s')"
  have R: "reflp ?R" "transp ?R" using same_faults_order by (auto simp: reflp_def transp_def)
  have db: "keeps same_faults m \<Longrightarrow> keeps ?R (onDB m)" for m
    unfolding keeps_def onDB_def by (auto split: prod.splits) (metis snd_conv)
  have bus: "keeps ?R (onBus m)" for m
    using R(1) unfolding keeps_def onBus_def by (auto simp: reflp_def split: prod.splits)
  have k2: "keeps ?R (publishPendingTx n (\<lambda>m. traced busPublish (relayEvent m)))"
    unfolding publishPendingTx_def
    by (auto intro!: keeps_bind [OF R(2)] keeps_return [OF R(1)] keeps_for [OF R] db bus same_faults_Tx
        frame_stmts_exec [THEN same_faults_frame])
  have k1: "keeps ?R (wrapS ''postgres: begin outbox publish'' (onDB beginTx))" by (auto intro: db same_faults_Tx)
  obtain b s1 where 1: "wrapS ''postgres: begin outbox publish'' (onDB beginTx) s = (b, s1)" by (rule prod.exhaust)
  obtain x s2 where 2: "publishPendingTx n (\<lambda>m. traced busPublish (relayEvent m)) s1 = (x, s2)" by (rule prod.exhaust)
  have "?R s s1" "?R s1 s2" using keepsD [OF k1 1] keepsD [OF k2 2] by simp_all
  then show ?thesis
    using assms 1 2 by (cases b) (auto simp: PublishPending_def same_faults_def rollbackTx_def split: prod.splits)
qed

lemma store_step_faults: "store_step db db' \<Longrightarrow> db_faults db' = db_faults db"
  by (induction rule: store_step.induct)
    (auto dest: keepsD [OF same_faults_ApplyEvent] same_faults_PublishPending
      keepsD [OF same_faults_store(1)] keepsD [OF same_faults_store(2)] keepsD [OF same_faults_store(3)]
      keepsD [OF same_faults_store(4)] keepsD [OF same_faults_store(5)] keepsD [OF same_faults_store(6)]
      keepsD [OF same_faults_store(7)] simp: same_faults_def)

lemma store_steps_faults: "store_step\<^sup>*\<^sup>* db db' \<Longrightarrow> db_faults db' = db_faults db"
  by (induction rule: rtranclp_induct) (auto dest: store_step_faults)

lemma driver_faults_cong: "db_faults db' = db_faults db \<Longrightarrow> driver_faults db' = driver_faults db"
  by (simp add: driver_faults_def)

subsection \<open>The error of an unknown order\<close>

text \<open>
  \<open>ErrNotFound\<close> means that the order is not stored. When the errors of the driver are not that
  sentinel, \<open>ApplyEvent\<close> reports it only for an order that has no row, whatever else goes wrong in the
  transaction; and an event for an order without a row is reported as exactly that sentinel, with the
  tables untouched, when no statement fails.
\<close>

theorem ApplyEvent_not_found:
  assumes "driver_faults db"
  shows "(ApplyEvent s source ev db = (Inl e, db') \<and> errors_Is e ErrNotFound \<longrightarrow>
      find_order (rf_ClientOrderID (ev_Ref ev)) (db_durable db) = None)
    \<and> (find_order (rf_ClientOrderID (ev_Ref ev)) (db_durable db) = None \<and> db_faults db = (\<lambda>_. None) \<longrightarrow>
      fst (ApplyEvent s source ev db) = Inl (ESentinel ErrNotFound)
      \<and> db_durable (snd (ApplyEvent s source ev db)) = db_durable db)"
  using assms ApplyEvent_unknown
  by (auto simp: ApplyEvent_def inTx_def applyEventTx_def beginTx_def exec_def Let_def bindS_def wrapS_def mapErrS_def
      q_GetOrderForUpdate_def failS_def rollbackTx_def)

lemma ApplyEvent_not_found_witness:
  "driver_faults (new_db (\<lambda>_. None) (\<lambda>_. Time 1000))
   \<and> fst (ApplyEvent demo_store SourceStream (demo_event StatusFilled 1) (new_db (\<lambda>_. None) (\<lambda>_. Time 1000)))
       = Inl (ESentinel ErrNotFound)"
proof -
  have d: "driver_faults (new_db (\<lambda>_. None) (\<lambda>_. Time 1000))" by (simp add: driver_faults_def new_db_def)
  have "find_order (rf_ClientOrderID (ev_Ref (demo_event StatusFilled 1))) (db_durable (new_db (\<lambda>_. None) (\<lambda>_. Time 1000))) = None"
    by (simp add: new_db_def no_tables_def find_order_def)
  with d ApplyEvent_not_found [OF d, of demo_store SourceStream "demo_event StatusFilled 1"] show ?thesis
    by (simp add: new_db_def)
qed

end
