(* ===== verification/Trading_Ports.thy ===== *)
theory Trading_Ports
  imports Store_Errors
begin

section \<open>The ports between the services, the stores and the venues\<close>

text \<open>
  \<open>internal/ports/store.go\<close> and \<open>internal/ports/trading.go\<close>: the interfaces the order service and the
  reconciler are written against. A Go interface is a record of operations on the world \<open>'w\<close> that the
  process shares; the services take such records, as their constructors take the interfaces. What a
  service relies on is a locale over the operations: the rows of the stored orders as the database
  holds them, the calls that have reached a venue, and the laws of each operation. The locales are
  interpreted on the Postgres store in \<open>Trading_World\<close>.

  Between two calls of a service anything else in the process may run, so no law says that a call
  finds the rows as the previous one left them; they say that rows have only advanced.
\<close>

record 'w OrderCommandStore =
  cs_CreatePending :: "Request \<Rightarrow> ('w, bool) op"
  cs_GetOrder :: "ClientOrderID \<Rightarrow> ('w, OrderRecord) op"
  cs_MarkCancelRequested :: "ClientOrderID \<Rightarrow> Time \<Rightarrow> ('w, unit) op"

record 'w OrderEventStore =
  es_ApplyEvent :: "Source \<Rightarrow> Event \<Rightarrow> ('w, ApplyResult) op"

record 'w OrderReconcileStore =
  rs_GetOrder :: "ClientOrderID \<Rightarrow> ('w, OrderRecord) op"
  rs_ListActiveOrders :: "VenueID \<Rightarrow> ('w, OrderRecord list) op"

record 'w OrderPlacer =
  op_PlaceOrder :: "Request \<Rightarrow> ('w, Ack) op"
  op_CancelOrder :: "Ref \<Rightarrow> ('w, unit) op"
  op_OpenOrders :: "('w, Snapshot list) op"
  op_GetOrder :: "Ref \<Rightarrow> ('w, Snapshot) op"

text \<open>
  \<open>StreamOrderEvents\<close> returns a channel; the operation returns what the channel delivers before it is
  closed.
\<close>

record 'w PrivateStreamer =
  ps_StreamOrderEvents :: "('w, Event list) op"

text \<open>
  The payloads on the bus (\<open>internal/events/events.go\<close>), by their dynamic types: the venue of a stream
  that reconnected, an orphan, a payload of the outbox, a balance snapshot.
\<close>

record ReconcileOrphanPayload =
  op_Venue :: VenueID
  op_VenueOrderID :: string
  op_ClientOrderID :: ClientOrderID
  op_Base :: string
  op_Quote :: string

datatype BusPayload =
    VenueIDPayload VenueID
  | OrphanPayload ReconcileOrphanPayload
  | OutboxPayload Payload
  | SnapshotPayload AccountSnapshot

subsection \<open>What the services observe\<close>

type_synonym Rows = "ClientOrderID \<Rightarrow> OrderRow option"

datatype Call =
    Submit VenueID Request
  | AskCancel VenueID Ref
  | AskOpen VenueID
  | Lookup VenueID Ref
  | Announce "BusPayload BusEvent"

text \<open>
  A call that went out, to a venue or to the bus, with the order rows as they were durable at that moment.
\<close>

type_synonym Sent = "(Call \<times> Rows) list"

definition rows_advance :: "Rows \<Rightarrow> Rows \<Rightarrow> bool" where
  "rows_advance R R' \<longleftrightarrow> (\<forall>cid row. R cid = Some row \<longrightarrow> (\<exists>row'. R' cid = Some row' \<and> row_advances row row'))"

text \<open>The world goes on: the invariant is kept, rows only advance. Quietly: no call goes out.\<close>

definition goes_on :: "('w \<Rightarrow> bool) \<Rightarrow> ('w \<Rightarrow> Rows) \<Rightarrow> 'w \<Rightarrow> 'w \<Rightarrow> bool" where
  "goes_on invar rows w w' \<longleftrightarrow> (invar w \<longrightarrow> invar w' \<and> rows_advance (rows w) (rows w'))"

definition quietly :: "('w \<Rightarrow> bool) \<Rightarrow> ('w \<Rightarrow> Rows) \<Rightarrow> ('w \<Rightarrow> Sent) \<Rightarrow> 'w \<Rightarrow> 'w \<Rightarrow> bool" where
  "quietly invar rows sent w w' \<longleftrightarrow> goes_on invar rows w w' \<and> sent w' = sent w"

text \<open>An outgoing call: it is the one call that goes out, and the rows it finds have only advanced.\<close>

definition calls :: "('w \<Rightarrow> bool) \<Rightarrow> ('w \<Rightarrow> Rows) \<Rightarrow> ('w \<Rightarrow> Sent) \<Rightarrow> Call \<Rightarrow> 'w \<Rightarrow> 'w \<Rightarrow> bool" where
  "calls invar rows sent c w w' \<longleftrightarrow> goes_on invar rows w w'
     \<and> (\<exists>R. sent w' = sent w @ [(c, R)] \<and> (invar w \<longrightarrow> rows_advance (rows w) R))"

text \<open>Every call that the second world has beyond the first satisfies a condition.\<close>

definition sends :: "('w \<Rightarrow> Sent) \<Rightarrow> (Call \<Rightarrow> Rows \<Rightarrow> bool) \<Rightarrow> 'w \<Rightarrow> 'w \<Rightarrow> bool" where
  "sends sent P w w' \<longleftrightarrow> (\<exists>more. sent w' = sent w @ more \<and> list_all (\<lambda>(c, R). P c R) more)"

lemma rows_advance_refl [simp]: "rows_advance R R" by (simp add: rows_advance_def)

lemma rows_advance_trans: "rows_advance R S \<Longrightarrow> rows_advance S U \<Longrightarrow> rows_advance R U"
  unfolding rows_advance_def by (meson row_advances_trans)

lemma rows_advanceD: "rows_advance R R' \<Longrightarrow> R cid = Some row \<Longrightarrow> \<exists>row'. R' cid = Some row' \<and> row_advances row row'"
  by (simp add: rows_advance_def)

lemma goes_on_order: "reflp (goes_on invar rows)" "transp (goes_on invar rows)"
  by (auto simp: reflp_def goes_on_def intro!: transpI intro: rows_advance_trans)

lemma quietly_order: "reflp (quietly invar rows sent)" "transp (quietly invar rows sent)"
  by (auto simp: reflp_def quietly_def goes_on_def intro!: transpI intro: rows_advance_trans)

lemma goes_on_trans: "goes_on invar rows u v \<Longrightarrow> goes_on invar rows v w \<Longrightarrow> goes_on invar rows u w"
  using goes_on_order(2) by (rule transpD)

lemma quietly_refl [simp]: "quietly invar rows sent w w" by (simp add: quietly_def goes_on_def)

lemma quietly_trans: "quietly invar rows sent u v \<Longrightarrow> quietly invar rows sent v w \<Longrightarrow> quietly invar rows sent u w"
  using quietly_order(2) by (rule transpD)

lemma quietlyD: "quietly invar rows sent w w' \<Longrightarrow> goes_on invar rows w w'"
  "quietly invar rows sent w w' \<Longrightarrow> invar w \<Longrightarrow> invar w'"
  "quietly invar rows sent w w' \<Longrightarrow> invar w \<Longrightarrow> rows_advance (rows w) (rows w')"
  "quietly invar rows sent w w' \<Longrightarrow> sent w' = sent w"
  by (auto simp: quietly_def goes_on_def)

lemma callsD: "calls invar rows sent c w w' \<Longrightarrow> goes_on invar rows w w'"
  "calls invar rows sent c w w' \<Longrightarrow> invar w \<Longrightarrow> \<exists>R. sent w' = sent w @ [(c, R)] \<and> rows_advance (rows w) R"
  by (auto simp: calls_def)

lemma sends_refl [simp]: "sends sent P w w" by (simp add: sends_def)

lemma sends_quiet: "quietly invar rows sent w w' \<Longrightarrow> sends sent P w w'"
  by (simp add: quietly_def sends_def)

lemma sends_trans: "sends sent P u v \<Longrightarrow> sends sent P v w \<Longrightarrow> sends sent P u w"
  by (auto simp: sends_def)

lemma sends_call: "calls invar rows sent c w w' \<Longrightarrow> invar w \<Longrightarrow> (\<And>R. rows_advance (rows w) R \<Longrightarrow> P c R) \<Longrightarrow> sends sent P w w'"
  by (auto simp: calls_def sends_def)

text \<open>The combination that the services' operations satisfy: they go on, and every call satisfies a condition.\<close>

definition acts :: "('w \<Rightarrow> bool) \<Rightarrow> ('w \<Rightarrow> Rows) \<Rightarrow> ('w \<Rightarrow> Sent) \<Rightarrow> (Call \<Rightarrow> Rows \<Rightarrow> bool) \<Rightarrow> 'w \<Rightarrow> 'w \<Rightarrow> bool" where
  "acts invar rows sent P w w' \<longleftrightarrow> (invar w \<longrightarrow> invar w' \<and> rows_advance (rows w) (rows w') \<and> sends sent P w w')"

lemma acts_order: "reflp (acts invar rows sent P)" "transp (acts invar rows sent P)"
  by (auto simp: reflp_def acts_def intro!: transpI intro: rows_advance_trans sends_trans)

lemma acts_refl [simp]: "acts invar rows sent P w w" by (simp add: acts_def)

lemma acts_trans: "acts invar rows sent P u v \<Longrightarrow> acts invar rows sent P v w \<Longrightarrow> acts invar rows sent P u w"
  using acts_order(2) by (rule transpD)

lemma acts_quiet: "quietly invar rows sent w w' \<Longrightarrow> acts invar rows sent P w w'"
  by (auto simp: acts_def quietly_def goes_on_def sends_def)

lemma acts_call: "calls invar rows sent c w w' \<Longrightarrow> (\<And>R. invar w \<Longrightarrow> rows_advance (rows w) R \<Longrightarrow> P c R) \<Longrightarrow> acts invar rows sent P w w'"
  by (auto simp: acts_def calls_def goes_on_def sends_def)

lemma actsD: "acts invar rows sent P w w' \<Longrightarrow> invar w \<Longrightarrow> invar w'"
  "acts invar rows sent P w w' \<Longrightarrow> invar w \<Longrightarrow> rows_advance (rows w) (rows w')"
  "acts invar rows sent P w w' \<Longrightarrow> invar w \<Longrightarrow> sends sent P w w'"
  by (auto simp: acts_def)

lemma acts_mono: "acts invar rows sent P w w' \<Longrightarrow> (\<And>c R. P c R \<Longrightarrow> Q c R) \<Longrightarrow> acts invar rows sent Q w w'"
  unfolding acts_def sends_def list_all_iff by fastforce

text \<open>Each element of a loop that ends normally had its turn, between two such steps.\<close>

lemma forS_turn:
  assumes "forS f xs w = (Inr u, w')" "x \<in> set xs" "\<And>y. keeps R (f y)" "reflp R" "transp R"
  shows "\<exists>a b v. R w a \<and> f x a = (Inr v, b) \<and> R b w'"
  using assms(1,2)
proof (induction xs arbitrary: w)
  case Nil
  then show ?case by simp
next
  case (Cons y ys)
  from Cons.prems(1) obtain v w1 where 1: "f y w = (Inr v, w1)" and 2: "forS f ys w1 = (Inr u, w')" by auto
  show ?case
  proof (cases "x \<in> set ys")
    case True
    from Cons.IH [OF 2 True] keepsD [OF assms(3) 1] show ?thesis using transpD [OF assms(5)] by blast
  next
    case False
    with Cons.prems(2) have "x = y" by simp
    with 1 keepsD [OF keeps_for [OF assms(4,5,3)] 2] show ?thesis using assms(4) by (auto simp: reflp_def)
  qed
qed

lemma forS_error: "forS f evs w = (Inl e, w') \<Longrightarrow> \<exists>ev\<in>set evs. \<exists>w1. f ev w1 = (Inl e, w')"
  by (induction evs arbitrary: w) (auto simp: bindS_Inl_iff)

subsection \<open>The contracts\<close>

text \<open>An order row that carries the terms of a request.\<close>

definition row_of_request :: "OrderRow \<Rightarrow> Request \<Rightarrow> bool" where
  "row_of_request row req \<longleftrightarrow> o_ClientOrderID row = rq_ClientOrderID req \<and> o_BotID row = rq_BotID req
     \<and> o_Venue row = i_Venue (rq_Instrument req) \<and> o_Base row = i_Base (rq_Instrument req)
     \<and> o_Quote row = i_Quote (rq_Instrument req) \<and> o_Side row = rq_Side req \<and> o_Type row = rq_Type req
     \<and> o_Price row = rq_Price req \<and> o_Qty row = rq_Qty req"

lemma row_of_request_terms: "row_terms row' = row_terms row \<Longrightarrow> row_of_request row' req = row_of_request row req"
  by (auto simp: row_terms_def row_of_request_def)

text \<open>
  The event store: what \<open>ApplyEvent\<close> promises to the order service and to the reconciler.
\<close>

locale event_store =
  fixes invar :: "'w \<Rightarrow> bool"
    and rows :: "'w \<Rightarrow> Rows"
    and sent :: "'w \<Rightarrow> Sent"
    and eventStore :: "'w OrderEventStore"
  assumes apply_quiet: "es_ApplyEvent eventStore source ev w = (r, w') \<Longrightarrow> quietly invar rows sent w w'"
    and apply_joins: "invar w \<Longrightarrow> es_ApplyEvent eventStore source ev w = (Inr x, w') \<Longrightarrow>
      \<exists>row row'. rows w' (rf_ClientOrderID (ev_Ref ev)) = Some row' \<and> Transition (row_state row) ev = Inr (ar_Decision x)
        \<and> row_state row' = join_event ev (row_state row)
        \<and> (o_VenueOrderID row' \<noteq> None \<or> rf_VenueOrderID (ev_Ref ev) = [])
        \<and> (\<forall>row0. rows w (rf_ClientOrderID (ev_Ref ev)) = Some row0 \<longrightarrow> row_advances row0 row)"
    and apply_unknown: "invar w \<Longrightarrow> es_ApplyEvent eventStore source ev w = (Inl e, w') \<Longrightarrow> errors_Is e ErrNotFound \<Longrightarrow>
      rows w' (rf_ClientOrderID (ev_Ref ev)) = None"

text \<open>The command store extends it by what the order service calls before and after a venue.\<close>

locale command_store = event_store invar rows sent eventStore
  for invar :: "'w \<Rightarrow> bool" and rows :: "'w \<Rightarrow> Rows" and sent :: "'w \<Rightarrow> Sent" and eventStore :: "'w OrderEventStore" +
  fixes commands :: "'w OrderCommandStore"
  assumes create_quiet: "cs_CreatePending commands req w = (r1, w') \<Longrightarrow> quietly invar rows sent w w'"
    and create_row: "invar w \<Longrightarrow> cs_CreatePending commands req w = (Inr inserted, w') \<Longrightarrow>
      \<exists>row. rows w' (rq_ClientOrderID req) = Some row
        \<and> (inserted \<longrightarrow> row_of_request row req \<and> o_Status row = StatusPending \<and> o_VenueOrderID row = None)"
    and get_quiet: "cs_GetOrder commands cid w = (r2, w') \<Longrightarrow> quietly invar rows sent w w'"
    and get_row: "invar w \<Longrightarrow> cs_GetOrder commands cid w = (Inr stored, w') \<Longrightarrow>
      \<exists>row. rows w' cid = Some row \<and> stored = orderRecord row"
    and get_unknown: "invar w \<Longrightarrow> cs_GetOrder commands cid w = (Inl e, w') \<Longrightarrow> errors_Is e ErrNotFound \<Longrightarrow> rows w' cid = None"
    and mark_quiet: "cs_MarkCancelRequested commands cid ts w = (r3, w') \<Longrightarrow> quietly invar rows sent w w'"
    and mark_row: "invar w \<Longrightarrow> cs_MarkCancelRequested commands cid ts w = (Inr u, w') \<Longrightarrow>
      \<exists>row. rows w' cid = Some row \<and> o_CancelRequestedAt row \<noteq> None"
    and rows_key: "invar w \<Longrightarrow> rows w cid = Some row \<Longrightarrow> o_ClientOrderID row = cid"

text \<open>The reconciler reads the active orders.\<close>

locale reconcile_store = event_store invar rows sent eventStore
  for invar :: "'w \<Rightarrow> bool" and rows :: "'w \<Rightarrow> Rows" and sent :: "'w \<Rightarrow> Sent" and eventStore :: "'w OrderEventStore" +
  fixes reads :: "'w OrderReconcileStore"
  assumes read_quiet: "rs_GetOrder reads cid w = (r1, w') \<Longrightarrow> quietly invar rows sent w w'"
    and read_row: "invar w \<Longrightarrow> rs_GetOrder reads cid w = (Inr stored, w') \<Longrightarrow>
      \<exists>row. rows w' cid = Some row \<and> stored = orderRecord row"
    and read_unknown: "invar w \<Longrightarrow> rs_GetOrder reads cid w = (Inl e, w') \<Longrightarrow> errors_Is e ErrNotFound \<Longrightarrow> rows w' cid = None"
    and active_quiet: "rs_ListActiveOrders reads venue w = (r2, w') \<Longrightarrow> quietly invar rows sent w w'"
    and active_rows: "invar w \<Longrightarrow> rs_ListActiveOrders reads venue w = (Inr active, w') \<Longrightarrow>
      set active = {orderRecord row |cid row. rows w' cid = Some row \<and> o_Venue row = venue \<and> \<not> Terminal (o_Status row)}"
    and stored_key: "invar w \<Longrightarrow> rows w cid = Some row \<Longrightarrow> o_ClientOrderID row = cid"

text \<open>
  A placer wired to a venue: each of its operations is one call of the venue, whatever the venue answers.
\<close>

definition placer_of :: "('w \<Rightarrow> bool) \<Rightarrow> ('w \<Rightarrow> Rows) \<Rightarrow> ('w \<Rightarrow> Sent) \<Rightarrow> VenueID \<Rightarrow> 'w OrderPlacer \<Rightarrow> bool" where
  "placer_of invar rows sent venue p \<longleftrightarrow>
     (\<forall>req w. calls invar rows sent (Submit venue req) w (snd (op_PlaceOrder p req w)))
     \<and> (\<forall>ref w. calls invar rows sent (AskCancel venue ref) w (snd (op_CancelOrder p ref w)))
     \<and> (\<forall>w. calls invar rows sent (AskOpen venue) w (snd (op_OpenOrders p w)))
     \<and> (\<forall>ref w. calls invar rows sent (Lookup venue ref) w (snd (op_GetOrder p ref w)))"

lemma placer_ofD:
  assumes "placer_of invar rows sent venue p"
  shows "op_PlaceOrder p req w = (r1, w') \<Longrightarrow> calls invar rows sent (Submit venue req) w w'"
    "op_CancelOrder p ref w = (r2, w') \<Longrightarrow> calls invar rows sent (AskCancel venue ref) w w'"
    "op_OpenOrders p w = (r3, w') \<Longrightarrow> calls invar rows sent (AskOpen venue) w w'"
    "op_GetOrder p ref w = (r4, w') \<Longrightarrow> calls invar rows sent (Lookup venue ref) w w'"
  using assms unfolding placer_of_def by (metis snd_conv)+

end
