(* ===== verification/Order_Service.thy ===== *)
theory Order_Service
  imports Trading_Ports
begin

section \<open>The order service\<close>

text \<open>
  \<open>internal/service/order/order.go\<close>: placing and cancelling orders, and feeding the venues' streams to
  the store. The operations are those of the code over any stores, placers and streams; the context is
  the predicate that says whether it is done, and the clock and \<open>id.New\<close> read the world.
  \<open>backoff.Retry\<close> is a parameter of the service. A result and an error that are returned together are a
  pair.
\<close>

record PlaceResult =
  pr_ClientOrderID :: ClientOrderID
  pr_Status :: Status

record 'w Venue =
  ve_ID :: VenueID
  ve_Placer :: "'w OrderPlacer"
  ve_Streamer :: "'w PrivateStreamer option"

text \<open>What the function handed to \<open>backoff.Retry\<close> returns: a permanent error is not tried again.\<close>

datatype RetryErr = Permanent Err | Transient Err

type_synonym ('w, 'a) attempt = "'w \<Rightarrow> (RetryErr + 'a) \<times> 'w"

record 'w OrderSvc =
  sv_venues :: "VenueID \<Rightarrow> 'w Venue option"
  sv_commands :: "'w OrderCommandStore"
  sv_events :: "'w OrderEventStore"
  sv_clk :: "'w \<Rightarrow> Time"
  sv_newID :: "'w \<Rightarrow> string"
  sv_Retry :: "('w \<Rightarrow> bool) \<Rightarrow> Duration \<Rightarrow> ('w, Ack) attempt \<Rightarrow> ('w, Ack) op"
  sv_submitBudget :: Duration
  sv_wait :: "Duration \<Rightarrow> 'w \<Rightarrow> bool \<times> 'w" \<comment> \<open>a \<open>select\<close> of the context and a timer; \<open>True\<close>: the context was first\<close>
  sv_observeDropped :: "VenueID \<Rightarrow> string \<Rightarrow> 'w \<Rightarrow> 'w"
  sv_observeUnmatched :: "VenueID \<Rightarrow> 'w \<Rightarrow> 'w"

text \<open>The map that \<open>New\<close> builds from the configured venues: the last one with an ID wins.\<close>

definition byID :: "'w Venue list \<Rightarrow> VenueID \<Rightarrow> 'w Venue option" where
  "byID vs = map_of (rev (map (\<lambda>v. (ve_ID v, v)) vs))"

subsection \<open>Applying one event\<close>

definition observe_if :: "bool \<Rightarrow> ('w \<Rightarrow> 'w) \<Rightarrow> 'w \<Rightarrow> 'w" where
  "observe_if b f w = (if b then f w else w)"

definition observeResult :: "'w OrderSvc \<Rightarrow> VenueID \<Rightarrow> ApplyResult \<Rightarrow> 'w \<Rightarrow> 'w" where
  "observeResult s venue result w =
    (let d = ar_Decision result;
         w1 = observe_if (IsPositive (UnmatchedQty (ar_Outcome result))) (sv_observeUnmatched s venue) w;
         w2 = observe_if (ar_FillConflict result) (sv_observeDropped s venue ''fill_id_conflict'') w1;
         w3 = observe_if (d_Drop d \<noteq> [] \<and> \<not> d_Transition d \<and> \<not> IsPositive (d_FillDelta d))
                (sv_observeDropped s venue (d_Drop d)) w2
     in observe_if (d_FillAnomaly d) (sv_observeDropped s venue ''negative_fill_delta'') w3)"

definition applyEv :: "'w OrderSvc \<Rightarrow> ('w \<Rightarrow> bool) \<Rightarrow> Source \<Rightarrow> Event \<Rightarrow> ('w, unit) op" where
  "applyEv s ctx source ev w =
    (let ev1 = (if IsZero (ev_At ev) then ev\<lparr>ev_At := sv_clk s w\<rparr> else ev);
         venue = i_Venue (rf_Instrument (ev_Ref ev1))
     in case es_ApplyEvent (sv_events s) source ev1 w of
       (Inl err, w1) \<Rightarrow>
         if errors_Is err ErrNotFound then (Inr (), sv_observeDropped s venue ''unknown_order'' w1)
         else if ctx w1 then (Inr (), w1)
         else (Inl (wrap ''order store'' err), w1)
     | (Inr result, w1) \<Rightarrow> (Inr (), observeResult s venue result w1))"

subsection \<open>Placing an order\<close>

definition sameIdentity :: "OrderRecord \<Rightarrow> Request \<Rightarrow> bool" where
  "sameIdentity stored req \<longleftrightarrow>
     or_ClientOrderID stored = rq_ClientOrderID req \<and> or_BotID stored = rq_BotID req
     \<and> i_Venue (or_Instrument stored) = i_Venue (rq_Instrument req)
     \<and> i_Base (or_Instrument stored) = i_Base (rq_Instrument req)
     \<and> i_Quote (or_Instrument stored) = i_Quote (rq_Instrument req)
     \<and> or_Side stored = rq_Side req \<and> or_Type stored = rq_Type req
     \<and> or_Price stored = rq_Price req \<and> or_Qty stored = rq_Qty req"

definition placeResult :: "OrderRecord \<Rightarrow> PlaceResult" where
  "placeResult stored = \<lparr>pr_ClientOrderID = or_ClientOrderID stored, pr_Status = or_Status stored\<rparr>"

definition noResult :: PlaceResult where
  "noResult = \<lparr>pr_ClientOrderID = [], pr_Status = []\<rparr>"

definition withDefaults :: "'w OrderSvc \<Rightarrow> Request \<Rightarrow> 'w \<Rightarrow> Request" where
  "withDefaults s req w =
    (let r1 = (if rq_ClientOrderID req = [] then req\<lparr>rq_ClientOrderID := sv_newID s w\<rparr> else req)
     in if rq_BotID r1 = [] then r1\<lparr>rq_BotID := ''manual''\<rparr> else r1)"

text \<open>
  \<open>preparePlace\<close> returns the request with its defaults and either the venue to submit to (\<open>Inl\<close>) or the
  result of an order that already advanced (\<open>Inr\<close>).
\<close>

definition lookupExisting ::
  "'w OrderSvc \<Rightarrow> Request \<Rightarrow> 'w Venue option \<Rightarrow> ('w, Request \<times> ('w Venue + PlaceResult)) op" where
  "lookupExisting s req venue w =
    (case cs_GetOrder (sv_commands s) (rq_ClientOrderID req) w of
       (Inl err, w1) \<Rightarrow>
         if venue = None \<and> errors_Is err ErrNotFound
         then (Inl (sentinel_with ErrVenueNotConfigured (fmt_q (i_Venue (rq_Instrument req)))), w1)
         else (Inl err, w1)
     | (Inr stored, w1) \<Rightarrow>
         if \<not> sameIdentity stored req then (Inl (sentinel_with ErrIdentityMismatch (rq_ClientOrderID req)), w1)
         else if or_VenueOrderID stored = [] \<and> or_Status stored = StatusPending then
           (case venue of
              None \<Rightarrow> (Inl (sentinel_with ErrVenueNotConfigured (fmt_q (i_Venue (rq_Instrument req)))), w1)
            | Some v \<Rightarrow> (Inr (req, Inl v), w1))
         else (Inr (req, Inr (placeResult stored)), w1))"

definition preparePlace :: "'w OrderSvc \<Rightarrow> Request \<Rightarrow> ('w, Request \<times> ('w Venue + PlaceResult)) op" where
  "preparePlace s req0 w =
    (let req = withDefaults s req0 w in
     case sv_venues s (i_Venue (rq_Instrument req)) of
       None \<Rightarrow> lookupExisting s req None w
     | Some venue \<Rightarrow>
        bindS (cs_CreatePending (sv_commands s) req)
          (\<lambda>inserted. if inserted then returnS (req, Inl venue) else lookupExisting s req (Some venue)) w)"

definition permanentErr :: "Err \<Rightarrow> bool" where
  "permanentErr err \<longleftrightarrow> errors_Is err ErrAuth \<or> errors_Is err ErrTradingUnsupported"

definition submitAttempt :: "'w Venue \<Rightarrow> Request \<Rightarrow> ('w, Ack) attempt" where
  "submitAttempt venue req w =
    (case op_PlaceOrder (ve_Placer venue) req w of
       (Inl err, w1) \<Rightarrow> (Inl (if permanentErr err then Permanent err else Transient err), w1)
     | (Inr a, w1) \<Rightarrow> (Inr a, w1))"

definition rejectEvent :: "Request \<Rightarrow> Err \<Rightarrow> Time \<Rightarrow> Event" where
  "rejectEvent req err t = \<lparr>ev_Ref = \<lparr>rf_Instrument = rq_Instrument req, rf_ClientOrderID = rq_ClientOrderID req,
     rf_VenueOrderID = []\<rparr>, ev_Status = StatusRejected, ev_FilledQty = 0, ev_FillPrice = 0, ev_VenueFillID = [],
     ev_Fee = 0, ev_FeeCurrency = [], ev_Reason = ''submit failed: '' @ err_Error err, ev_At = t\<rparr>"

definition ackEvent :: "Ack \<Rightarrow> Event" where
  "ackEvent ack = \<lparr>ev_Ref = ak_Ref ack, ev_Status = ak_Status ack, ev_FilledQty = 0, ev_FillPrice = 0,
     ev_VenueFillID = [], ev_Fee = 0, ev_FeeCurrency = [], ev_Reason = [], ev_At = ak_AcceptedAt ack\<rparr>"

text \<open>\<open>context.WithoutCancel\<close> is a context that is never done.\<close>

definition WithoutCancel :: "('w \<Rightarrow> bool) \<Rightarrow> 'w \<Rightarrow> bool" where
  "WithoutCancel ctx = (\<lambda>_. False)"

definition submitFailure ::
  "'w OrderSvc \<Rightarrow> ('w \<Rightarrow> bool) \<Rightarrow> Request \<Rightarrow> Err \<Rightarrow> 'w \<Rightarrow> (PlaceResult \<times> Err option) \<times> 'w" where
  "submitFailure s ctx0 req err w =
    (let ctx = WithoutCancel ctx0 in
     if permanentErr err then
       (case applyEv s ctx SourceLocal (rejectEvent req err (sv_clk s w)) w of
          (_, w1) \<Rightarrow> ((\<lparr>pr_ClientOrderID = rq_ClientOrderID req, pr_Status = StatusRejected\<rparr>, Some err), w1))
     else
       (case cs_GetOrder (sv_commands s) (rq_ClientOrderID req) w of
          (Inl _, w1) \<Rightarrow> ((\<lparr>pr_ClientOrderID = rq_ClientOrderID req, pr_Status = StatusPending\<rparr>,
             Some (wrap2 (ESentinel ErrSubmitUnsettled) err)), w1)
        | (Inr stored, w1) \<Rightarrow> ((placeResult stored, Some (wrap2 (ESentinel ErrSubmitUnsettled) err)), w1)))"

definition acceptedUnsettled :: "Request \<Rightarrow> Err \<Rightarrow> PlaceResult \<times> Err option" where
  "acceptedUnsettled req err = (\<lparr>pr_ClientOrderID = rq_ClientOrderID req, pr_Status = StatusPending\<rparr>,
     Some (wrap2 (ESentinel ErrSubmitUnsettled) err))"

definition Place :: "'w OrderSvc \<Rightarrow> ('w \<Rightarrow> bool) \<Rightarrow> Request \<Rightarrow> 'w \<Rightarrow> (PlaceResult \<times> Err option) \<times> 'w" where
  "Place s ctx req0 w =
    (case preparePlace s req0 w of
       (Inl err, w1) \<Rightarrow> ((noResult, Some err), w1)
     | (Inr (req, Inr existing), w1) \<Rightarrow> ((existing, None), w1)
     | (Inr (req, Inl venue), w1) \<Rightarrow>
        (case sv_Retry s ctx (sv_submitBudget s) (submitAttempt venue req) w1 of
           (Inl err, w2) \<Rightarrow> submitFailure s ctx req err w2
         | (Inr ack, w2) \<Rightarrow>
            (case applyEv s ctx SourceAck (ackEvent ack) w2 of
               (Inl err, w3) \<Rightarrow> (acceptedUnsettled req err, w3)
             | (Inr _, w3) \<Rightarrow>
                (case cs_GetOrder (sv_commands s) (rq_ClientOrderID req) w3 of
                   (Inl err, w4) \<Rightarrow> (acceptedUnsettled req err, w4)
                 | (Inr stored, w4) \<Rightarrow> ((placeResult stored, None), w4)))))"

subsection \<open>Cancelling an order\<close>

definition Cancel :: "'w OrderSvc \<Rightarrow> ClientOrderID \<Rightarrow> ('w, Status) op" where
  "Cancel s orderID =
    bindS (cs_GetOrder (sv_commands s) orderID) (\<lambda>stored.
    if Terminal (or_Status stored)
    then failS (sentinel_with ErrTerminal (orderID @ '' is already '' @ or_Status stored))
    else (case sv_venues s (i_Venue (or_Instrument stored)) of
       None \<Rightarrow> failS (sentinel_with ErrVenueNotConfigured (fmt_q (i_Venue (or_Instrument stored))))
     | Some venue \<Rightarrow>
        bindS (\<lambda>w. cs_MarkCancelRequested (sv_commands s) orderID (sv_clk s w) w) (\<lambda>_.
        bindS (op_CancelOrder (ve_Placer venue) \<lparr>rf_Instrument = or_Instrument stored,
            rf_ClientOrderID = or_ClientOrderID stored, rf_VenueOrderID = or_VenueOrderID stored\<rparr>) (\<lambda>_.
        returnS (or_Status stored)))))"

subsection \<open>Consuming the streams\<close>

definition streamRetryDelay :: Duration where "streamRetryDelay = 30 * second"

text \<open>
  One turn of the loop of \<open>consumeStream\<close>: \<open>Some\<close> is what the function returns, \<open>None\<close> that it goes
  on. The loop runs until the context is done or the store fails; \<open>consumeStream\<close> bounds its turns, and
  \<open>None\<close> says that it is still running after them.
\<close>

definition consumeTurn ::
  "'w OrderSvc \<Rightarrow> ('w \<Rightarrow> bool) \<Rightarrow> 'w PrivateStreamer \<Rightarrow> 'w \<Rightarrow> (Err + unit) option \<times> 'w" where
  "consumeTurn s ctx st w =
    (case ps_StreamOrderEvents st w of
       (Inl err, w1) \<Rightarrow>
         if ctx w1 then (Some (Inr ()), w1)
         else (case sv_wait s streamRetryDelay w1 of (ended, w2) \<Rightarrow> (if ended then Some (Inr ()) else None, w2))
     | (Inr evs, w1) \<Rightarrow>
        (case forS (applyEv s ctx SourceStream) evs w1 of
           (Inl err, w2) \<Rightarrow> (Some (Inl err), w2)
         | (Inr _, w2) \<Rightarrow> (if ctx w2 then Some (Inr ()) else None, w2)))"

fun consumeStream ::
  "'w OrderSvc \<Rightarrow> ('w \<Rightarrow> bool) \<Rightarrow> 'w PrivateStreamer \<Rightarrow> nat \<Rightarrow> 'w \<Rightarrow> (Err + unit) option \<times> 'w" where
  "consumeStream s ctx st 0 w = (None, w)"
| "consumeStream s ctx st (Suc n) w =
    (case consumeTurn s ctx st w of (Some r, w1) \<Rightarrow> (Some r, w1) | (None, w1) \<Rightarrow> consumeStream s ctx st n w1)"

text \<open>\<open>Run\<close> starts a goroutine for every venue that has a stream and waits for them.\<close>

definition Run_group ::
  "'w OrderSvc \<Rightarrow> ('w \<Rightarrow> bool) \<Rightarrow> 'w Venue list \<Rightarrow> (nat \<Rightarrow> 'w \<Rightarrow> (Err + unit) option \<times> 'w) list" where
  "Run_group s ctx vs = List.map_filter (\<lambda>v. map_option (consumeStream s ctx) (ve_Streamer v)) vs"

subsection \<open>What the service relies on\<close>

text \<open>
  The documented behaviour of \<open>backoff.Retry\<close>: it calls the function at least once, again only after a
  transient error, and returns the function's value, the permanent error, the last transient error
  when the budget is spent, or the cause of the context, which is no error of a venue.
\<close>

inductive attempts :: "('w, 'a) attempt \<Rightarrow> 'w \<Rightarrow> Err + 'a \<Rightarrow> 'w \<Rightarrow> bool" for f where
  succeeded: "f w = (Inr a, w') \<Longrightarrow> attempts f w (Inr a) w'"
| permanent: "f w = (Inl (Permanent e), w') \<Longrightarrow> attempts f w (Inl e) w'"
| given_up: "f w = (Inl (Transient e), w') \<Longrightarrow> attempts f w (Inl e) w'"
| canceled: "f w = (Inl (Transient e), w') \<Longrightarrow> \<not> permanentErr c \<Longrightarrow> attempts f w (Inl c) w'"
| again: "f w = (Inl (Transient e), w1) \<Longrightarrow> attempts f w1 r w' \<Longrightarrow> attempts f w r w'"

definition retries :: "'w OrderSvc \<Rightarrow> bool" where
  "retries s \<longleftrightarrow> (\<forall>ctx budget f w. attempts f w (fst (sv_Retry s ctx budget f w)) (snd (sv_Retry s ctx budget f w)))"

lemma retriesD: "retries s \<Longrightarrow> sv_Retry s ctx budget f w = (r, w') \<Longrightarrow> attempts f w r w'"
  unfolding retries_def by (metis fst_conv snd_conv)

lemma sameIdentity_row: "sameIdentity (orderRecord row) req \<longleftrightarrow> row_of_request row req"
  by (auto simp: sameIdentity_def row_of_request_def orderRecord_def)

text \<open>The condition on a submit: it carries the request, whose row was durable before it was made.\<close>

definition submits :: "Request \<Rightarrow> Call \<Rightarrow> Rows \<Rightarrow> bool" where
  "submits req c R \<longleftrightarrow> c = Submit (i_Venue (rq_Instrument req)) req
     \<and> (\<exists>row. R (rq_ClientOrderID req) = Some row \<and> row_of_request row req)"

text \<open>
  What a placement that got past its checks leaves: the stored order with the terms of the request, and
  an outcome that says what happened. A success reports the stored status. An error comes only after a
  submit: unsettled, with the status stored or pending, or permanent, reported as rejected.
\<close>

definition place_outcome :: "Request \<Rightarrow> bool \<Rightarrow> Rows \<Rightarrow> PlaceResult \<times> Err option \<Rightarrow> bool" where
  "place_outcome req submitted R out \<longleftrightarrow> (\<exists>row. R (rq_ClientOrderID req) = Some row \<and> row_of_request row req
     \<and> pr_ClientOrderID (fst out) = rq_ClientOrderID req
     \<and> (case snd out of
          None \<Rightarrow> pr_Status (fst out) = o_Status row
        | Some e \<Rightarrow> submitted \<and> (errors_Is e ErrSubmitUnsettled \<and> pr_Status (fst out) \<in> {StatusPending, o_Status row}
            \<or> permanentErr e \<and> pr_Status (fst out) = StatusRejected)))"

text \<open>A row that has taken an event in: nothing of what the event reports is missing in it.\<close>

definition absorbed :: "Event \<Rightarrow> OrderRow \<Rightarrow> bool" where
  "absorbed ev row \<longleftrightarrow> rank_of (ev_Status ev) \<le> rank_of (o_Status row)
     \<and> (ev_Status ev \<noteq> StatusPending \<longrightarrow> ev_FilledQty ev \<le> o_FilledQty row)"

lemma absorbed_mono: "absorbed ev row \<Longrightarrow> row_advances row row' \<Longrightarrow> absorbed ev row'"
  by (auto simp: absorbed_def row_advances_def)

lemma absorbed_At [simp]: "absorbed (ev\<lparr>ev_At := t\<rparr>) row = absorbed ev row"
  by (simp add: absorbed_def)

lemma join_absorbed: "row_state row' = join_event ev (row_state row) \<Longrightarrow> absorbed ev row'"
proof -
  assume j: "row_state row' = join_event ev (row_state row)"
  have "o_Status row' = st_Status (row_state row')" "o_FilledQty row' = st_FilledQty (row_state row')"
    by (simp_all add: row_state_def)
  then show ?thesis unfolding absorbed_def j by (simp add: join_event_def)
qed

text \<open>The condition on a cancel: it names the order, and the row that was durable carries the request.\<close>

definition cancel_ref :: "OrderRow \<Rightarrow> Ref" where
  "cancel_ref row = \<lparr>rf_Instrument = or_Instrument (orderRecord row), rf_ClientOrderID = o_ClientOrderID row,
     rf_VenueOrderID = fromNullString (o_VenueOrderID row)\<rparr>"

definition cancels :: "ClientOrderID \<Rightarrow> Call \<Rightarrow> Rows \<Rightarrow> bool" where
  "cancels cid c R \<longleftrightarrow> (\<exists>row ref. R cid = Some row \<and> o_CancelRequestedAt row \<noteq> None
     \<and> c = AskCancel (o_Venue row) ref \<and> rf_ClientOrderID ref = cid)"

lemma withDefaults_nonempty: "rq_ClientOrderID req \<noteq> [] \<Longrightarrow> rq_ClientOrderID (withDefaults s req w) = rq_ClientOrderID req"
  by (simp add: withDefaults_def Let_def)

locale order_service = command_store invar rows sent "sv_events s" "sv_commands s"
  for invar :: "'w \<Rightarrow> bool" and rows :: "'w \<Rightarrow> Rows" and sent :: "'w \<Rightarrow> Sent" and s :: "'w OrderSvc" +
  assumes venue_wired: "sv_venues s vid = Some v \<Longrightarrow> ve_ID v = vid \<and> placer_of invar rows sent vid (ve_Placer v)"
    and dropped_quiet: "quietly invar rows sent w (sv_observeDropped s venue reason w)"
    and unmatched_quiet: "quietly invar rows sent w (sv_observeUnmatched s venue w)"
    and wait_quiet: "sv_wait s d w = (b, w') \<Longrightarrow> quietly invar rows sent w w'"
    and stream_quiet: "sv_venues s vid = Some v \<Longrightarrow> ve_Streamer v = Some st \<Longrightarrow>
      ps_StreamOrderEvents st w = (r, w') \<Longrightarrow> quietly invar rows sent w w'"
begin

lemma observe_if_quiet:
  "quietly invar rows sent w0 w \<Longrightarrow> (\<And>w. quietly invar rows sent w (f w)) \<Longrightarrow> quietly invar rows sent w0 (observe_if b f w)"
  by (auto simp: observe_if_def intro: quietly_trans)

lemma observeResult_quiet: "quietly invar rows sent w (observeResult s venue result w)"
  unfolding observeResult_def Let_def
  by (intro observe_if_quiet dropped_quiet unmatched_quiet quietly_refl)

lemma applyEv_quiet: "applyEv s ctx source ev w = (r, w') \<Longrightarrow> quietly invar rows sent w w'"
  by (auto simp: applyEv_def Let_def split: prod.splits sum.splits if_splits
      intro: quietly_trans observeResult_quiet dropped_quiet dest!: apply_quiet)

lemma lookupExisting_quiet: "lookupExisting s req v w = (r, w') \<Longrightarrow> quietly invar rows sent w w'"
  by (auto simp: lookupExisting_def split: prod.splits sum.splits if_splits option.splits dest!: get_quiet)

lemma preparePlace_quiet: "preparePlace s req w = (r, w') \<Longrightarrow> quietly invar rows sent w w'"
  by (auto simp: preparePlace_def Let_def bindS_def returnS_def split: prod.splits sum.splits if_splits option.splits
      dest!: create_quiet lookupExisting_quiet intro: quietly_trans)

lemma lookupExisting_Inr:
  assumes "invar w" "lookupExisting s req v w = (Inr (rq, x), w')"
  shows "rq = req \<and> (\<exists>row. rows w' (rq_ClientOrderID req) = Some row \<and> row_of_request row req
    \<and> (case x of Inl venue \<Rightarrow> v = Some venue \<and> o_Status row = StatusPending
        | Inr res \<Rightarrow> res = placeResult (orderRecord row)))"
proof -
  from assms(2) obtain stored where g: "cs_GetOrder (sv_commands s) (rq_ClientOrderID req) w = (Inr stored, w')"
    and i: "sameIdentity stored req" and rq: "rq = req"
    and x: "case x of Inl venue \<Rightarrow> v = Some venue \<and> or_Status stored = StatusPending | Inr res \<Rightarrow> res = placeResult stored"
    by (auto simp: lookupExisting_def split: prod.splits sum.splits if_splits option.splits)
  from get_row [OF assms(1) g] obtain row where row: "rows w' (rq_ClientOrderID req) = Some row" "stored = orderRecord row"
    by blast
  then have "or_Status stored = o_Status row" by (simp add: orderRecord_def)
  with row i rq x show ?thesis by (auto simp: sameIdentity_row split: sum.splits)
qed

lemma preparePlace_Inr:
  assumes "invar w" "preparePlace s req w = (Inr (rq, x), w')"
  shows "rq = withDefaults s req w \<and> (\<exists>row. rows w' (rq_ClientOrderID rq) = Some row \<and> row_of_request row rq
    \<and> (case x of Inl venue \<Rightarrow> sv_venues s (i_Venue (rq_Instrument rq)) = Some venue
        | Inr res \<Rightarrow> res = placeResult (orderRecord row)))"
proof (cases "sv_venues s (i_Venue (rq_Instrument (withDefaults s req w)))")
  case None
  with assms(2) have "lookupExisting s (withDefaults s req w) None w = (Inr (rq, x), w')"
    by (simp add: preparePlace_def Let_def)
  from lookupExisting_Inr [OF assms(1) this] show ?thesis by (auto split: sum.splits)
next
  case (Some venue)
  with assms(2) obtain b w1 where c: "cs_CreatePending (sv_commands s) (withDefaults s req w) w = (Inr b, w1)"
    and k: "(if b then returnS (withDefaults s req w, Inl venue) else lookupExisting s (withDefaults s req w) (Some venue)) w1 = (Inr (rq, x), w')"
    by (auto simp: preparePlace_def Let_def)
  have i: "invar w1" using quietlyD(2) [OF create_quiet [OF c]] assms(1) .
  show ?thesis
  proof (cases b)
    case True
    with k create_row [OF assms(1) c] Some show ?thesis by auto
  next
    case False
    with k have "lookupExisting s (withDefaults s req w) (Some venue) w1 = (Inr (rq, x), w')" by simp
    from lookupExisting_Inr [OF i this] Some show ?thesis by (auto split: sum.splits)
  qed
qed

lemma attempt_calls:
  assumes "submitAttempt v req w = (r, w')" "sv_venues s (i_Venue (rq_Instrument req)) = Some v"
  shows "calls invar rows sent (Submit (i_Venue (rq_Instrument req)) req) w w'"
proof -
  have p: "placer_of invar rows sent (i_Venue (rq_Instrument req)) (ve_Placer v)" using venue_wired [OF assms(2)] by simp
  obtain x where "op_PlaceOrder (ve_Placer v) req w = (x, w')"
    using assms(1) by (auto simp: submitAttempt_def split: prod.splits sum.splits)
  from placer_ofD(1) [OF p this] show ?thesis .
qed

lemma submit_once:
  assumes "calls invar rows sent (Submit (i_Venue (rq_Instrument req)) req) w w'" "invar w"
    "rows w (rq_ClientOrderID req) = Some row" "row_of_request row req"
  shows "invar w' \<and> rows_advance (rows w) (rows w') \<and> sends sent (submits req) w w' \<and> length (sent w) < length (sent w')"
proof -
  have "submits req (Submit (i_Venue (rq_Instrument req)) req) R" if "rows_advance (rows w) R" for R
    using rows_advanceD [OF that assms(3)] assms(4) by (auto simp: submits_def row_advances_def dest: row_of_request_terms)
  then have "sends sent (submits req) w w'" by (rule sends_call [OF assms(1,2)])
  with callsD(1) [OF assms(1)] callsD(2) [OF assms(1,2)] assms(2) show ?thesis by (auto simp: goes_on_def)
qed

lemma attempts_submit:
  assumes "attempts (submitAttempt v req) w r w'" "sv_venues s (i_Venue (rq_Instrument req)) = Some v" "invar w"
    "rows w (rq_ClientOrderID req) = Some row" "row_of_request row req"
  shows "invar w' \<and> rows_advance (rows w) (rows w') \<and> sends sent (submits req) w w' \<and> length (sent w) < length (sent w')"
  using assms
proof (induction arbitrary: row rule: attempts.induct)
  case (again w e w1 r w')
  have c: "calls invar rows sent (Submit (i_Venue (rq_Instrument req)) req) w w1"
    using attempt_calls [OF again.hyps(1) again.prems(1)] .
  note one = submit_once [OF c again.prems(2-4)]
  from one obtain row1 where "rows w1 (rq_ClientOrderID req) = Some row1" "row_of_request row1 req"
    using rows_advanceD [of "rows w" "rows w1", OF _ again.prems(3)] again.prems(4)
    by (metis row_advances_def row_of_request_terms)
  with again.IH [OF again.prems(1), of row1] one show ?case
    by (auto intro: rows_advance_trans sends_trans)
qed (blast dest: attempt_calls submit_once)+

lemma still_stored:
  assumes "rows_advance R R'" "R cid = Some row" "row_of_request row req"
  shows "\<exists>row'. R' cid = Some row' \<and> row_of_request row' req"
  using rows_advanceD [OF assms(1,2)] assms(3) by (auto simp: row_advances_def dest: row_of_request_terms)

lemma submitFailure_outcome:
  assumes "invar w" "rows w (rq_ClientOrderID req) = Some row" "row_of_request row req"
    "submitFailure s ctx req e w = (out, w')"
  shows "quietly invar rows sent w w' \<and> place_outcome req True (rows w') out"
proof (cases "permanentErr e")
  case True
  with assms(4) obtain r where a: "applyEv s (WithoutCancel ctx) SourceLocal (rejectEvent req e (sv_clk s w)) w = (r, w')"
    and o: "out = (\<lparr>pr_ClientOrderID = rq_ClientOrderID req, pr_Status = StatusRejected\<rparr>, Some e)"
    by (auto simp: submitFailure_def Let_def split: prod.splits)
  note q = applyEv_quiet [OF a]
  from still_stored [OF quietlyD(3) [OF q assms(1)] assms(2,3)] q o True show ?thesis
    by (auto simp: place_outcome_def)
next
  case False
  obtain r w1 where g: "cs_GetOrder (sv_commands s) (rq_ClientOrderID req) w = (r, w1)" by (rule prod.exhaust)
  note q = get_quiet [OF g]
  from still_stored [OF quietlyD(3) [OF q assms(1)] assms(2,3)] obtain row' where
    row': "rows w1 (rq_ClientOrderID req) = Some row'" "row_of_request row' req" by blast
  show ?thesis
  proof (cases r)
    case (Inl x)
    with False g assms(4) q row' show ?thesis by (auto simp: submitFailure_def Let_def place_outcome_def)
  next
    case (Inr stored)
    from get_row [OF assms(1) g [unfolded Inr]] row' have "stored = orderRecord row'" by auto
    with False g assms(4) q row' Inr show ?thesis
      by (auto simp: submitFailure_def Let_def place_outcome_def placeResult_def orderRecord_def row_of_request_def)
  qed
qed

lemma accepted_outcome:
  "rows w (rq_ClientOrderID req) = Some row \<Longrightarrow> row_of_request row req \<Longrightarrow> place_outcome req True (rows w) (acceptedUnsettled req e)"
  by (auto simp: place_outcome_def acceptedUnsettled_def)

lemma settle_outcome:
  assumes "invar w" "rows w (rq_ClientOrderID req) = Some row" "row_of_request row req"
    "(case applyEv s ctx SourceAck (ackEvent ack) w of
       (Inl err, w3) \<Rightarrow> (acceptedUnsettled req err, w3)
     | (Inr _, w3) \<Rightarrow>
        (case cs_GetOrder (sv_commands s) (rq_ClientOrderID req) w3 of
           (Inl err, w4) \<Rightarrow> (acceptedUnsettled req err, w4)
         | (Inr stored, w4) \<Rightarrow> ((placeResult stored, None), w4))) = (out, w')"
  shows "quietly invar rows sent w w' \<and> place_outcome req True (rows w') out"
proof -
  obtain r1 w1 where a: "applyEv s ctx SourceAck (ackEvent ack) w = (r1, w1)" by (rule prod.exhaust)
  obtain r2 w2 where g: "cs_GetOrder (sv_commands s) (rq_ClientOrderID req) w1 = (r2, w2)" by (rule prod.exhaust)
  note q1 = applyEv_quiet [OF a] and q2 = quietly_trans [OF applyEv_quiet [OF a] get_quiet [OF g]]
  note k = still_stored [OF quietlyD(3) [OF q1 assms(1)] assms(2,3)] still_stored [OF quietlyD(3) [OF q2 assms(1)] assms(2,3)]
  have "place_outcome req True (rows w2) (placeResult stored, None)" if "r2 = Inr stored" for stored
    using get_row [OF quietlyD(2) [OF q1 assms(1)] g [unfolded that]] k(2)
    by (auto simp: place_outcome_def placeResult_def orderRecord_def row_of_request_def)
  with assms(4) a g q1 q2 k show ?thesis
    by (cases r1; cases r2) (auto dest: accepted_outcome)
qed

lemma Place_run:
  assumes "invar w" "retries s" "Place s ctx req0 w = (out, w')"
  defines "req \<equiv> withDefaults s req0 w"
  shows "invar w' \<and> rows_advance (rows w) (rows w') \<and> sends sent (submits req) w w'
    \<and> ((\<exists>e. out = (noResult, Some e) \<and> fst (preparePlace s req0 w) = Inl e) \<and> sent w' = sent w
       \<or> place_outcome req (length (sent w) < length (sent w')) (rows w') out)"
proof -
  obtain p w1 where p: "preparePlace s req0 w = (p, w1)" by (rule prod.exhaust)
  note q1 = preparePlace_quiet [OF p]
  have i1: "invar w1" and r1: "rows_advance (rows w) (rows w1)" and s1: "sent w1 = sent w"
    using quietlyD [OF q1] assms(1) by auto
  consider (err) e where "p = Inl e" | (existing) rq res where "p = Inr (rq, Inr res)" | (submit) rq v where "p = Inr (rq, Inl v)"
    by (metis obj_sumE surj_pair)
  then show ?thesis
  proof cases
    case err
    with p assms(3) i1 r1 s1 q1 show ?thesis by (auto simp: Place_def intro: sends_quiet)
  next
    case existing
    note pr = preparePlace_Inr [OF assms(1) p [unfolded existing]]
    from existing p assms(3) have "out = (res, None)" "w' = w1" by (auto simp: Place_def)
    with pr i1 r1 q1 show ?thesis
      by (auto simp: req_def place_outcome_def placeResult_def orderRecord_def row_of_request_def intro: sends_quiet)
  next
    case submit
    note pr = preparePlace_Inr [OF assms(1) p [unfolded submit]]
    then obtain row where rq: "rq = req" and row: "rows w1 (rq_ClientOrderID req) = Some row" "row_of_request row req"
      and v: "sv_venues s (i_Venue (rq_Instrument req)) = Some v" by (auto simp: req_def)
    obtain a w2 where a: "sv_Retry s ctx (sv_submitBudget s) (submitAttempt v req) w1 = (a, w2)" by (rule prod.exhaust)
    note at = attempts_submit [OF retriesD [OF assms(2) a] v i1 row]
    then have i2: "invar w2" and r2: "rows_advance (rows w1) (rows w2)" and s2: "sends sent (submits req) w1 w2"
      "length (sent w1) < length (sent w2)" by auto
    from still_stored [OF r2 row] obtain row2 where row2: "rows w2 (rq_ClientOrderID req) = Some row2" "row_of_request row2 req"
      by blast
    have "quietly invar rows sent w2 w' \<and> place_outcome req True (rows w') out"
    proof (cases a)
      case (Inl e)
      with p submit a rq assms(3) have "submitFailure s ctx req e w2 = (out, w')" by (simp add: Place_def)
      from submitFailure_outcome [OF i2 row2 this] show ?thesis .
    next
      case (Inr ack)
      with p submit a rq assms(3) show ?thesis
        by (intro settle_outcome [OF i2 row2, of ctx ack]) (simp add: Place_def)
    qed
    then have q: "quietly invar rows sent w2 w'" and o: "place_outcome req True (rows w') out" by auto
    have "sends sent (submits req) w w'"
      using sends_trans [OF sends_quiet [OF q1] sends_trans [OF s2(1) sends_quiet [OF q]]] .
    with o i2 quietlyD [OF q] r1 r2 s1 s2(2) show ?thesis by (auto intro: rows_advance_trans)
  qed
qed

text \<open>
  A supplied ID that names another order is refused before any submit, and an order that the venue has
  already taken, or that left the pending state, is never submitted again.
\<close>

lemma Place_mismatch:
  assumes "invar w" "retries s" "Place s ctx req0 w = (out, w')"
    "rows w (rq_ClientOrderID (withDefaults s req0 w)) = Some row" "\<not> row_of_request row (withDefaults s req0 w)"
  shows "fst out = noResult \<and> snd out \<noteq> None \<and> sent w' = sent w"
proof -
  note run = Place_run [OF assms(1-3)]
  from run rows_advanceD [of "rows w" "rows w'", OF _ assms(4)] obtain row' where
    "rows w' (rq_ClientOrderID (withDefaults s req0 w)) = Some row'" "row_advances row row'" by blast
  with assms(5) have "\<not> place_outcome (withDefaults s req0 w) n (rows w') out" for n
    by (auto simp: place_outcome_def row_advances_def dest: row_of_request_terms)
  with run show ?thesis by auto
qed

lemma advanced_stays:
  "row_advances row row' \<Longrightarrow> o_Status row \<noteq> StatusPending \<or> (\<exists>v. o_VenueOrderID row = Some v \<and> v \<noteq> []) \<Longrightarrow>
   \<not> (fromNullString (o_VenueOrderID row') = [] \<and> o_Status row' = StatusPending)"
  using rank_of_pending_iff [of "o_Status row"] by (auto simp: row_advances_def)

lemma preparePlace_advanced:
  assumes "invar w" "rows w (rq_ClientOrderID (withDefaults s req0 w)) = Some row"
    "o_Status row \<noteq> StatusPending \<or> (\<exists>v. o_VenueOrderID row = Some v \<and> v \<noteq> [])"
  shows "preparePlace s req0 w \<noteq> (Inr (rq, Inl v), w')"
proof
  let ?req = "withDefaults s req0 w"
  assume p: "preparePlace s req0 w = (Inr (rq, Inl v), w')"
  have old: "\<not> (or_VenueOrderID (orderRecord row') = [] \<and> or_Status (orderRecord row') = StatusPending)"
    if "rows_advance (rows w) R" "R (rq_ClientOrderID ?req) = Some row'" for R row'
    using rows_advanceD [OF that(1) assms(2)] that(2) advanced_stays [OF _ assms(3)] by (auto simp: orderRecord_def)
  have look: False if l: "lookupExisting s ?req u w1 = (Inr (rq, Inl v), w')" and i: "invar w1" and a: "rows_advance (rows w) (rows w1)" for u w1
  proof -
    from l obtain stored where g: "cs_GetOrder (sv_commands s) (rq_ClientOrderID ?req) w1 = (Inr stored, w')"
      "or_VenueOrderID stored = [] \<and> or_Status stored = StatusPending"
      by (auto simp: lookupExisting_def split: prod.splits sum.splits if_splits option.splits)
    have "rows_advance (rows w) (rows w')" using a quietlyD(3) [OF get_quiet [OF g(1)] i] by (rule rows_advance_trans)
    with get_row [OF i g(1)] old g(2) show False by blast
  qed
  show False
  proof (cases "sv_venues s (i_Venue (rq_Instrument ?req))")
    case None
    with p look [of None w] assms(1) show False by (simp add: preparePlace_def Let_def)
  next
    case (Some u)
    with p obtain b w1 where c: "cs_CreatePending (sv_commands s) ?req w = (Inr b, w1)"
      and k: "(if b then returnS (?req, Inl u) else lookupExisting s ?req (Some u)) w1 = (Inr (rq, Inl v), w')"
      by (auto simp: preparePlace_def Let_def)
    note a = quietlyD(3) [OF create_quiet [OF c] assms(1)] and i = quietlyD(2) [OF create_quiet [OF c] assms(1)]
    have "\<not> b" using create_row [OF assms(1) c] old [OF a] by (auto simp: orderRecord_def)
    with k look [OF _ i a] show False by simp
  qed
qed

lemma Place_advanced:
  assumes "invar w" "Place s ctx req0 w = (out, w')" "rows w (rq_ClientOrderID (withDefaults s req0 w)) = Some row"
    "o_Status row \<noteq> StatusPending \<or> (\<exists>v. o_VenueOrderID row = Some v \<and> v \<noteq> [])"
  shows "sent w' = sent w"
proof -
  obtain p w1 where p: "preparePlace s req0 w = (p, w1)" by (rule prod.exhaust)
  consider e where "p = Inl e" | rq res where "p = Inr (rq, Inr res)" | rq v where "p = Inr (rq, Inl v)"
    by (metis obj_sumE surj_pair)
  then show ?thesis
    using p preparePlace_advanced [OF assms(1,3,4)] assms(2) quietlyD(4) [OF preparePlace_quiet [OF p]]
    by cases (auto simp: Place_def)
qed

subsection \<open>Events and cancels\<close>

lemma applyEv_error:
  assumes "applyEv s ctx source ev w = (Inl e, w')"
  shows "\<not> ctx w' \<and> (\<exists>e'. e = wrap ''order store'' e' \<and> \<not> errors_Is e' ErrNotFound)"
  using assms by (auto simp: applyEv_def Let_def split: prod.splits sum.splits if_splits)

lemma applyEv_absorbs:
  assumes "invar w" "applyEv s (\<lambda>_. False) source ev w = (Inr u, w')" "rows w (rf_ClientOrderID (ev_Ref ev)) = Some row"
  shows "\<exists>row'. rows w' (rf_ClientOrderID (ev_Ref ev)) = Some row' \<and> absorbed ev row'"
proof -
  let ?ev = "if IsZero (ev_At ev) then ev\<lparr>ev_At := sv_clk s w\<rparr> else ev"
  have id: "rf_ClientOrderID (ev_Ref ?ev) = rf_ClientOrderID (ev_Ref ev)" "absorbed ?ev = absorbed ev" by (auto simp: fun_eq_iff)
  obtain r w1 where r: "es_ApplyEvent (sv_events s) source ?ev w = (r, w1)" by (rule prod.exhaust)
  note q = apply_quiet [OF r]
  show ?thesis
  proof (cases r)
    case (Inl e)
    with assms(2) r have "errors_Is e ErrNotFound" by (auto simp: applyEv_def Let_def split: if_splits)
    with apply_unknown [OF assms(1) r [unfolded Inl]] id have "rows w1 (rf_ClientOrderID (ev_Ref ev)) = None" by simp
    with rows_advanceD [OF quietlyD(3) [OF q assms(1)] assms(3)] show ?thesis by simp
  next
    case (Inr x)
    from apply_joins [OF assms(1) r [unfolded Inr]] obtain row1 where
      1: "rows w1 (rf_ClientOrderID (ev_Ref ev)) = Some row1" "absorbed ev row1"
      using join_absorbed id by metis
    have "w' = observeResult s (i_Venue (rf_Instrument (ev_Ref ?ev))) x w1"
      using assms(2) r Inr by (simp add: applyEv_def Let_def)
    then have "rows_advance (rows w1) (rows w')"
      using quietlyD(3) [OF observeResult_quiet quietlyD(2) [OF q assms(1)]] by simp
    from rows_advanceD [OF this 1(1)] 1(2) show ?thesis by (auto intro: absorbed_mono)
  qed
qed

lemma applyEv_keeps: "keeps (quietly invar rows sent) (applyEv s ctx source ev)"
  unfolding keeps_def using applyEv_quiet by (metis prod.collapse)

lemma apply_all_quiet: "forS (applyEv s ctx source) evs w = (r, w') \<Longrightarrow> quietly invar rows sent w w'"
  by (rule keepsD [OF keeps_for [OF quietly_order applyEv_keeps]])

lemma apply_all_absorbs:
  assumes "invar w" "forS (applyEv s (\<lambda>_. False) source) evs w = (Inr u, w')" "ev \<in> set evs"
    "rows w (rf_ClientOrderID (ev_Ref ev)) = Some row"
  shows "\<exists>row'. rows w' (rf_ClientOrderID (ev_Ref ev)) = Some row' \<and> absorbed ev row'"
proof -
  let ?R = "quietly invar rows sent"
  from forS_turn [OF assms(2,3) applyEv_keeps quietly_order] obtain a b v where
    t: "?R w a" "applyEv s (\<lambda>_. False) source ev a = (Inr v, b)" "?R b w'" by blast
  have i: "invar a" "invar b" using quietlyD(2) [OF t(1) assms(1)] quietlyD(2) [OF applyEv_quiet [OF t(2)]] by auto
  from rows_advanceD [OF quietlyD(3) [OF t(1) assms(1)] assms(4)] obtain row1 where
    "rows a (rf_ClientOrderID (ev_Ref ev)) = Some row1" by blast
  from applyEv_absorbs [OF i(1) t(2) this] rows_advanceD [OF quietlyD(3) [OF t(3) i(2)]] show ?thesis
    by (blast intro: absorbed_mono)
qed

lemma consumeTurn_ok:
  assumes "consumeTurn s ctx st w = (r, w')" "sv_venues s vid = Some v" "ve_Streamer v = Some st"
  shows "quietly invar rows sent w w' \<and> (r = Some (Inl e) \<longrightarrow>
    \<not> ctx w' \<and> (\<exists>e'. e = wrap ''order store'' e' \<and> \<not> errors_Is e' ErrNotFound))"
proof -
  obtain x w1 where x: "ps_StreamOrderEvents st w = (x, w1)" by (rule prod.exhaust)
  note q = stream_quiet [OF assms(2,3) x]
  show ?thesis
  proof (cases x)
    case (Inl err)
    with assms(1) x q show ?thesis
      by (auto simp: consumeTurn_def split: prod.splits if_splits dest: wait_quiet intro: quietly_trans)
  next
    case (Inr evs)
    obtain y w2 where y: "forS (applyEv s ctx SourceStream) evs w1 = (y, w2)" by (rule prod.exhaust)
    have "quietly invar rows sent w w2" using q apply_all_quiet [OF y] by (rule quietly_trans)
    moreover have "\<not> ctx w2 \<and> (\<exists>e'. e = wrap ''order store'' e' \<and> \<not> errors_Is e' ErrNotFound)" if "y = Inl e" for e
      using forS_error [OF y [unfolded that]] applyEv_error by blast
    ultimately show ?thesis using assms(1) x y Inr
      by (auto simp: consumeTurn_def split: sum.splits if_splits)
  qed
qed

lemma consumeStream_ok:
  assumes "consumeStream s ctx st n w = (r, w')" "sv_venues s vid = Some v" "ve_Streamer v = Some st"
  shows "quietly invar rows sent w w' \<and> (r = Some (Inl e) \<longrightarrow>
    \<not> ctx w' \<and> (\<exists>e'. e = wrap ''order store'' e' \<and> \<not> errors_Is e' ErrNotFound))"
  using assms(1)
proof (induction n arbitrary: w)
  case 0
  then show ?case by simp
next
  case (Suc n)
  obtain x w1 where x: "consumeTurn s ctx st w = (x, w1)" by (rule prod.exhaust)
  note turn = consumeTurn_ok [OF x assms(2,3)]
  show ?case
  proof (cases x)
    case None
    with Suc.prems x have "consumeStream s ctx st n w1 = (r, w')" by simp
    from Suc.IH [OF this] turn show ?thesis by (blast intro: quietly_trans)
  next
    case (Some y)
    with Suc.prems x turn show ?thesis by auto
  qed
qed

text \<open>
  Cancelling: the venue is asked only after the cancel request is durable on the row, at most once,
  with the order's own reference.
\<close>

lemma Cancel_run:
  assumes "invar w" "Cancel s cid w = (r, w')"
  shows "invar w' \<and> rows_advance (rows w) (rows w') \<and> sends sent (cancels cid) w w'
    \<and> length (sent w') \<le> Suc (length (sent w))
    \<and> (case r of Inr st \<Rightarrow> length (sent w') = Suc (length (sent w)) \<and> \<not> Terminal st
       | Inl e \<Rightarrow> True)
    \<and> (\<forall>row. rows w cid = Some row \<and> Terminal (o_Status row) \<longrightarrow> (\<exists>e. r = Inl e) \<and> sent w' = sent w)"
proof -
  obtain g w1 where g: "cs_GetOrder (sv_commands s) cid w = (g, w1)" by (rule prod.exhaust)
  note q1 = get_quiet [OF g]
  have i1: "invar w1" and r1: "rows_advance (rows w) (rows w1)" and s1: "sent w1 = sent w"
    using quietlyD [OF q1] assms(1) by auto
  show ?thesis
  proof (cases "\<exists>stored v. g = Inr stored \<and> \<not> Terminal (or_Status stored) \<and> sv_venues s (i_Venue (or_Instrument stored)) = Some v")
    case False
    then have "w' = w1 \<and> (\<exists>e. r = Inl e)"
      using assms(2) g by (cases g) (auto simp: Cancel_def bindS_def failS_def split: if_splits option.splits)
    with i1 r1 s1 q1 show ?thesis by (auto intro: sends_quiet)
  next
    case True
    then obtain stored v where st: "g = Inr stored" "\<not> Terminal (or_Status stored)"
      and v: "sv_venues s (i_Venue (or_Instrument stored)) = Some v" by blast
    from get_row [OF assms(1) g [unfolded st]] obtain row where
      row: "rows w1 cid = Some row" "stored = orderRecord row" by blast
    have alive: "\<not> (rows w cid = Some row0 \<and> Terminal (o_Status row0))" for row0
      using rows_advanceD [OF r1, of cid row0] row st by (auto simp: row_advances_def orderRecord_def)
    let ?ref = "\<lparr>rf_Instrument = or_Instrument stored, rf_ClientOrderID = or_ClientOrderID stored, rf_VenueOrderID = or_VenueOrderID stored\<rparr>"
    have ref: "cancel_ref row = ?ref" "o_Venue row = i_Venue (or_Instrument stored)"
      by (simp_all add: cancel_ref_def row orderRecord_def)
    obtain m w2 where m: "cs_MarkCancelRequested (sv_commands s) cid (sv_clk s w1) w1 = (m, w2)" by (rule prod.exhaust)
    note q2 = mark_quiet [OF m]
    have i2: "invar w2" and r2: "rows_advance (rows w1) (rows w2)" and s2: "sent w2 = sent w"
      using quietlyD [OF q2] i1 s1 by auto
    show ?thesis
    proof (cases m)
      case (Inl e)
      then have "w' = w2 \<and> r = Inl e" using assms(2) g st v m by (auto simp: Cancel_def bindS_def)
      with i2 s2 rows_advance_trans [OF r1 r2] alive quietly_trans [OF q1 q2] show ?thesis by (auto intro: sends_quiet)
    next
      case (Inr u)
      obtain c w3 where c: "op_CancelOrder (ve_Placer v) ?ref w2 = (c, w3)" by (rule prod.exhaust)
      have w': "w' = w3" and r: "r = (case c of Inl e \<Rightarrow> Inl e | Inr _ \<Rightarrow> Inr (or_Status stored))"
        using assms(2) g st v m Inr c by (auto simp: Cancel_def bindS_def returnS_def split: sum.splits)
      have call: "calls invar rows sent (AskCancel (o_Venue row) (cancel_ref row)) w2 w3"
        using placer_ofD(2) [OF _ c] venue_wired [OF v] ref by simp
      from mark_row [OF i1 m [unfolded Inr]] obtain row2 where
        row2: "rows w2 cid = Some row2" "o_CancelRequestedAt row2 \<noteq> None" by blast
      from rows_advanceD [OF r2 row(1)] row2 have adv: "row_advances row row2" by auto
      have key: "o_ClientOrderID row = cid" using rows_key [OF i1 row(1)] .
      have "cancels cid (AskCancel (o_Venue row) (cancel_ref row)) R" if "rows_advance (rows w2) R" for R
      proof -
        from rows_advanceD [OF that row2(1)] obtain row3 where 3: "R cid = Some row3" "row_advances row2 row3" by blast
        with row2(2) adv key show ?thesis
          by (auto simp: cancels_def cancel_ref_def row_advances_def row_terms_def)
      qed
      then have "sends sent (cancels cid) w2 w'" unfolding w' by (rule sends_call [OF call i2])
      then have "sends sent (cancels cid) w w'"
        using sends_trans [OF sends_quiet [OF quietly_trans [OF q1 q2]]] by blast
      moreover have "invar w' \<and> rows_advance (rows w2) (rows w') \<and> length (sent w') = Suc (length (sent w))"
        using callsD [OF call] i2 s2 w' by (auto simp: goes_on_def)
      ultimately show ?thesis
        using rows_advance_trans [OF rows_advance_trans [OF r1 r2]] alive st(2) r
        by (auto split: sum.splits)
    qed
  qed
qed

end

end
