(* ===== verification/Reconcile.thy ===== *)
theory Reconcile
  imports Order_Service
begin

section \<open>The reconciler\<close>

text \<open>
  \<open>internal/service/reconcile/reconcile.go\<close>: one pass per venue compares the orders the venue lists
  with the active local orders, feeds what differs to the store, looks up what the venue no longer
  lists, and reports open orders it does not know as orphans. As in \<open>Order_Service\<close> the stores, the
  placers, the bus and the clock are operations on a world \<open>'w\<close>.
\<close>

definition SubjectReconcileOrphan :: string where "SubjectReconcileOrphan = ''reconcile.orphan''"
definition SubjectStreamReconnected :: string where "SubjectStreamReconnected = ''stream.reconnected''"

record 'w venueLoop =
  vl_ID :: VenueID
  vl_Placer :: "'w OrderPlacer"
  vl_kick :: "unit list" \<comment> \<open>the channel, with room for one value\<close>
  vl_lastOrphans :: "string list" \<comment> \<open>the set of reported venue order IDs\<close>

text \<open>What ends the wait between two passes.\<close>

datatype Wake = ContextDone | TimerFired | Kicked

record 'w ReconcileSvc =
  rc_orders :: "'w OrderReconcileStore"
  rc_events :: "'w OrderEventStore"
  rc_Publish :: "BusPayload BusEvent \<Rightarrow> ('w, unit) op"
  rc_clk :: "'w \<Rightarrow> Time"
  rc_interval :: Duration
  rc_wait :: "Duration \<Rightarrow> 'w \<Rightarrow> Wake \<times> 'w"
  rc_observeDiff :: "VenueID \<Rightarrow> string \<Rightarrow> 'w \<Rightarrow> 'w"
  rc_observeSuccess :: "VenueID \<Rightarrow> Duration \<Rightarrow> Time \<Rightarrow> int \<Rightarrow> 'w \<Rightarrow> 'w"

text \<open>\<open>New\<close> gives every venue an empty kick channel and no reported orphans.\<close>

definition newLoop :: "VenueID \<times> 'w OrderPlacer \<Rightarrow> 'w venueLoop" where
  "newLoop v = \<lparr>vl_ID = fst v, vl_Placer = snd v, vl_kick = [], vl_lastOrphans = []\<rparr>"

definition handleReconnect :: "BusPayload BusEvent \<Rightarrow> 'w venueLoop list \<Rightarrow> 'w venueLoop list" where
  "handleReconnect event loops = (case be_Payload event of
     VenueIDPayload venue \<Rightarrow>
       map (\<lambda>v. if vl_ID v \<noteq> venue then v else if length (vl_kick v) < 1 then v\<lparr>vl_kick := vl_kick v @ [()]\<rparr> else v) loops
   | _ \<Rightarrow> loops)"

subsection \<open>Feeding a snapshot to the store\<close>

definition snapshotEvent :: "Snapshot \<Rightarrow> string \<Rightarrow> Event" where
  "snapshotEvent snap reason = \<lparr>ev_Ref = sn_Ref snap, ev_Status = sn_Status snap, ev_FilledQty = sn_FilledQty snap,
     ev_FillPrice = sn_AvgFillPrice snap, ev_VenueFillID = [], ev_Fee = 0, ev_FeeCurrency = [], ev_Reason = reason,
     ev_At = sn_UpdatedAt snap\<rparr>"

definition recApply :: "'w ReconcileSvc \<Rightarrow> Snapshot \<Rightarrow> string \<Rightarrow> ('w, unit) op" where
  "recApply s snap reason w =
    (let ev0 = snapshotEvent snap reason;
         ev = (if IsZero (ev_At ev0) then ev0\<lparr>ev_At := rc_clk s w\<rparr> else ev0);
         venue = i_Venue (rf_Instrument (ev_Ref ev))
     in case es_ApplyEvent (rc_events s) SourceReconcile ev w of
       (Inl err, w1) \<Rightarrow>
         if errors_Is err ErrNotFound then (Inr (), w1)
         else (Inl (wrap ''reconcile store: apply event'' err), w1)
     | (Inr result, w1) \<Rightarrow>
         (let w2 = observe_if (d_FillAnomaly (ar_Decision result)) (rc_observeDiff s venue ''fill_anomaly'') w1
          in (Inr (), observe_if (IsPositive (UnmatchedQty (ar_Outcome result))) (rc_observeDiff s venue ''unmatched_sell'') w2)))"

definition applyAndCount :: "'w ReconcileSvc \<Rightarrow> VenueID \<Rightarrow> Snapshot \<Rightarrow> string \<Rightarrow> string \<Rightarrow> ('w, unit) op" where
  "applyAndCount s venue snap kind reason =
    bindS (recApply s snap reason) (\<lambda>_ w. (Inr (), rc_observeDiff s venue kind w))"

definition storedRef :: "OrderRecord \<Rightarrow> Ref" where
  "storedRef lo = \<lparr>rf_Instrument = or_Instrument lo, rf_ClientOrderID = or_ClientOrderID lo,
     rf_VenueOrderID = or_VenueOrderID lo\<rparr>"

definition withLocalRef :: "Snapshot \<Rightarrow> OrderRecord \<Rightarrow> Snapshot" where
  "withLocalRef snap lo = snap\<lparr>sn_Ref := (sn_Ref snap)\<lparr>rf_ClientOrderID := or_ClientOrderID lo,
     rf_VenueOrderID := (if rf_VenueOrderID (sn_Ref snap) = [] then or_VenueOrderID lo else rf_VenueOrderID (sn_Ref snap))\<rparr>\<rparr>"

subsection \<open>One local order\<close>

definition unresolvedSubmit :: "'w ReconcileSvc \<Rightarrow> VenueID \<Rightarrow> OrderRecord \<Rightarrow> 'w \<Rightarrow> 'w" where
  "unresolvedSubmit s venue lo = rc_observeDiff s venue ''unresolved_submit''"

text \<open>The product \<open>2*s.interval\<close> is computed in 64 bits.\<close>

definition reconcilePending :: "'w ReconcileSvc \<Rightarrow> 'w venueLoop \<Rightarrow> OrderRecord \<Rightarrow> ('w, unit) op" where
  "reconcilePending s v lo w =
    (if time_Sub (rc_clk s w) (or_CreatedAt lo) < wrap64 (2 * rc_interval s) then (Inr (), w)
     else if or_VenueOrderID lo = [] then (Inr (), unresolvedSubmit s (vl_ID v) lo w)
     else (case op_GetOrder (vl_Placer v) (storedRef lo) w of
        (Inl err, w1) \<Rightarrow>
          if errors_Is err ErrNotFound then (Inr (), unresolvedSubmit s (vl_ID v) lo w1) else (Inr (), w1)
      | (Inr snap, w1) \<Rightarrow> applyAndCount s (vl_ID v) (withLocalRef snap lo) ''adopted'' [] w1))"

definition reconcileMissingActive :: "'w ReconcileSvc \<Rightarrow> 'w venueLoop \<Rightarrow> OrderRecord \<Rightarrow> ('w, unit) op" where
  "reconcileMissingActive s v lo w =
    (case op_GetOrder (vl_Placer v) (storedRef lo) w of
       (Inl err, w1) \<Rightarrow> (Inr (), w1)
     | (Inr snap, w1) \<Rightarrow> applyAndCount s (vl_ID v) (withLocalRef snap lo) ''closed'' [] w1)"

definition reconcileLocal ::
  "'w ReconcileSvc \<Rightarrow> 'w venueLoop \<Rightarrow> (ClientOrderID \<Rightarrow> Snapshot option) \<Rightarrow> OrderRecord \<Rightarrow> ('w, unit) op" where
  "reconcileLocal s v venueByClient lo =
    (case venueByClient (or_ClientOrderID lo) of
       Some snap \<Rightarrow>
         (let adopt = or_VenueOrderID lo = [] \<and> rf_VenueOrderID (sn_Ref snap) \<noteq> [] in
          if sn_Status snap = or_Status lo \<and> sn_FilledQty snap = or_FilledQty lo \<and> \<not> adopt then returnS ()
          else applyAndCount s (vl_ID v) snap
            (if or_Status lo = StatusPending \<or> adopt then ''adopted'' else ''drift'') [])
     | None \<Rightarrow>
         if or_Status lo = StatusPending then reconcilePending s v lo
         else reconcileMissingActive s v lo)"

subsection \<open>Orphans\<close>

definition isOrphan :: "'w ReconcileSvc \<Rightarrow> VenueID \<Rightarrow> Snapshot \<Rightarrow> ('w, bool) op" where
  "isOrphan s venue snap w =
    (if rf_ClientOrderID (sn_Ref snap) = [] then (Inr True, w)
     else (case rs_GetOrder (rc_orders s) (rf_ClientOrderID (sn_Ref snap)) w of
        (Inr _, w1) \<Rightarrow> (Inr False, rc_observeDiff s venue ''terminal_open'' w1)
      | (Inl err, w1) \<Rightarrow>
          if errors_Is err ErrNotFound then (Inr True, w1)
          else (Inl (wrap ''reconcile store: get order'' err), w1)))"

definition publishOrphan :: "'w ReconcileSvc \<Rightarrow> VenueID \<Rightarrow> Snapshot \<Rightarrow> ('w, unit) op" where
  "publishOrphan s venue snap w =
    wrapS ''reconcile: publish orphan'' (rc_Publish s \<lparr>be_Subject = SubjectReconcileOrphan, be_At = rc_clk s w,
      be_Payload = OrphanPayload \<lparr>op_Venue = venue, op_VenueOrderID = rf_VenueOrderID (sn_Ref snap),
        op_ClientOrderID = rf_ClientOrderID (sn_Ref snap), op_Base = i_Base (rf_Instrument (sn_Ref snap)),
        op_Quote = i_Quote (rf_Instrument (sn_Ref snap))\<rparr>\<rparr>) w"

fun orphanLoop ::
  "'w ReconcileSvc \<Rightarrow> 'w venueLoop \<Rightarrow> ClientOrderID list \<Rightarrow> int \<times> string list \<Rightarrow> Snapshot list \<Rightarrow> ('w, int \<times> string list) op" where
  "orphanLoop s v localActive acc [] = returnS acc"
| "orphanLoop s v localActive (n, current) (snap # snaps) =
    (if rf_ClientOrderID (sn_Ref snap) \<noteq> [] \<and> rf_ClientOrderID (sn_Ref snap) \<in> set localActive
     then orphanLoop s v localActive (n, current) snaps
     else bindS (isOrphan s (vl_ID v) snap) (\<lambda>orphan.
       if \<not> orphan then orphanLoop s v localActive (n, current) snaps
       else bindS (\<lambda>w. (Inr (), rc_observeDiff s (vl_ID v) ''orphan'' w)) (\<lambda>_.
         bindS (if rf_VenueOrderID (sn_Ref snap) \<in> set (vl_lastOrphans v) then returnS ()
                else publishOrphan s (vl_ID v) snap) (\<lambda>_.
         orphanLoop s v localActive (n + 1, current @ [rf_VenueOrderID (sn_Ref snap)]) snaps))))"

definition reconcileOrphans ::
  "'w ReconcileSvc \<Rightarrow> 'w venueLoop \<Rightarrow> Snapshot list \<Rightarrow> ClientOrderID list \<Rightarrow> ('w, int \<times> string list) op" where
  "reconcileOrphans s v venueOrders localActive = orphanLoop s v localActive (0, []) venueOrders"

subsection \<open>A pass, and the loop of a venue\<close>

definition venueByClient :: "Snapshot list \<Rightarrow> ClientOrderID \<Rightarrow> Snapshot option" where
  "venueByClient snaps = fold (\<lambda>snap m. if rf_ClientOrderID (sn_Ref snap) \<noteq> []
     then m(rf_ClientOrderID (sn_Ref snap) := Some snap) else m) snaps (\<lambda>_. None)"

text \<open>A pass returns the venue's loop with the orphans it has reported; a venue failure skips the pass.\<close>

definition pass :: "'w ReconcileSvc \<Rightarrow> 'w venueLoop \<Rightarrow> ('w, 'w venueLoop) op" where
  "pass s v w =
    (let start = rc_clk s w in
     case op_OpenOrders (vl_Placer v) w of
       (Inl err, w1) \<Rightarrow> (Inr v, w1)
     | (Inr venueOrders, w1) \<Rightarrow>
        bindS (wrapS ''reconcile store: list active orders'' (rs_ListActiveOrders (rc_orders s) (vl_ID v))) (\<lambda>local_orders.
        bindS (forS (reconcileLocal s v (venueByClient venueOrders)) local_orders) (\<lambda>_.
        bindS (reconcileOrphans s v venueOrders (map or_ClientOrderID local_orders)) (\<lambda>(orphans, currentOrphans) w2.
          (Inr (v\<lparr>vl_lastOrphans := currentOrphans\<rparr>),
           rc_observeSuccess s (vl_ID v) (time_Sub (rc_clk s w2) start) (rc_clk s w2) orphans w2)))) w1)"

definition passError :: "bool \<Rightarrow> Err \<Rightarrow> Err + unit" where
  "passError cancelled err = (if cancelled then Inr () else Inl err)"

text \<open>
  \<open>runVenue\<close> runs a first pass and then one after every wake-up. The number bounds the passes; \<open>None\<close>
  says that the loop is still running after them. The wait is a \<open>select\<close> of the context, the timer and
  the kick channel, which \<open>handleReconnect\<close> fills; the world says which came first.
\<close>

fun runVenue :: "'w ReconcileSvc \<Rightarrow> ('w \<Rightarrow> bool) \<Rightarrow> nat \<Rightarrow> 'w venueLoop \<Rightarrow> 'w \<Rightarrow> (Err + unit) option \<times> 'w" where
  "runVenue s ctx 0 v w = (None, w)"
| "runVenue s ctx (Suc n) v w =
    (case pass s v w of
       (Inl err, w1) \<Rightarrow> (Some (passError (ctx w1) err), w1)
     | (Inr v1, w1) \<Rightarrow>
        (case rc_wait s (rc_interval s) w1 of
           (ContextDone, w2) \<Rightarrow> (Some (Inr ()), w2)
         | (_, w2) \<Rightarrow> runVenue s ctx n v1 w2))"

text \<open>
  \<open>Run\<close> subscribes to the reconnects, with an error that ends it, and then starts a goroutine for every venue
  and waits for them.
\<close>

definition Run_venues ::
  "Err option \<Rightarrow> 'w ReconcileSvc \<Rightarrow> ('w \<Rightarrow> bool) \<Rightarrow> 'w venueLoop list \<Rightarrow> Err + (nat \<Rightarrow> 'w \<Rightarrow> (Err + unit) option \<times> 'w) list" where
  "Run_venues subscribed s ctx vs = (case subscribed of
     Some err \<Rightarrow> Inl (wrap ''reconcile: subscribe to stream reconnects'' err)
   | None \<Rightarrow> Inr (map (\<lambda>v n. runVenue s ctx n v) vs))"

subsection \<open>What the reconciler relies on and what it guarantees\<close>

text \<open>A row that has caught up with a venue's report of the order.\<close>

definition caught_up :: "Snapshot \<Rightarrow> OrderRow \<Rightarrow> bool" where
  "caught_up snap row \<longleftrightarrow> absorbed (snapshotEvent snap []) row
     \<and> (o_VenueOrderID row \<noteq> None \<or> rf_VenueOrderID (sn_Ref snap) = [])"

lemma caught_up_mono: "caught_up snap row \<Longrightarrow> row_advances row row' \<Longrightarrow> caught_up snap row'"
  by (auto simp: caught_up_def row_advances_def absorbed_def)

text \<open>
  What a pass may send: it lists the venue's orders, looks orders up, and announces orphans that had no
  local row when the pass began and were not announced by the previous pass.
\<close>

definition pass_call :: "Rows \<Rightarrow> 'w venueLoop \<Rightarrow> Call \<Rightarrow> Rows \<Rightarrow> bool" where
  "pass_call R0 v c R \<longleftrightarrow> (case c of
     AskOpen venue \<Rightarrow> venue = vl_ID v
   | Lookup venue ref \<Rightarrow> venue = vl_ID v
   | Announce e \<Rightarrow> be_Subject e = SubjectReconcileOrphan \<and> (\<exists>p. be_Payload e = OrphanPayload p \<and> op_Venue p = vl_ID v
       \<and> (op_ClientOrderID p = [] \<or> R0 (op_ClientOrderID p) = None) \<and> op_VenueOrderID p \<notin> set (vl_lastOrphans v))
   | _ \<Rightarrow> False)"

text \<open>The errors that end the loop: a store or the bus failed, never a venue.\<close>

definition reconcile_error :: "Err \<Rightarrow> bool" where
  "reconcile_error e \<longleftrightarrow> (\<exists>t e'. e = wrap t e' \<and> t \<in> {''reconcile store: list active orders'',
     ''reconcile store: apply event'', ''reconcile store: get order'', ''reconcile: publish orphan''})"

lemma reconcile_errorI [intro, simp]:
  "reconcile_error (wrap ''reconcile store: list active orders'' e)"
  "reconcile_error (wrap ''reconcile store: apply event'' e)"
  "reconcile_error (wrap ''reconcile store: get order'' e)"
  "reconcile_error (wrap ''reconcile: publish orphan'' e)"
  unfolding reconcile_error_def by (rule exI, rule exI, rule conjI [OF refl], simp)+

locale reconcile_service = reconcile_store invar rows sent "rc_events s" "rc_orders s"
  for invar :: "'w \<Rightarrow> bool" and rows :: "'w \<Rightarrow> Rows" and sent :: "'w \<Rightarrow> Sent" and s :: "'w ReconcileSvc" +
  assumes diff_quiet: "quietly invar rows sent w (rc_observeDiff s venue kind w)"
    and success_quiet: "quietly invar rows sent w (rc_observeSuccess s venue d t n w)"
    and publish_call: "rc_Publish s e w = (r, w') \<Longrightarrow> calls invar rows sent (Announce e) w w'"
    and wake_quiet: "rc_wait s d w = (x, w') \<Longrightarrow> quietly invar rows sent w w'"
begin

lemma diff_if_quiet: "quietly invar rows sent w0 w \<Longrightarrow> quietly invar rows sent w0 (observe_if b (rc_observeDiff s venue kind) w)"
  by (auto simp: observe_if_def intro: quietly_trans diff_quiet)

lemma recApply_quiet: "recApply s snap reason w = (r, w') \<Longrightarrow> quietly invar rows sent w w'"
  by (auto simp: recApply_def Let_def split: prod.splits sum.splits if_splits dest!: apply_quiet intro!: diff_if_quiet)

lemma applyAndCount_quiet: "applyAndCount s venue snap kind reason w = (r, w') \<Longrightarrow> quietly invar rows sent w w'"
  by (auto simp: applyAndCount_def bindS_def split: prod.splits sum.splits dest!: recApply_quiet intro: quietly_trans diff_quiet)

lemma lookup_acts:
  "placer_of invar rows sent (vl_ID v) (vl_Placer v) \<Longrightarrow> op_GetOrder (vl_Placer v) ref w = (r, w') \<Longrightarrow>
   acts invar rows sent (pass_call R0 v) w w'"
  by (drule (1) placer_ofD(4), erule acts_call) (simp add: pass_call_def)

lemma reconcileLocal_acts:
  assumes "placer_of invar rows sent (vl_ID v) (vl_Placer v)" "reconcileLocal s v m lo w = (r, w')"
  shows "acts invar rows sent (pass_call R0 v) w w'"
proof -
  have q: "acts invar rows sent (pass_call R0 v) a b" if "applyAndCount s venue snap kind reason a = (x, b)" for venue snap kind reason x a b
    using that by (blast intro: acts_quiet applyAndCount_quiet)
  have d: "acts invar rows sent (pass_call R0 v) a b \<Longrightarrow> acts invar rows sent (pass_call R0 v) a (rc_observeDiff s venue kind b)" for venue kind a b
    using acts_trans acts_quiet diff_quiet by metis
  show ?thesis
  proof (cases "m (or_ClientOrderID lo)")
    case (Some snap)
    with assms(2) q show ?thesis by (auto simp: reconcileLocal_def Let_def returnS_def split: if_splits)
  next
    case None
    obtain y w1 where y: "op_GetOrder (vl_Placer v) (storedRef lo) w = (y, w1)" by (rule prod.exhaust)
    note l = lookup_acts [OF assms(1) y, of R0]
    show ?thesis
    proof (cases y)
      case (Inl e)
      with None y assms(2) l d d [OF acts_refl] show ?thesis
        by (auto simp: reconcileLocal_def reconcilePending_def reconcileMissingActive_def unresolvedSubmit_def split: if_splits)
    next
      case (Inr snap)
      with None y assms(2) l acts_trans [OF l] q d [OF acts_refl] show ?thesis
        by (auto simp: reconcileLocal_def reconcilePending_def reconcileMissingActive_def unresolvedSubmit_def split: if_splits)
    qed
  qed
qed

lemma recApply_catches_up:
  assumes "invar w" "recApply s snap [] w = (Inr u, w')" "rows w (rf_ClientOrderID (sn_Ref snap)) = Some row"
  shows "\<exists>row'. rows w' (rf_ClientOrderID (sn_Ref snap)) = Some row' \<and> caught_up snap row'"
proof -
  let ?raw = "snapshotEvent snap []"
  let ?ev = "if IsZero (ev_At ?raw) then ?raw\<lparr>ev_At := rc_clk s w\<rparr> else ?raw"
  have id: "ev_Ref ?ev = sn_Ref snap" by (simp add: snapshotEvent_def)
  have ab: "absorbed ?ev r \<Longrightarrow> absorbed ?raw r" for r by (simp split: if_splits)
  obtain r w1 where r: "es_ApplyEvent (rc_events s) SourceReconcile ?ev w = (r, w1)" by (rule prod.exhaust)
  note q = apply_quiet [OF r]
  show ?thesis
  proof (cases r)
    case (Inl e)
    with assms(2) r have "errors_Is e ErrNotFound" by (auto simp: recApply_def Let_def split: if_splits)
    with apply_unknown [OF assms(1) r [unfolded Inl]] id have "rows w1 (rf_ClientOrderID (sn_Ref snap)) = None" by simp
    with rows_advanceD [OF quietlyD(3) [OF q assms(1)] assms(3)] show ?thesis by simp
  next
    case (Inr x)
    from apply_joins [OF assms(1) r [unfolded Inr]] obtain row0 row1 where
      1: "rows w1 (rf_ClientOrderID (sn_Ref snap)) = Some row1" "row_state row1 = join_event ?ev (row_state row0)"
      "o_VenueOrderID row1 \<noteq> None \<or> rf_VenueOrderID (sn_Ref snap) = []"
      unfolding id by blast
    have "absorbed ?raw row1" by (rule ab [OF join_absorbed [OF 1(2)]])
    with 1(3) have c: "caught_up snap row1" by (simp add: caught_up_def)
    have "quietly invar rows sent w1 w'"
      using assms(2) r Inr by (auto simp: recApply_def Let_def intro!: diff_if_quiet)
    from rows_advanceD [OF quietlyD(3) [OF this quietlyD(2) [OF q assms(1)]] 1(1)] c show ?thesis
      by (auto intro: caught_up_mono)
  qed
qed

lemma reconcileLocal_catches_up:
  assumes "invar w" "reconcileLocal s v m (orderRecord row0) w = (Inr u, w')" "m (o_ClientOrderID row0) = Some snap"
    "rf_ClientOrderID (sn_Ref snap) = o_ClientOrderID row0"
    "rows w (o_ClientOrderID row0) = Some row" "row_advances row0 row"
  shows "\<exists>row'. rows w' (o_ClientOrderID row0) = Some row' \<and> caught_up snap row'"
proof -
  let ?lo = "orderRecord row0"
  have lo: "or_ClientOrderID ?lo = o_ClientOrderID row0" "or_Status ?lo = o_Status row0" "or_FilledQty ?lo = o_FilledQty row0"
    "or_VenueOrderID ?lo = fromNullString (o_VenueOrderID row0)" by (simp_all add: orderRecord_def)
  show ?thesis
  proof (cases "sn_Status snap = or_Status ?lo \<and> sn_FilledQty snap = or_FilledQty ?lo
      \<and> \<not> (or_VenueOrderID ?lo = [] \<and> rf_VenueOrderID (sn_Ref snap) \<noteq> [])")
    case True
    then have "caught_up snap row0"
      by (cases "o_VenueOrderID row0") (auto simp: caught_up_def absorbed_def snapshotEvent_def lo)
    moreover have "w' = w" using assms(2,3) True lo(1) by (auto simp: reconcileLocal_def Let_def)
    ultimately show ?thesis using assms(5,6) by (auto intro: caught_up_mono)
  next
    case False
    with assms(2,3) lo(1) obtain kind where "applyAndCount s (vl_ID v) snap kind [] w = (Inr u, w')"
      by (auto simp: reconcileLocal_def Let_def split: if_splits)
    then obtain x w1 where 1: "recApply s snap [] w = (Inr x, w1)" and w': "w' = rc_observeDiff s (vl_ID v) kind w1"
      by (auto simp: applyAndCount_def)
    from recApply_catches_up [OF assms(1) 1] assms(4,5) obtain row1 where
      "rows w1 (o_ClientOrderID row0) = Some row1" "caught_up snap row1" by auto
    moreover have "rows_advance (rows w1) (rows w')"
      unfolding w' using quietlyD(3) [OF diff_quiet quietlyD(2) [OF recApply_quiet [OF 1] assms(1)]] .
    ultimately show ?thesis by (blast dest: rows_advanceD intro: caught_up_mono)
  qed
qed

lemma isOrphan_quiet: "isOrphan s venue snap w = (r, w') \<Longrightarrow> quietly invar rows sent w w'"
  by (auto simp: isOrphan_def split: prod.splits sum.splits if_splits dest!: read_quiet intro: quietly_trans diff_quiet)

lemma isOrphan_unknown:
  assumes "invar w" "isOrphan s venue snap w = (Inr True, w')"
  shows "rf_ClientOrderID (sn_Ref snap) = [] \<or> rows w (rf_ClientOrderID (sn_Ref snap)) = None"
proof (rule disjCI)
  let ?cid = "rf_ClientOrderID (sn_Ref snap)"
  assume known: "rows w ?cid \<noteq> None"
  show "?cid = []"
  proof (rule ccontr)
    assume "?cid \<noteq> []"
    with assms(2) obtain e where "rs_GetOrder (rc_orders s) ?cid w = (Inl e, w')" "errors_Is e ErrNotFound"
      by (auto simp: isOrphan_def split: prod.splits sum.splits if_splits)
    then have "rows w' ?cid = None" and q: "quietly invar rows sent w w'"
      using read_unknown [OF assms(1)] read_quiet by auto
    with known rows_advanceD [OF quietlyD(3) [OF q assms(1)]] show False by force
  qed
qed

lemma publishOrphan_acts:
  assumes "publishOrphan s (vl_ID v) snap w = (r, w')" "rf_VenueOrderID (sn_Ref snap) \<notin> set (vl_lastOrphans v)"
    "rf_ClientOrderID (sn_Ref snap) = [] \<or> R0 (rf_ClientOrderID (sn_Ref snap)) = None"
  shows "acts invar rows sent (pass_call R0 v) w w'"
proof -
  obtain e x where e: "rc_Publish s e w = (x, w')" "be_Subject e = SubjectReconcileOrphan"
    "be_Payload e = OrphanPayload \<lparr>op_Venue = vl_ID v, op_VenueOrderID = rf_VenueOrderID (sn_Ref snap),
        op_ClientOrderID = rf_ClientOrderID (sn_Ref snap), op_Base = i_Base (rf_Instrument (sn_Ref snap)),
        op_Quote = i_Quote (rf_Instrument (sn_Ref snap))\<rparr>"
    using assms(1) by (auto simp: publishOrphan_def wrapS_def mapErrS_def split: prod.splits sum.splits)
  from publish_call [OF e(1)] show ?thesis
    by (rule acts_call) (use e assms(2,3) in \<open>simp add: pass_call_def\<close>)
qed

lemma orphanLoop_acts:
  assumes "orphanLoop s v active acc snaps w = (r, w')" "rows_advance R0 (rows w)" "invar w"
  shows "acts invar rows sent (pass_call R0 v) w w'"
  using assms
proof (induction snaps arbitrary: acc w)
  case Nil
  then show ?case by simp
next
  case (Cons snap snaps)
  obtain n current where acc: "acc = (n, current)" by (rule prod.exhaust)
  show ?case
  proof (cases "rf_ClientOrderID (sn_Ref snap) \<noteq> [] \<and> rf_ClientOrderID (sn_Ref snap) \<in> set active")
    case True
    with Cons.prems(1) acc have "orphanLoop s v active acc snaps w = (r, w')" by simp
    from Cons.IH [OF this Cons.prems(2,3)] show ?thesis .
  next
    case False
    obtain x w1 where x: "isOrphan s (vl_ID v) snap w = (x, w1)" by (rule prod.exhaust)
    note q = isOrphan_quiet [OF x]
    have i1: "invar w1" and r1: "rows_advance R0 (rows w1)"
      using quietlyD [OF q] Cons.prems(2,3) by (auto intro: rows_advance_trans)
    consider (err) e where "x = Inl e" | (no) "x = Inr False" | (yes) "x = Inr True" by (cases x) auto
    then show ?thesis
    proof cases
      case err
      with Cons.prems(1) acc False x q show ?thesis by (auto simp: bindS_def intro: acts_quiet)
    next
      case no
      with Cons.prems(1) acc False x have "orphanLoop s v active acc snaps w1 = (r, w')" by (simp add: bindS_def)
      from Cons.IH [OF this r1 i1] acts_trans [OF acts_quiet [OF q]] show ?thesis by blast
    next
      case yes
      let ?w2 = "rc_observeDiff s (vl_ID v) ''orphan'' w1" and ?new = "rf_VenueOrderID (sn_Ref snap) \<notin> set (vl_lastOrphans v)"
      note q2 = quietly_trans [OF q diff_quiet, of "vl_ID v" "''orphan''"]
      have un: "rf_ClientOrderID (sn_Ref snap) = [] \<or> R0 (rf_ClientOrderID (sn_Ref snap)) = None"
        using isOrphan_unknown [OF Cons.prems(3) x [unfolded yes]] rows_advanceD [OF Cons.prems(2)] by fastforce
      obtain y w3 where y: "(if ?new then publishOrphan s (vl_ID v) snap else returnS ()) ?w2 = (y, w3)" by (rule prod.exhaust)
      then have "acts invar rows sent (pass_call R0 v) ?w2 w3"
        using publishOrphan_acts [of v snap ?w2 y w3 R0] un by (auto split: if_splits)
      with acts_trans [OF acts_quiet [OF q2]] have a3: "acts invar rows sent (pass_call R0 v) w w3" by blast
      show ?thesis
      proof (cases y)
        case (Inl e)
        with Cons.prems(1) acc False x yes y a3 show ?thesis by (auto simp: bindS_def split: if_splits)
      next
        case (Inr u)
        with Cons.prems(1) acc False x yes y have
          "orphanLoop s v active (n + 1, current @ [rf_VenueOrderID (sn_Ref snap)]) snaps w3 = (r, w')"
          by (auto simp: bindS_def returnS_def split: if_splits)
        from Cons.IH [OF this] actsD [OF a3] Cons.prems(2,3) acts_trans [OF a3] show ?thesis
          by (blast intro: rows_advance_trans)
      qed
    qed
  qed
qed

text \<open>The parts of a pass that got its list from the venue.\<close>

lemma pass_listed:
  assumes "pass s v w = (r, w')" "op_OpenOrders (vl_Placer v) w = (Inr snaps, w1)"
  obtains (unlisted) e where "wrapS ''reconcile store: list active orders'' (rs_ListActiveOrders (rc_orders s) (vl_ID v)) w1 = (Inl e, w')" "r = Inl e"
    | (stopped) los w2 e where "rs_ListActiveOrders (rc_orders s) (vl_ID v) w1 = (Inr los, w2)"
      "forS (reconcileLocal s v (venueByClient snaps)) los w2 = (Inl e, w')" "r = Inl e"
    | (failed) los w2 w3 e where "rs_ListActiveOrders (rc_orders s) (vl_ID v) w1 = (Inr los, w2)"
      "forS (reconcileLocal s v (venueByClient snaps)) los w2 = (Inr (), w3)"
      "orphanLoop s v (map or_ClientOrderID los) (0, []) snaps w3 = (Inl e, w')" "r = Inl e"
    | (complete) los w2 w3 x w4 d t n where "rs_ListActiveOrders (rc_orders s) (vl_ID v) w1 = (Inr los, w2)"
      "forS (reconcileLocal s v (venueByClient snaps)) los w2 = (Inr (), w3)"
      "orphanLoop s v (map or_ClientOrderID los) (0, []) snaps w3 = (Inr x, w4)"
      "w' = rc_observeSuccess s (vl_ID v) d t n w4" "r = Inr (v\<lparr>vl_lastOrphans := snd x\<rparr>)"
proof -
  obtain l w2 where l: "rs_ListActiveOrders (rc_orders s) (vl_ID v) w1 = (l, w2)" by (rule prod.exhaust)
  show thesis
  proof (cases l)
    case (Inl e)
    with assms l show thesis by (intro unlisted) (auto simp: pass_def bindS_def wrapS_def mapErrS_def)
  next
    case (Inr los)
    obtain f w3 where f: "forS (reconcileLocal s v (venueByClient snaps)) los w2 = (f, w3)" by (rule prod.exhaust)
    obtain x w4 where x: "orphanLoop s v (map or_ClientOrderID los) (0, []) snaps w3 = (x, w4)" by (rule prod.exhaust)
    from assms l Inr f x show thesis
      by (cases f; cases x) (auto simp: pass_def bindS_def wrapS_def mapErrS_def reconcileOrphans_def Let_def
          intro: stopped failed complete)
  qed
qed

lemma locals_act:
  "placer_of invar rows sent (vl_ID v) (vl_Placer v) \<Longrightarrow> keeps (acts invar rows sent (pass_call R0 v)) (reconcileLocal s v m lo)"
  unfolding keeps_def using reconcileLocal_acts by (metis prod.collapse)

lemma pass_acts:
  assumes "placer_of invar rows sent (vl_ID v) (vl_Placer v)" "invar w" "pass s v w = (r, w')"
  shows "acts invar rows sent (pass_call (rows w) v) w w'"
proof -
  let ?A = "acts invar rows sent (pass_call (rows w) v)"
  obtain x w1 where x: "op_OpenOrders (vl_Placer v) w = (x, w1)" by (rule prod.exhaust)
  have a1: "?A w w1" using placer_ofD(3) [OF assms(1) x] by (rule acts_call) (simp add: pass_call_def)
  show ?thesis
  proof (cases x)
    case (Inl e)
    with assms(3) x a1 show ?thesis by (simp add: pass_def)
  next
    case (Inr snaps)
    have list: "?A w w2" if "rs_ListActiveOrders (rc_orders s) (vl_ID v) w1 = (l, w2)" for l w2
      using acts_trans [OF a1 acts_quiet [OF active_quiet [OF that]]] .
    have locals: "?A w w3" if "rs_ListActiveOrders (rc_orders s) (vl_ID v) w1 = (l, w2)"
      "forS (reconcileLocal s v (venueByClient snaps)) los w2 = (f, w3)" for l w2 los f w3
      using acts_trans [OF list [OF that(1)] keepsD [OF keeps_for [OF acts_order locals_act [OF assms(1)]] that(2)]] .
    have orphans: "?A w w4" if "?A w w3" "orphanLoop s v los (0, []) snaps w3 = (y, w4)" for w3 los y w4
      using acts_trans [OF that(1) orphanLoop_acts [OF that(2)]] actsD [OF that(1) assms(2)] by blast
    from assms(3) x [unfolded Inr] show ?thesis
    proof (cases rule: pass_listed)
      case (unlisted e)
      then obtain l where "rs_ListActiveOrders (rc_orders s) (vl_ID v) w1 = (l, w')"
        by (auto simp: wrapS_Inl_iff)
      then show ?thesis by (rule list)
    next
      case (stopped los w2 e)
      then show ?thesis by (blast intro: locals)
    next
      case (failed los w2 w3 e)
      then show ?thesis by (blast intro: locals orphans)
    next
      case (complete los w2 w3 y w4 d t n)
      have "?A w w4" using complete(1-3) by (blast intro: locals orphans)
      then show ?thesis unfolding complete(4) by (rule acts_trans [OF _ acts_quiet [OF success_quiet]])
    qed
  qed
qed

lemma applyAndCount_error: "applyAndCount s venue snap kind reason a = (Inl e, b) \<Longrightarrow> reconcile_error e"
  by (auto simp: applyAndCount_def bindS_Inl_iff recApply_def Let_def split: prod.splits sum.splits if_splits)

lemma reconcileLocal_error:
  assumes "reconcileLocal s v m lo a = (Inl e, b)"
  shows "reconcile_error e"
proof (cases "m (or_ClientOrderID lo)")
  case (Some snap)
  with assms show ?thesis by (auto simp: reconcileLocal_def Let_def split: if_splits dest: applyAndCount_error)
next
  case None
  obtain y w1 where "op_GetOrder (vl_Placer v) (storedRef lo) a = (y, w1)" by (rule prod.exhaust)
  with None assms show ?thesis
    by (cases y) (auto simp: reconcileLocal_def reconcilePending_def reconcileMissingActive_def
        split: if_splits dest: applyAndCount_error)
qed

lemma orphanLoop_error: "orphanLoop s v los acc sn a = (Inl e, b) \<Longrightarrow> reconcile_error e"
proof (induction sn arbitrary: acc a)
  case (Cons x xs)
  have io: "isOrphan s (vl_ID v) x a = (Inl e, b) \<Longrightarrow> reconcile_error e" for a
    by (auto simp: isOrphan_def split: prod.splits sum.splits if_splits)
  have po: "publishOrphan s (vl_ID v) x a = (Inl e, b) \<Longrightarrow> reconcile_error e" for a
    by (auto simp: publishOrphan_def wrapS_Inl_iff)
  obtain n c where "acc = (n, c)" by (rule prod.exhaust)
  with Cons.prems Cons.IH io po show ?case
    by (auto simp: bindS_Inl_iff split: if_splits)
qed simp

lemma pass_error:
  assumes "pass s v w = (Inl e, w')"
  shows "reconcile_error e"
proof -
  obtain snaps w1 where o: "op_OpenOrders (vl_Placer v) w = (Inr snaps, w1)"
    using assms by (auto simp: pass_def split: prod.splits sum.splits)
  from assms o show ?thesis
  proof (cases rule: pass_listed)
    case (unlisted e')
    then show ?thesis by (auto simp: wrapS_Inl_iff)
  next
    case (stopped los w2 e')
    then show ?thesis using forS_error reconcileLocal_error by fastforce
  next
    case (failed los w2 w3 e')
    then show ?thesis using orphanLoop_error by simp
  qed simp
qed

text \<open>The loop of a venue only asks and announces, and it stops with an error only when the store or the bus failed.\<close>

lemma runVenue_ok:
  assumes "placer_of invar rows sent (vl_ID v) (vl_Placer v)" "invar w" "runVenue s ctx n v w = (r, w')"
  shows "invar w' \<and> rows_advance (rows w) (rows w')
    \<and> sends sent (\<lambda>c R. \<forall>venue req ref. c \<noteq> Submit venue req \<and> c \<noteq> AskCancel venue ref) w w'
    \<and> (\<forall>e. r = Some (Inl e) \<longrightarrow> \<not> ctx w' \<and> reconcile_error e)"
proof -
  let ?P = "\<lambda>c R. \<forall>venue req ref. c \<noteq> Submit venue req \<and> c \<noteq> AskCancel venue ref"
  have "acts invar rows sent ?P w w' \<and> (\<forall>e. r = Some (Inl e) \<longrightarrow> \<not> ctx w' \<and> reconcile_error e)"
    using assms
  proof (induction n arbitrary: v w)
    case 0
    then show ?case by simp
  next
    case (Suc n)
    obtain x w1 where x: "pass s v w = (x, w1)" by (rule prod.exhaust)
    have a1: "acts invar rows sent ?P w w1"
      using pass_acts [OF Suc.prems(1,2) x] by (rule acts_mono) (auto simp: pass_call_def)
    show ?case
    proof (cases x)
      case (Inl e)
      with Suc.prems(3) x a1 pass_error [OF x [unfolded Inl]] show ?thesis by (auto simp: passError_def split: if_splits)
    next
      case (Inr v1)
      obtain y w2 where y: "rc_wait s (rc_interval s) w1 = (y, w2)" by (rule prod.exhaust)
      note a2 = acts_trans [OF a1 acts_quiet [OF wake_quiet [OF y]]]
      have v1: "vl_ID v1 = vl_ID v" "vl_Placer v1 = vl_Placer v"
        using x Inr by (auto simp: pass_def Let_def split: prod.splits sum.splits)
      show ?thesis
      proof (cases "y = ContextDone")
        case True
        with Suc.prems(3) x Inr y a2 show ?thesis by auto
      next
        case False
        with Suc.prems(3) x Inr y have "runVenue s ctx n v1 w2 = (r, w')" by (cases y) auto
        from Suc.IH [OF _ actsD(1) [OF a2 Suc.prems(2)] this] Suc.prems(1) v1 show ?thesis
          using acts_trans [OF a2] by auto
      qed
    qed
  qed
  with assms(2) show ?thesis by (simp add: acts_def)
qed

lemma venueByClient_snoc: "venueByClient (snaps @ [snap]) = (if rf_ClientOrderID (sn_Ref snap) \<noteq> []
    then (venueByClient snaps)(rf_ClientOrderID (sn_Ref snap) := Some snap) else venueByClient snaps)"
  by (simp add: venueByClient_def)

lemma venueByClient_Some:
  "venueByClient snaps cid = Some snap \<Longrightarrow> snap \<in> set snaps \<and> rf_ClientOrderID (sn_Ref snap) = cid \<and> cid \<noteq> []"
proof (induction snaps rule: rev_induct)
  case Nil
  then show ?case by (simp add: venueByClient_def)
next
  case (snoc x xs)
  then show ?case by (auto simp: venueByClient_snoc split: if_splits)
qed

lemma caught_up_after_pass:
  assumes "placer_of invar rows sent (vl_ID v) (vl_Placer v)" "invar w" "pass s v w = (Inr v', w')"
    "op_OpenOrders (vl_Placer v) w = (Inr snaps, w1)" "venueByClient snaps cid = Some snap"
    "rows w cid = Some row" "o_Venue row = vl_ID v"
  shows "\<exists>row'. rows w' cid = Some row' \<and> (Terminal (o_Status row') \<or> caught_up snap row')"
proof -
  let ?A = "acts invar rows sent (pass_call (rows w) v)"
  from assms(3,4) obtain los w2 w3 x w4 d t n where
    l: "rs_ListActiveOrders (rc_orders s) (vl_ID v) w1 = (Inr los, w2)"
    and f: "forS (reconcileLocal s v (venueByClient snaps)) los w2 = (Inr (), w3)"
    and o: "orphanLoop s v (map or_ClientOrderID los) (0, []) snaps w3 = (Inr x, w4)"
    and w': "w' = rc_observeSuccess s (vl_ID v) d t n w4"
    by (cases rule: pass_listed) auto
  have a1: "?A w w1" using placer_ofD(3) [OF assms(1,4)] by (rule acts_call) (simp add: pass_call_def)
  note a2 = acts_trans [OF a1 acts_quiet [OF active_quiet [OF l]]]
  note k = keeps_for [OF acts_order locals_act [OF assms(1)]]
  note a3 = acts_trans [OF a2 keepsD [OF k f]]
  have i: "invar w1" "invar w2" "invar w3" using a1 a2 a3 assms(2) by (auto dest: actsD(1))
  have a4: "?A w3 w4" using orphanLoop_acts [OF o _ i(3)] actsD(2) [OF a3 assms(2)] by blast
  have a5: "?A w3 w'" unfolding w' using acts_trans [OF a4 acts_quiet [OF success_quiet]] .
  from rows_advanceD [OF actsD(2) [OF a2 assms(2)] assms(6)] obtain row2 where
    row2: "rows w2 cid = Some row2" "row_advances row row2" by blast
  have key: "o_ClientOrderID row2 = cid" "o_Venue row2 = vl_ID v"
    using stored_key [OF i(2) row2(1)] row2(2) assms(7) by (auto simp: row_advances_def row_terms_def)
  show ?thesis
  proof (cases "Terminal (o_Status row2)")
    case True
    from rows_advanceD [OF actsD(2) [OF acts_trans [OF keepsD [OF k f] a5] i(2)] row2(1)] True show ?thesis
      by (auto simp: row_advances_def)
  next
    case False
    with active_rows [OF i(1) l] row2(1) key have "orderRecord row2 \<in> set los" by auto
    from forS_turn [OF f this locals_act [OF assms(1)] acts_order] obtain a b u where
      t: "?A w2 a" "reconcileLocal s v (venueByClient snaps) (orderRecord row2) a = (Inr u, b)" "?A b w3" by blast
    have ia: "invar a" "invar b" using actsD(1) [OF t(1) i(2)] actsD(1) [OF reconcileLocal_acts [OF assms(1) t(2)]] by auto
    from rows_advanceD [OF actsD(2) [OF t(1) i(2)] row2(1)] obtain row3 where
      row3: "rows a cid = Some row3" "row_advances row2 row3" by blast
    have "\<exists>row'. rows b cid = Some row' \<and> caught_up snap row'"
      using reconcileLocal_catches_up [OF ia(1) t(2)] venueByClient_Some [OF assms(5)] assms(5) row3 key(1) by auto
    with rows_advanceD [OF actsD(2) [OF acts_trans [OF t(3) a5] ia(2)]] show ?thesis
      by (blast intro: caught_up_mono)
  qed
qed

end

end
