(* ===== verification/Trading_World.thy ===== *)
theory Trading_World
  imports Reconcile
begin

section \<open>The services over the Postgres store\<close>

text \<open>
  The world the services share, and the ports on it. The store's operations run on the database, a
  placer's on the state of its venue, the bus's on the bus. Before each of these calls the rest of the
  process may have run: \<open>w_others\<close> gives, for every call, what happened to the database since the last
  one. It is any sequence of calls of the stores. The clock and \<open>id.New\<close> are read per call.
  \<open>w_sent\<close> records the calls that went out, with the order rows that were durable at that moment, and
  \<open>w_metrics\<close> what was counted.
\<close>

record 'v World =
  w_db :: DB
  w_venue :: 'v
  w_bus :: "BusPayload InProc"
  w_step :: nat
  w_others :: "nat \<Rightarrow> DB \<Rightarrow> DB"
  w_time :: "nat \<Rightarrow> Time"
  w_ulid :: "nat \<Rightarrow> string"
  w_sent :: Sent
  w_metrics :: "(VenueID \<times> string) list"

definition advance :: "'v World \<Rightarrow> 'v World" where
  "advance w = w\<lparr>w_step := Suc (w_step w), w_db := w_others w (w_step w) (w_db w)\<rparr>"

definition world_rows :: "'v World \<Rightarrow> Rows" where
  "world_rows w cid = find_order cid (db_durable (w_db w))"

definition onStore :: "(string \<Rightarrow> 'a dbop) \<Rightarrow> ('v World, 'a) op" where
  "onStore m w = (let w1 = advance w in
     case m (w_ulid w1 (w_step w1)) (w_db w1) of (r, db) \<Rightarrow> (r, w1\<lparr>w_db := db\<rparr>))"

definition onVenue :: "Call \<Rightarrow> ('v, 'a) op \<Rightarrow> ('v World, 'a) op" where
  "onVenue c m w = (let w1 = advance w in
     case m (w_venue w1) of (r, v) \<Rightarrow> (r, w1\<lparr>w_venue := v, w_sent := w_sent w1 @ [(c, world_rows w1)]\<rparr>))"

definition worldPublish :: "BusPayload BusEvent \<Rightarrow> ('v World, unit) op" where
  "worldPublish e w = (let w1 = advance w in
     case Publish e (w_bus w1) of (r, b) \<Rightarrow> (r, w1\<lparr>w_bus := b, w_sent := w_sent w1 @ [(Announce e, world_rows w1)]\<rparr>))"

definition tick :: "'a \<Rightarrow> 'v World \<Rightarrow> 'a \<times> 'v World" where
  "tick x w = (x, advance w)"

definition metric :: "VenueID \<Rightarrow> string \<Rightarrow> 'v World \<Rightarrow> 'v World" where
  "metric venue reason w = w\<lparr>w_metrics := w_metrics w @ [(venue, reason)]\<rparr>"

subsection \<open>The ports\<close>

text \<open>
  The store that \<open>internal/app/app.go\<close> wires: the selector is FIFO; the rounding division of the decimal
  library and SHA-256 are parameters, and every call draws its ULID.
\<close>

definition fifoStore :: "(Decimal \<Rightarrow> Decimal \<Rightarrow> Decimal) \<Rightarrow> (string \<Rightarrow> string) \<Rightarrow> string \<Rightarrow> OrderStore" where
  "fifoStore quo sha ulid = \<lparr>selector = FIFO_Select, newID = ulid, decimal_Div = quo, sha256 = sha\<rparr>"

definition pgCommands :: "'v World OrderCommandStore" where
  "pgCommands = \<lparr>cs_CreatePending = (\<lambda>req. onStore (\<lambda>_. CreatePending req)),
     cs_GetOrder = (\<lambda>cid. onStore (\<lambda>_. GetOrder cid)),
     cs_MarkCancelRequested = (\<lambda>cid t. onStore (\<lambda>_. MarkCancelRequested cid t))\<rparr>"

definition pgEvents :: "(Decimal \<Rightarrow> Decimal \<Rightarrow> Decimal) \<Rightarrow> (string \<Rightarrow> string) \<Rightarrow> 'v World OrderEventStore" where
  "pgEvents quo sha = \<lparr>es_ApplyEvent = (\<lambda>source ev. onStore (\<lambda>ulid. ApplyEvent (fifoStore quo sha ulid) source ev))\<rparr>"

definition pgReads :: "'v World OrderReconcileStore" where
  "pgReads = \<lparr>rs_GetOrder = (\<lambda>cid. onStore (\<lambda>_. GetOrder cid)),
     rs_ListActiveOrders = (\<lambda>venue. onStore (\<lambda>_. ListActiveOrders venue))\<rparr>"

text \<open>A venue, as the functions with which it answers on its own state.\<close>

definition wire :: "VenueID \<Rightarrow> 'v OrderPlacer \<Rightarrow> 'v World OrderPlacer" where
  "wire venue p = \<lparr>op_PlaceOrder = (\<lambda>req. onVenue (Submit venue req) (op_PlaceOrder p req)),
     op_CancelOrder = (\<lambda>ref. onVenue (AskCancel venue ref) (op_CancelOrder p ref)),
     op_OpenOrders = onVenue (AskOpen venue) (op_OpenOrders p),
     op_GetOrder = (\<lambda>ref. onVenue (Lookup venue ref) (op_GetOrder p ref))\<rparr>"

definition world_inv :: "'v World \<Rightarrow> bool" where
  "world_inv w \<longleftrightarrow> store_reach (w_db w) \<and> driver_faults (w_db w) \<and> (\<forall>n db. store_step\<^sup>*\<^sup>* db (w_others w n db))"

subsection \<open>The laws hold\<close>

lemma rows_advance_tables:
  "rows_advance (world_rows w) (world_rows w') \<longleftrightarrow> advances (db_durable (w_db w)) (db_durable (w_db w'))"
  by (simp add: rows_advance_def advances_def world_rows_def)

lemma db_steps:
  assumes "world_inv w" "store_step\<^sup>*\<^sup>* (w_db w) (w_db w')" "w_others w' = w_others w"
  shows "world_inv w' \<and> rows_advance (world_rows w) (world_rows w')"
  using assms store_steps_reach [OF assms(2)] store_steps_advance [OF assms(2)] driver_faults_cong [OF store_steps_faults [OF assms(2)]]
  by (auto simp: world_inv_def rows_advance_tables)

lemma advance_steps: "world_inv w \<Longrightarrow> store_step\<^sup>*\<^sup>* (w_db w) (w_db (advance w))"
  by (simp add: world_inv_def advance_def)

lemma advance_simps [simp]: "w_others (advance w) = w_others w" "w_sent (advance w) = w_sent w"
  "w_venue (advance w) = w_venue w" "w_bus (advance w) = w_bus w" "w_ulid (advance w) = w_ulid w"
  by (simp_all add: advance_def)

lemma advance_goes_on: "world_inv w \<Longrightarrow> world_inv (advance w) \<and> rows_advance (world_rows w) (world_rows (advance w))"
  by (rule db_steps) (auto intro: advance_steps)

lemma onStore_quiet:
  assumes "onStore m w = (r, w')" "\<And>ulid db r db'. m ulid db = (r, db') \<Longrightarrow> store_step db db'"
  shows "quietly world_inv world_rows w_sent w w'"
proof -
  obtain db where db: "m (w_ulid w (Suc (w_step w))) (w_db (advance w)) = (r, db)" "w' = (advance w)\<lparr>w_db := db\<rparr>"
    using assms(1) by (auto simp: onStore_def Let_def advance_def split: prod.splits)
  have "store_step\<^sup>*\<^sup>* (w_db w) db" if "world_inv w"
    using advance_steps [OF that] assms(2) [OF db(1)] by (rule rtranclp.rtrancl_into_rtrancl)
  then show ?thesis using db_steps [of w w'] by (simp add: quietly_def goes_on_def db(2))
qed

lemma onStore_run:
  assumes "onStore m w = (r, w')" "world_inv w"
  obtains db0 ulid where "store_step\<^sup>*\<^sup>* (w_db w) db0" "store_reach db0" "driver_faults db0" "m ulid db0 = (r, w_db w')"
proof -
  from assms(1) have "m (w_ulid w (Suc (w_step w))) (w_db (advance w)) = (r, w_db w')"
    by (auto simp: onStore_def Let_def advance_def split: prod.splits)
  moreover have "world_inv (advance w)" using advance_goes_on [OF assms(2)] by simp
  ultimately show thesis using that advance_steps [OF assms(2)] by (auto simp: world_inv_def)
qed

lemma onVenue_calls: "calls world_inv world_rows w_sent c w (snd (onVenue c m w))"
proof -
  obtain r v where m: "m (w_venue w) = (r, v)" by (rule prod.exhaust)
  let ?w' = "(advance w)\<lparr>w_venue := v, w_sent := w_sent w @ [(c, world_rows (advance w))]\<rparr>"
  have "world_rows ?w' = world_rows (advance w)" "world_inv ?w' = world_inv (advance w)"
    by (simp_all add: world_rows_def world_inv_def fun_eq_iff)
  then show ?thesis using advance_goes_on [of w] m by (simp add: onVenue_def Let_def calls_def goes_on_def)
qed

lemma wire_placer: "placer_of world_inv world_rows w_sent venue (wire venue p)"
  by (simp add: placer_of_def wire_def onVenue_calls)

lemma publish_calls: "worldPublish e w = (r, w') \<Longrightarrow> calls world_inv world_rows w_sent (Announce e) w w'"
proof -
  assume a: "worldPublish e w = (r, w')"
  obtain x b where m: "Publish e (w_bus w) = (x, b)" by (rule prod.exhaust)
  with a have w': "w' = (advance w)\<lparr>w_bus := b, w_sent := w_sent w @ [(Announce e, world_rows (advance w))]\<rparr>"
    by (simp add: worldPublish_def Let_def)
  have "world_rows w' = world_rows (advance w)" "world_inv w' = world_inv (advance w)"
    by (simp_all add: world_rows_def world_inv_def fun_eq_iff w')
  then show ?thesis using advance_goes_on [of w] by (simp add: calls_def goes_on_def w')
qed

lemma metric_quiet: "quietly world_inv world_rows w_sent w (metric venue reason w)"
  by (simp add: quietly_def goes_on_def metric_def world_inv_def world_rows_def rows_advance_def)

lemma tick_quiet: "tick x w = (y, w') \<Longrightarrow> quietly world_inv world_rows w_sent w w'"
  using advance_goes_on by (auto simp: tick_def quietly_def goes_on_def)

lemma ApplyEvent_missing:
  assumes "ApplyEvent s source ev db = (r, db')" "find_order (rf_ClientOrderID (ev_Ref ev)) (db_durable db) = None"
  shows "db_durable db' = db_durable db"
  using assms(1) by (cases rule: ApplyEvent_cases) (use assms(2) in auto)

lemma pg_event_store: "event_store world_inv world_rows w_sent (pgEvents quo sha)"
proof
  fix source ev w r w'
  assume a: "es_ApplyEvent (pgEvents quo sha :: 'v World OrderEventStore) source ev w = (r, w')"
  then have o: "onStore (\<lambda>ulid. ApplyEvent (fifoStore quo sha ulid) source ev) w = (r, w')" by (simp add: pgEvents_def)
  then show "quietly world_inv world_rows w_sent w w'"
    by (rule onStore_quiet) (auto intro: store_step.apply_event [rotated] simp: fifoStore_def)
next
  fix w :: "'v World" and source ev x w'
  assume i: "world_inv w" and a: "es_ApplyEvent (pgEvents quo sha) source ev w = (Inr x, w')"
  from a have "onStore (\<lambda>ulid. ApplyEvent (fifoStore quo sha ulid) source ev) w = (Inr x, w')" by (simp add: pgEvents_def)
  then obtain db0 ulid where d: "store_step\<^sup>*\<^sup>* (w_db w) db0" "store_reach db0"
    "ApplyEvent (fifoStore quo sha ulid) source ev db0 = (Inr x, w_db w')"
    using i by (rule onStore_run)
  from fifo.ApplyEvent_row(1) [OF d(3)] store_reach_inv [OF d(2)] obtain row row' where
    row: "find_order (rf_ClientOrderID (ev_Ref ev)) (db_durable db0) = Some row"
    and row': "world_rows w' (rf_ClientOrderID (ev_Ref ev)) = Some row'" "Transition (row_state row) ev = Inr (ar_Decision x)"
      "row_state row' = join_event ev (row_state row)" "o_VenueOrderID row' \<noteq> None \<or> rf_VenueOrderID (ev_Ref ev) = []"
    by (auto simp: fifoStore_def world_rows_def)
  have "row_advances row0 row" if "world_rows w (rf_ClientOrderID (ev_Ref ev)) = Some row0" for row0
    using advancesD [OF store_steps_advance [OF d(1)]] i that row by (fastforce simp: world_rows_def world_inv_def)
  with row' show "\<exists>row row'. world_rows w' (rf_ClientOrderID (ev_Ref ev)) = Some row' \<and> Transition (row_state row) ev = Inr (ar_Decision x)
      \<and> row_state row' = join_event ev (row_state row)
      \<and> (o_VenueOrderID row' \<noteq> None \<or> rf_VenueOrderID (ev_Ref ev) = [])
      \<and> (\<forall>row0. world_rows w (rf_ClientOrderID (ev_Ref ev)) = Some row0 \<longrightarrow> row_advances row0 row)" by blast
next
  fix w :: "'v World" and source ev e w'
  assume i: "world_inv w" and a: "es_ApplyEvent (pgEvents quo sha) source ev w = (Inl e, w')" and e: "errors_Is e ErrNotFound"
  from a have "onStore (\<lambda>ulid. ApplyEvent (fifoStore quo sha ulid) source ev) w = (Inl e, w')" by (simp add: pgEvents_def)
  then obtain db0 ulid where d: "driver_faults db0" "ApplyEvent (fifoStore quo sha ulid) source ev db0 = (Inl e, w_db w')"
    using i by (rule onStore_run)
  from ApplyEvent_unknown [OF d(2,1) e] have "find_order (rf_ClientOrderID (ev_Ref ev)) (db_durable db0) = None" .
  with ApplyEvent_missing [OF d(2)] show "world_rows w' (rf_ClientOrderID (ev_Ref ev)) = None"
    by (simp add: world_rows_def)
qed

subsection \<open>Commands and reads\<close>

lemma autocommit_Inr:
  assumes "autocommit q db = (Inr x, db')"
  obtains db1 db2 where "db_work db1 = db_durable db" "q db1 = (Inr x, db2)" "db_durable db' = db_work db2"
proof -
  let ?db1 = "db\<lparr>db_stmt := Suc (db_stmt db), db_work := db_durable db, db_tx := Suc (db_tx db)\<rparr>"
  obtain y db2 where q: "q ?db1 = (y, db2)" by (rule prod.exhaust)
  with assms have "y = Inr x" "db' = db2\<lparr>db_durable := db_work db2\<rparr>"
    by (auto simp: autocommit_def exec_def Let_def split: option.splits Fault.splits sum.splits)
  with q show thesis by (intro that [of ?db1 db2]) simp_all
qed

lemma find_append_None: "find P xs = None \<Longrightarrow> P y \<Longrightarrow> find P (xs @ [y]) = Some y"
  by (induction xs) (auto split: if_splits)

lemma CreatePending_row:
  assumes "CreatePending req db = (Inr b, db')"
  shows "\<exists>row. find_order (rq_ClientOrderID req) (db_durable db') = Some row
    \<and> (b \<longrightarrow> row_of_request row req \<and> o_Status row = StatusPending \<and> o_VenueOrderID row = None)"
proof -
  let ?i = "rq_Instrument req" and ?cid = "rq_ClientOrderID req"
  from assms obtain n where n: "autocommit (InsertPendingOrder ?cid (i_Venue ?i) (i_Base ?i) (i_Quote ?i) (i_VenueSymbol ?i)
      (rq_Side req) (rq_Type req) (rq_Price req) (rq_Qty req) (rq_BotID req)) db = (Inr n, db')" and b: "b = (n = 1)"
    by (auto simp: CreatePending_def)
  from n obtain db1 db2 where q: "InsertPendingOrder ?cid (i_Venue ?i) (i_Base ?i) (i_Quote ?i) (i_VenueSymbol ?i)
      (rq_Side req) (rq_Type req) (rq_Price req) (rq_Qty req) (rq_BotID req) db1 = (Inr n, db2)"
    and w: "db_durable db' = db_work db2" by (rule autocommit_Inr)
  show ?thesis
  proof (cases "find_order ?cid (db_work db1)")
    case None
    with q have "n = 1" and "\<exists>row. orders (db_work db2) = orders (db_work db1) @ [row] \<and> row_of_request row req
        \<and> o_Status row = StatusPending \<and> o_VenueOrderID row = None"
      by (auto simp: InsertPendingOrder_def set_work_def row_of_request_def StatusPending_def split: if_splits)
    then obtain row where row: "orders (db_work db2) = orders (db_work db1) @ [row]" "row_of_request row req"
      "o_Status row = StatusPending" "o_VenueOrderID row = None" by blast
    then have "find_order ?cid (db_work db2) = Some row"
      using None find_append_None [of _ "orders (db_work db1)" row] by (simp add: find_order_def row_of_request_def)
    with row w show ?thesis by simp
  next
    case (Some row)
    with q have "n = 0" "db2 = db1" by (auto simp: InsertPendingOrder_def split: if_splits)
    with Some w b show ?thesis by simp
  qed
qed

lemma GetOrder_row:
  assumes "GetOrder cid db = (Inr stored, db')"
  shows "\<exists>row. find_order cid (db_durable db') = Some row \<and> stored = orderRecord row"
proof -
  from assms obtain row where "autocommit (q_GetOrder cid) db = (Inr (Some row), db')" "stored = orderRecord row"
    by (auto simp: GetOrder_def split: option.splits)
  then show ?thesis by (auto simp: q_GetOrder_def elim!: autocommit_Inr)
qed

lemma MarkCancelRequested_row:
  assumes "MarkCancelRequested cid ts db = (Inr u, db')"
  shows "\<exists>row. find_order cid (db_durable db') = Some row \<and> o_CancelRequestedAt row \<noteq> None"
proof -
  from assms obtain n where n: "autocommit (q_MarkCancelRequested cid ts) db = (Inr n, db')" "n \<noteq> 0"
    by (auto simp: MarkCancelRequested_def split: if_splits)
  from n(1) obtain db1 db2 where q: "q_MarkCancelRequested cid ts db1 = (Inr n, db2)" "db_durable db' = db_work db2"
    by (rule autocommit_Inr)
  then obtain w where w: "w \<in> set (orders (db_work db1))" "o_ClientOrderID w = cid"
    using n(2) by (auto simp: q_MarkCancelRequested_def filter_empty_conv)
  then obtain row where "find_order cid (db_work db1) = Some row"
    by (cases "find_order cid (db_work db1)") (auto simp: find_order_def find_None_iff)
  then have "find_order cid (db_work db2) = Some (row\<lparr>o_CancelRequestedAt :=
      (case o_CancelRequestedAt row of None \<Rightarrow> Some (pg_time ts) | Some t \<Rightarrow> Some t), o_UpdatedAt := now db1\<rparr>)"
    using q(1) find_order_row [of cid "db_work db1" row]
    by (auto simp: q_MarkCancelRequested_def set_work_def find_order_def find_update_where)
  with q(2) show ?thesis by (auto split: option.splits)
qed

lemma ListActiveOrders_rows:
  assumes "ListActiveOrders venue db = (Inr active, db')" "orders_inv (db_durable db')"
  shows "set active = {orderRecord row |cid row. find_order cid (db_durable db') = Some row
    \<and> o_Venue row = venue \<and> \<not> Terminal (o_Status row)}"
proof -
  from assms(1) obtain rows where r: "autocommit (q_ListActiveOrders venue) db = (Inr rows, db')" "active = map orderRecord rows"
    by (auto simp: ListActiveOrders_def)
  let ?T = "db_durable db'"
  have "set rows = {w \<in> set (orders ?T). o_Venue w = venue \<and> o_Status w \<in> {''pending'', ''open'', ''partially_filled''}}"
    using r(1) by (auto simp: q_ListActiveOrders_def elim!: autocommit_Inr)
  also have "\<dots> = {w. find_order (o_ClientOrderID w) ?T = Some w \<and> o_Venue w = venue \<and> \<not> Terminal (o_Status w)}"
    using assms(2) by (auto simp: orders_inv_def find_order_def find_key_Some_iff Terminal_iff known_status_def rank_of_def status_defs)
  finally show ?thesis using find_order_row by (fastforce simp: r(2))
qed

lemma on_store_defs:
  "cs_CreatePending pgCommands req = onStore (\<lambda>_. CreatePending req)" "cs_GetOrder pgCommands cid = onStore (\<lambda>_. GetOrder cid)"
  "cs_MarkCancelRequested pgCommands cid ts = onStore (\<lambda>_. MarkCancelRequested cid ts)"
  "rs_GetOrder pgReads cid = onStore (\<lambda>_. GetOrder cid)" "rs_ListActiveOrders pgReads venue = onStore (\<lambda>_. ListActiveOrders venue)"
  by (simp_all add: pgCommands_def pgReads_def)

lemma onStore_steps:
  "onStore (\<lambda>_. CreatePending req) w = (r1, w') \<Longrightarrow> quietly world_inv world_rows w_sent w w'"
  "onStore (\<lambda>_. GetOrder cid) w = (r2, w') \<Longrightarrow> quietly world_inv world_rows w_sent w w'"
  "onStore (\<lambda>_. MarkCancelRequested cid ts) w = (r3, w') \<Longrightarrow> quietly world_inv world_rows w_sent w w'"
  "onStore (\<lambda>_. ListActiveOrders venue) w = (r4, w') \<Longrightarrow> quietly world_inv world_rows w_sent w w'"
  by (erule onStore_quiet, erule store_step.intros)+

lemma get_found: "world_inv w \<Longrightarrow> onStore (\<lambda>_. GetOrder cid) w = (Inr stored, w') \<Longrightarrow>
    \<exists>row. world_rows w' cid = Some row \<and> stored = orderRecord row"
  by (erule onStore_run, assumption) (auto dest: GetOrder_row simp: world_rows_def)

lemma get_missing: "world_inv w \<Longrightarrow> onStore (\<lambda>_. GetOrder cid) w = (Inl e, w') \<Longrightarrow> errors_Is e ErrNotFound \<Longrightarrow>
    world_rows w' cid = None"
  by (erule onStore_run, assumption) (auto dest: GetOrder_unknown simp: world_rows_def)

lemma world_key: "world_rows w cid = Some row \<Longrightarrow> o_ClientOrderID row = cid"
  by (simp add: world_rows_def find_order_row)

lemma pg_command_store: "command_store world_inv world_rows w_sent (pgEvents quo sha) pgCommands"
proof (intro command_store.intro command_store_axioms.intro pg_event_store, unfold on_store_defs)
  fix w :: "'v World" and req b w'
  assume "world_inv w" "onStore (\<lambda>_. CreatePending req) w = (Inr b, w')"
  then show "\<exists>row. world_rows w' (rq_ClientOrderID req) = Some row
      \<and> (b \<longrightarrow> row_of_request row req \<and> o_Status row = StatusPending \<and> o_VenueOrderID row = None)"
    by (elim onStore_run) (auto dest!: CreatePending_row simp: world_rows_def)
next
  fix w :: "'v World" and cid ts u w'
  assume "world_inv w" "onStore (\<lambda>_. MarkCancelRequested cid ts) w = (Inr u, w')"
  then show "\<exists>row. world_rows w' cid = Some row \<and> o_CancelRequestedAt row \<noteq> None"
    by (elim onStore_run) (auto dest!: MarkCancelRequested_row simp: world_rows_def)
qed (blast intro: onStore_steps get_found get_missing world_key)+

lemma pg_reconcile_store: "reconcile_store world_inv world_rows w_sent (pgEvents quo sha) pgReads"
proof (intro reconcile_store.intro reconcile_store_axioms.intro pg_event_store, unfold on_store_defs)
  fix w :: "'v World" and venue active w'
  assume i: "world_inv w" and l: "onStore (\<lambda>_. ListActiveOrders venue) w = (Inr active, w')"
  have "world_inv w'" using quietlyD(2) [OF onStore_steps(4) [OF l] i] .
  then have "orders_inv (db_durable (w_db w'))" using store_reach_inv by (auto simp: world_inv_def store_inv_def)
  with l i show "set active = {orderRecord row |cid row. world_rows w' cid = Some row \<and> o_Venue row = venue \<and> \<not> Terminal (o_Status row)}"
    unfolding world_rows_def by - (erule onStore_run, assumption, rule ListActiveOrders_rows)
qed (blast intro: onStore_steps get_found get_missing world_key)+

subsection \<open>The services on the world\<close>

text \<open>
  The order service and the reconciler as \<open>internal/app/app.go\<close> wires them. \<open>backoff.Retry\<close> and the
  \<open>select\<close> of the waits stay parameters; waiting lets the rest of the process run.
\<close>

text \<open>A stream delivers what it delivers, while the rest of the process runs.\<close>

definition streamOf :: "(nat \<Rightarrow> Err + Event list) \<Rightarrow> 'v World PrivateStreamer" where
  "streamOf deliver = \<lparr>ps_StreamOrderEvents = (\<lambda>w. tick (deliver (w_step w)) w)\<rparr>"

definition venueOf :: "VenueID \<times> 'v OrderPlacer \<times> (nat \<Rightarrow> Err + Event list) option \<Rightarrow> 'v World Venue" where
  "venueOf v = (case v of (i, p, st) \<Rightarrow> \<lparr>ve_ID = i, ve_Placer = wire i p, ve_Streamer = map_option streamOf st\<rparr>)"

record 'v App =
  ap_Div :: "Decimal \<Rightarrow> Decimal \<Rightarrow> Decimal"
  ap_sha256 :: "string \<Rightarrow> string"
  ap_venues :: "(VenueID \<times> 'v OrderPlacer \<times> (nat \<Rightarrow> Err + Event list) option) list"
  ap_Retry :: "('v World \<Rightarrow> bool) \<Rightarrow> Duration \<Rightarrow> ('v World, Ack) attempt \<Rightarrow> ('v World, Ack) op"
  ap_submitBudget :: Duration
  ap_interval :: Duration
  ap_ended :: "nat \<Rightarrow> bool"
  ap_wake :: "nat \<Rightarrow> Wake"

definition orderService :: "'v App \<Rightarrow> 'v World OrderSvc" where
  "orderService app = \<lparr>
     sv_venues = byID (map venueOf (ap_venues app)), sv_commands = pgCommands,
     sv_events = pgEvents (ap_Div app) (ap_sha256 app),
     sv_clk = (\<lambda>w. w_time w (w_step w)), sv_newID = (\<lambda>w. w_ulid w (w_step w)), sv_Retry = ap_Retry app,
     sv_submitBudget = ap_submitBudget app, sv_wait = (\<lambda>d w. tick (ap_ended app (w_step w)) w),
     sv_observeDropped = metric, sv_observeUnmatched = (\<lambda>venue. metric venue ''unmatched'')\<rparr>"

definition reconcileService :: "'v App \<Rightarrow> 'v World ReconcileSvc" where
  "reconcileService app = \<lparr>
     rc_orders = pgReads, rc_events = pgEvents (ap_Div app) (ap_sha256 app), rc_Publish = worldPublish,
     rc_clk = (\<lambda>w. w_time w (w_step w)), rc_interval = ap_interval app,
     rc_wait = (\<lambda>d w. tick (ap_wake app (w_step w)) w),
     rc_observeDiff = metric, rc_observeSuccess = (\<lambda>venue d t n. metric venue ''success'')\<rparr>"

lemma byID_Some: "byID vs i = Some v \<Longrightarrow> v \<in> set vs \<and> ve_ID v = i"
  by (auto simp: byID_def dest!: map_of_SomeD)

interpretation pg_orders: order_service world_inv world_rows w_sent "orderService app" for app
proof (intro order_service.intro order_service_axioms.intro)
  show "command_store world_inv world_rows w_sent (sv_events (orderService app))
      (sv_commands (orderService app))"
    by (simp add: orderService_def pg_command_store)
  let ?s = "orderService app"
  show "ve_ID v = vid \<and> placer_of world_inv world_rows w_sent vid (ve_Placer v)" if "sv_venues ?s vid = Some v" for vid v
    using that by (auto simp: orderService_def venueOf_def wire_placer dest!: byID_Some)
  show "quietly world_inv world_rows w_sent w w'"
    if "sv_venues ?s vid = Some v" "ve_Streamer v = Some st" "ps_StreamOrderEvents st w = (r, w')" for vid v st w r w'
    using that by (auto simp: orderService_def venueOf_def streamOf_def tick_quiet dest!: byID_Some)
qed (auto simp: orderService_def intro: metric_quiet tick_quiet)

interpretation pg_reconcile: reconcile_service world_inv world_rows w_sent "reconcileService app" for app
proof (intro reconcile_service.intro reconcile_service_axioms.intro)
  show "reconcile_store world_inv world_rows w_sent (rc_events (reconcileService app))
      (rc_orders (reconcileService app))"
    by (simp add: reconcileService_def pg_reconcile_store)
qed (auto simp: reconcileService_def intro: publish_calls metric_quiet tick_quiet)

end
