(* ===== verification/Base64.thy ===== *)
theory Base64
  imports Prelude
begin

section \<open>Encodings of page tokens\<close>

text \<open>
  \<open>base64.RawURLEncoding\<close> and \<open>hex.EncodeToString\<close>, which \<open>internal/api/orders.go\<close> uses for page tokens and
  filter digests: the URL-safe alphabet without padding. The decoder skips line breaks and ignores the
  unused low bits of the last group, as Go's does.
\<close>

definition alphabet :: string where
  "alphabet = ''ABCDEFGHIJKLMNOPQRSTUVWXYZabcdefghijklmnopqrstuvwxyz0123456789-_''"

definition sextet :: "nat \<Rightarrow> char" where
  "sextet n = alphabet ! n"

definition unsextet :: "char \<Rightarrow> nat option" where
  "unsextet c = (case filter (\<lambda>i. alphabet ! i = c) [0..<64] of [] \<Rightarrow> None | i # _ \<Rightarrow> Some i)"

definition byte :: "char \<Rightarrow> nat" where "byte c = of_char c"

fun base64_Encode :: "string \<Rightarrow> string" where
  "base64_Encode (a # b # c # cs) =
     sextet (byte a div 4) # sextet (byte a mod 4 * 16 + byte b div 16) # sextet (byte b mod 16 * 4 + byte c div 64)
       # sextet (byte c mod 64) # base64_Encode cs"
| "base64_Encode [a, b] = [sextet (byte a div 4), sextet (byte a mod 4 * 16 + byte b div 16), sextet (byte b mod 16 * 4)]"
| "base64_Encode [a] = [sextet (byte a div 4), sextet (byte a mod 4 * 16)]"
| "base64_Encode [] = []"

fun decodeGroups :: "nat list \<Rightarrow> string option" where
  "decodeGroups (w # x # y # z # rest) = map_option (\<lambda>tl. char_of (w * 4 + x div 16) # char_of (x mod 16 * 16 + y div 4)
     # char_of (y mod 4 * 64 + z) # tl) (decodeGroups rest)"
| "decodeGroups [w, x, y] = Some [char_of (w * 4 + x div 16), char_of (x mod 16 * 16 + y div 4)]"
| "decodeGroups [w, x] = Some [char_of (w * 4 + x div 16)]"
| "decodeGroups [w] = None"
| "decodeGroups [] = Some []"

definition base64_Decode :: "string \<Rightarrow> string option" where
  "base64_Decode s = (let cs = map unsextet (filter (\<lambda>c. byte c \<noteq> 10 \<and> byte c \<noteq> 13) s) in
     if None \<in> set cs then None else decodeGroups (map the cs))"

definition hexDigit :: "nat \<Rightarrow> char" where
  "hexDigit n = ''0123456789abcdef'' ! n"

definition hex_Encode :: "string \<Rightarrow> string" where
  "hex_Encode s = concat (map (\<lambda>c. [hexDigit (byte c div 16), hexDigit (byte c mod 16)]) s)"

subsection \<open>Decoding gives back what was encoded\<close>

lemma length_alphabet: "length alphabet = 64"
  by (simp add: alphabet_def)

lemma distinct_alphabet: "distinct alphabet"
  unfolding alphabet_def by code_simp

lemma unsextet_sextet: "n < 64 \<Longrightarrow> unsextet (sextet n) = Some n"
proof -
  assume n: "n < 64"
  have "filter (\<lambda>i. alphabet ! i = sextet n) [0..<64] = filter (\<lambda>i. i = n) [0..<64]"
    using n distinct_alphabet by (intro filter_cong) (auto simp: sextet_def nth_eq_iff_index_eq length_alphabet)
  also have "\<dots> = [n]"
  proof -
    have "[0..<64] = [0..<n] @ n # [Suc n..<64]" using n by (metis upt_conv_Cons le0 less_imp_le_nat upt_add_eq_append le_add_diff_inverse)
    then show ?thesis by (simp add: filter_empty_conv)
  qed
  finally show ?thesis by (simp add: unsextet_def)
qed

lemma alphabet_bytes: "c \<in> set alphabet \<Longrightarrow> byte c \<noteq> 10 \<and> byte c \<noteq> 13"
  by (auto simp: alphabet_def byte_def)

lemma sextet_kept: "n < 64 \<Longrightarrow> byte (sextet n) \<noteq> 10 \<and> byte (sextet n) \<noteq> 13"
  using alphabet_bytes by (simp add: sextet_def length_alphabet)

lemma byte_less: "byte c < 256"
  by (cases c) (simp add: byte_def)

lemma char_of_byte [simp]: "char_of (byte c) = c"
  by (simp add: byte_def)

text \<open>The sextets of a text, and what the encoder does with them.\<close>

fun sextets :: "string \<Rightarrow> nat list" where
  "sextets (a # b # c # cs) = [byte a div 4, byte a mod 4 * 16 + byte b div 16, byte b mod 16 * 4 + byte c div 64,
     byte c mod 64] @ sextets cs"
| "sextets [a, b] = [byte a div 4, byte a mod 4 * 16 + byte b div 16, byte b mod 16 * 4]"
| "sextets [a] = [byte a div 4, byte a mod 4 * 16]"
| "sextets [] = []"

lemma Encode_sextets: "base64_Encode s = map sextet (sextets s)"
  by (induction s rule: sextets.induct) auto

lemma sextets_less: "n \<in> set (sextets s) \<Longrightarrow> n < 64"
proof (induction s rule: sextets.induct)
  case (1 a b c cs)
  then show ?case using byte_less [of a] byte_less [of b] byte_less [of c] by (auto simp: less_mult_imp_div_less)
next
  case (2 a b)
  then show ?case using byte_less [of a] byte_less [of b] by (auto simp: less_mult_imp_div_less)
next
  case (3 a)
  then show ?case using byte_less [of a] by (auto simp: less_mult_imp_div_less)
qed simp

lemma byte_parts: "byte c div 16 div 16 = 0" "byte c div 16 mod 16 = byte c div 16"
  "byte c div 64 div 4 = 0" "byte c div 64 mod 4 = byte c div 64"
  using byte_less [of c] by (simp_all add: less_mult_imp_div_less)

lemma decode_sextets: "decodeGroups (sextets s) = Some s"
  by (induction s rule: sextets.induct) (simp_all add: byte_parts)

lemma base64_roundtrip: "base64_Decode (base64_Encode s) = Some s"
proof -
  have keep: "filter (\<lambda>c. byte c \<noteq> 10 \<and> byte c \<noteq> 13) (base64_Encode s) = base64_Encode s"
    by (rule filter_True) (use sextet_kept sextets_less in \<open>auto simp: Encode_sextets\<close>)
  have "map unsextet (base64_Encode s) = map Some (sextets s)"
    by (simp add: Encode_sextets sextets_less unsextet_sextet)
  then show ?thesis by (simp add: base64_Decode_def keep decode_sextets comp_def)
qed

end
