(* ===== verification/Api_Orders.thy ===== *)
theory Api_Orders
  imports Trading_World Base64
begin

section \<open>The order RPCs\<close>

text \<open>
  \<open>internal/api/orders.go\<close>: the handlers of \<open>control.v1.OrderService\<close> over the order service and the query
  store, the page tokens, the conversions to and from the protobuf enums, and what clients get to see of
  an error. Protobuf enums are open, so they are numbers with named constants. The JSON codec of the two small
  structs, SHA-256 and the decimal parser and printer are parameters of the server; base64 is modelled.
\<close>

subsection \<open>Enums\<close>

type_synonym proto_enum = int

definition SIDE_BUY :: proto_enum where "SIDE_BUY = 1"
definition SIDE_SELL :: proto_enum where "SIDE_SELL = 2"
definition ORDER_TYPE_LIMIT :: proto_enum where "ORDER_TYPE_LIMIT = 1"
definition ORDER_TYPE_MARKET :: proto_enum where "ORDER_TYPE_MARKET = 2"

text \<open>The zero value of every enum, and the numbers of the statuses.\<close>

definition UNSPECIFIED :: proto_enum where "UNSPECIFIED = 0"

definition ORDER_STATUS_PENDING :: proto_enum where "ORDER_STATUS_PENDING = 1"
definition ORDER_STATUS_OPEN :: proto_enum where "ORDER_STATUS_OPEN = 2"
definition ORDER_STATUS_PARTIALLY_FILLED :: proto_enum where "ORDER_STATUS_PARTIALLY_FILLED = 3"
definition ORDER_STATUS_FILLED :: proto_enum where "ORDER_STATUS_FILLED = 4"
definition ORDER_STATUS_CANCELED :: proto_enum where "ORDER_STATUS_CANCELED = 5"
definition ORDER_STATUS_REJECTED :: proto_enum where "ORDER_STATUS_REJECTED = 6"
definition ORDER_STATUS_EXPIRED :: proto_enum where "ORDER_STATUS_EXPIRED = 7"

lemmas proto_status_defs = UNSPECIFIED_def ORDER_STATUS_PENDING_def ORDER_STATUS_OPEN_def ORDER_STATUS_PARTIALLY_FILLED_def
  ORDER_STATUS_FILLED_def ORDER_STATUS_CANCELED_def ORDER_STATUS_REJECTED_def ORDER_STATUS_EXPIRED_def

definition fromProtoSide :: "proto_enum \<Rightarrow> Side" where
  "fromProtoSide side = (if side = SIDE_BUY then Buy else if side = SIDE_SELL then Sell else [])"

definition toProtoSide :: "Side \<Rightarrow> proto_enum" where
  "toProtoSide side = (if side = Buy then SIDE_BUY else if side = Sell then SIDE_SELL else UNSPECIFIED)"

definition fromProtoOrderType :: "proto_enum \<Rightarrow> OrderType" where
  "fromProtoOrderType kind = (if kind = ORDER_TYPE_LIMIT then Limit else if kind = ORDER_TYPE_MARKET then Market else [])"

definition toProtoOrderType :: "OrderType \<Rightarrow> proto_enum" where
  "toProtoOrderType kind = (if kind = Limit then ORDER_TYPE_LIMIT else if kind = Market then ORDER_TYPE_MARKET else UNSPECIFIED)"

definition fromProtoOrderStatus :: "proto_enum \<Rightarrow> Status" where
  "fromProtoOrderStatus st =
    (if st = ORDER_STATUS_PENDING then StatusPending else if st = ORDER_STATUS_OPEN then StatusOpen
     else if st = ORDER_STATUS_PARTIALLY_FILLED then StatusPartiallyFilled else if st = ORDER_STATUS_FILLED then StatusFilled
     else if st = ORDER_STATUS_CANCELED then StatusCanceled else if st = ORDER_STATUS_REJECTED then StatusRejected
     else if st = ORDER_STATUS_EXPIRED then StatusExpired else [])"

definition toProtoOrderStatus :: "Status \<Rightarrow> proto_enum" where
  "toProtoOrderStatus st =
    (if st = StatusPending then ORDER_STATUS_PENDING else if st = StatusOpen then ORDER_STATUS_OPEN
     else if st = StatusPartiallyFilled then ORDER_STATUS_PARTIALLY_FILLED else if st = StatusFilled then ORDER_STATUS_FILLED
     else if st = StatusCanceled then ORDER_STATUS_CANCELED else if st = StatusRejected then ORDER_STATUS_REJECTED
     else if st = StatusExpired then ORDER_STATUS_EXPIRED else UNSPECIFIED)"

subsection \<open>Messages\<close>

record PlaceOrderRequest =
  po_Venue :: string
  po_Base :: string
  po_Quote :: string
  po_Side :: proto_enum
  po_Type :: proto_enum
  po_Qty :: string
  po_Price :: string
  po_ClientOrderId :: string

record PlaceOrderResponse =
  ps_ClientOrderId :: string
  ps_Status :: proto_enum
  ps_SubmitUnsettled :: bool

record ListOrdersRequest =
  lr_Venue :: string
  lr_Statuses :: "proto_enum list"
  lr_BotId :: string
  lr_Limit :: int
  lr_PageToken :: string

record ProtoOrder =
  px_ClientOrderId :: string
  px_VenueOrderId :: string
  px_Venue :: string
  px_Base :: string
  px_Quote :: string
  px_Side :: proto_enum
  px_Type :: proto_enum
  px_Price :: string
  px_Qty :: string
  px_FilledQty :: string
  px_AvgFillPrice :: string
  px_Status :: proto_enum
  px_BotId :: string
  px_CreatedAt :: Time
  px_UpdatedAt :: Time

record ListOrdersResponse =
  lp_Orders :: "ProtoOrder list"
  lp_NextPageToken :: string

record PageToken =
  pt_V :: int
  pt_CreatedAt :: Time
  pt_ClientOrderID :: string
  pt_FilterDigest :: string

text \<open>A handler fails with a code and a public error, or panics.\<close>

datatype Code = CodeCanceled | CodeInvalidArgument | CodeDeadlineExceeded | CodeNotFound | CodeAlreadyExists
  | CodePermissionDenied | CodeFailedPrecondition | CodeInternal | CodeUnavailable

datatype RpcErr = ConnectError Code Err | Panicked

record 'w OrderServer =
  os_service :: "'w OrderSvc"
  os_ListOrders :: "Query \<Rightarrow> ('w, OrderRecord list) op"
  os_NewFromString :: "string \<Rightarrow> Decimal option"
  os_String :: "Decimal \<Rightarrow> string"
  os_sha256 :: "string \<Rightarrow> string"
  os_MarshalToken :: "PageToken \<Rightarrow> Err + string"
  os_DecodeToken :: "string \<Rightarrow> (PageToken \<times> string) option" \<comment> \<open>the token and what is left of the body\<close>
  os_AtEOF :: "string \<Rightarrow> bool" \<comment> \<open>the next \<open>Decode\<close> returns \<open>io.EOF\<close>\<close>
  os_MarshalFilter :: "string \<Rightarrow> string list \<Rightarrow> string \<Rightarrow> string"

subsection \<open>Errors\<close>

definition mapOrderError :: "Err \<Rightarrow> RpcErr" where
  "mapOrderError err =
    (if errors_Is err ContextCanceled then ConnectError CodeCanceled (ESentinel ContextCanceled)
     else if errors_Is err ContextDeadlineExceeded then ConnectError CodeDeadlineExceeded (ESentinel ContextDeadlineExceeded)
     else if errors_Is err ErrInvalidArgument then ConnectError CodeInvalidArgument err
     else if errors_Is err ErrNotFound then ConnectError CodeNotFound (ESentinel ErrNotFound)
     else if errors_Is err ErrTerminal \<or> errors_Is err ErrVenueNotConfigured
       then ConnectError CodeFailedPrecondition (EText ''failed precondition'')
     else if errors_Is err ErrIdentityMismatch
       then ConnectError CodeAlreadyExists (EText ''order already exists with different identity'')
     else if errors_Is err ErrAuth then ConnectError CodePermissionDenied (EText ''permission denied'')
     else if errors_Is err ErrVenueUnavailable then ConnectError CodeUnavailable (EText ''venue unavailable'')
     else ConnectError CodeInternal (EText ''internal error''))"

subsection \<open>Placing and cancelling\<close>

definition parsePlace :: "'w OrderServer \<Rightarrow> PlaceOrderRequest \<Rightarrow> Err + Request" where
  "parsePlace s msg =
    (case os_NewFromString s (po_Qty msg) of
       None \<Rightarrow> Inl (sentinel_with ErrInvalidArgument ''qty'')
     | Some qty \<Rightarrow>
        (case (if po_Price msg = [] then Some 0 else os_NewFromString s (po_Price msg)) of
           None \<Rightarrow> Inl (sentinel_with ErrInvalidArgument ''price'')
         | Some price \<Rightarrow> Inr \<lparr>rq_ClientOrderID = po_ClientOrderId msg, rq_BotID = ''manual'',
             rq_Instrument = \<lparr>i_Venue = NewVenueID (po_Venue msg), i_Type = TypeSpot, i_Base = NewCurrency (po_Base msg),
               i_Quote = NewCurrency (po_Quote msg), i_VenueSymbol = [], i_Rules = noRules\<rparr>,
             rq_Side = fromProtoSide (po_Side msg), rq_Type = fromProtoOrderType (po_Type msg), rq_Price = price, rq_Qty = qty\<rparr>))"

definition PlaceOrder :: "'w OrderServer \<Rightarrow> ('w \<Rightarrow> bool) \<Rightarrow> PlaceOrderRequest \<Rightarrow> 'w \<Rightarrow> (RpcErr + PlaceOrderResponse) \<times> 'w" where
  "PlaceOrder s ctx msg w =
    (case parsePlace s msg of
       Inl err \<Rightarrow> (Inl (mapOrderError err), w)
     | Inr request \<Rightarrow>
        (case Place (os_service s) ctx request w of ((result, err), w1) \<Rightarrow>
         let unsettled = (case err of None \<Rightarrow> False | Some e \<Rightarrow> errors_Is e ErrSubmitUnsettled) in
         case err of
           Some e \<Rightarrow> if \<not> unsettled then (Inl (mapOrderError e), w1)
             else (Inr \<lparr>ps_ClientOrderId = pr_ClientOrderID result, ps_Status = toProtoOrderStatus (pr_Status result),
               ps_SubmitUnsettled = unsettled\<rparr>, w1)
         | None \<Rightarrow> (Inr \<lparr>ps_ClientOrderId = pr_ClientOrderID result, ps_Status = toProtoOrderStatus (pr_Status result),
             ps_SubmitUnsettled = unsettled\<rparr>, w1)))"

definition CancelOrder :: "'w OrderServer \<Rightarrow> string \<Rightarrow> 'w \<Rightarrow> (RpcErr + proto_enum) \<times> 'w" where
  "CancelOrder s clientOrderId w =
    (case Cancel (os_service s) clientOrderId w of
       (Inl err, w1) \<Rightarrow> (Inl (mapOrderError err), w1)
     | (Inr st, w1) \<Rightarrow> (Inr (toProtoOrderStatus st), w1))"

subsection \<open>Listing\<close>

definition defaultOrderLimit :: int where "defaultOrderLimit = 50"

definition encodePageToken :: "'w OrderServer \<Rightarrow> PageToken \<Rightarrow> Err + string" where
  "encodePageToken s token = bindR (os_MarshalToken s token) (\<lambda>body. Inr (base64_Encode body))"

definition decodePageToken :: "'w OrderServer \<Rightarrow> string \<Rightarrow> string \<Rightarrow> Err + PageToken" where
  "decodePageToken s encoded digest =
    (let bad = Inl (sentinel_with ErrInvalidArgument ''page token'') in
     case base64_Decode encoded of
       None \<Rightarrow> bad
     | Some body \<Rightarrow>
        (case os_DecodeToken s body of
           None \<Rightarrow> bad
         | Some (token, rest) \<Rightarrow>
            if \<not> os_AtEOF s rest \<or> pt_V token \<noteq> 1 \<or> IsZero (pt_CreatedAt token) \<or> pt_ClientOrderID token = []
              \<or> pt_FilterDigest token \<noteq> digest then bad
            else Inr token))"

text \<open>\<open>slices.Compact\<close> drops equal neighbours.\<close>

definition orderFilter :: "'w OrderServer \<Rightarrow> ListOrdersRequest \<Rightarrow> int \<Rightarrow> Query \<times> string" where
  "orderFilter s msg limit =
    (let statuses = remdups_adj (sort (map fromProtoOrderStatus (lr_Statuses msg)));
         venue = TrimSpace (lr_Venue msg); bot_id = TrimSpace (lr_BotId msg) in
     (\<lparr>q_Venue = (if venue \<noteq> [] then Some venue else None), q_BotID = (if bot_id \<noteq> [] then Some bot_id else None),
       q_CursorID = None, q_Statuses = statuses, q_Limit = limit, q_CursorCreatedAt = None\<rparr>,
      hex_Encode (os_sha256 s (os_MarshalFilter s venue statuses bot_id))))"

definition toProtoOrder :: "'w OrderServer \<Rightarrow> OrderRecord \<Rightarrow> ProtoOrder" where
  "toProtoOrder s row = \<lparr>px_ClientOrderId = or_ClientOrderID row, px_VenueOrderId = or_VenueOrderID row,
     px_Venue = i_Venue (or_Instrument row), px_Base = i_Base (or_Instrument row), px_Quote = i_Quote (or_Instrument row),
     px_Side = toProtoSide (or_Side row), px_Type = toProtoOrderType (or_Type row), px_Price = os_String s (or_Price row),
     px_Qty = os_String s (or_Qty row), px_FilledQty = os_String s (or_FilledQty row), px_AvgFillPrice = os_String s (or_AvgFillPrice row),
     px_Status = toProtoOrderStatus (or_Status row), px_BotId = or_BotID row, px_CreatedAt = or_CreatedAt row, px_UpdatedAt = or_UpdatedAt row\<rparr>"

text \<open>
  What the handler makes of the rows: \<open>rows[:limit]\<close> panics when the limit is negative.
\<close>

definition pageOf :: "'w OrderServer \<Rightarrow> int \<Rightarrow> string \<Rightarrow> OrderRecord list \<Rightarrow> RpcErr + ListOrdersResponse" where
  "pageOf s limit digest rows =
    (if int (length rows) > limit then
       (if limit < 0 then Inl Panicked
        else (let page = take (nat limit) rows in
          if page = [] then Inl Panicked
          else (case encodePageToken s \<lparr>pt_V = 1, pt_CreatedAt = or_CreatedAt (last page),
                pt_ClientOrderID = or_ClientOrderID (last page), pt_FilterDigest = digest\<rparr> of
            Inl err \<Rightarrow> Inl (mapOrderError err)
          | Inr tok \<Rightarrow> Inr \<lparr>lp_Orders = map (toProtoOrder s) page, lp_NextPageToken = tok\<rparr>)))
     else Inr \<lparr>lp_Orders = map (toProtoOrder s) rows, lp_NextPageToken = []\<rparr>)"

definition ListOrders_handler :: "'w OrderServer \<Rightarrow> ListOrdersRequest \<Rightarrow> 'w \<Rightarrow> (RpcErr + ListOrdersResponse) \<times> 'w" where
  "ListOrders_handler s msg w =
    (let limit = (if lr_Limit msg = 0 then defaultOrderLimit else lr_Limit msg) in
     case orderFilter s msg limit of (query, digest) \<Rightarrow>
     case (if lr_PageToken msg = [] then Inr query
           else (case decodePageToken s (lr_PageToken msg) digest of
              Inl err \<Rightarrow> Inl err
            | Inr cursor \<Rightarrow> Inr (query\<lparr>q_CursorCreatedAt := Some (pt_CreatedAt cursor), q_CursorID := Some (pt_ClientOrderID cursor)\<rparr>))) of
       Inl err \<Rightarrow> (Inl (mapOrderError err), w)
     | Inr query' \<Rightarrow>
        (case os_ListOrders s query' w of
           (Inl err, w1) \<Rightarrow> (Inl (mapOrderError err), w1)
         | (Inr rows, w1) \<Rightarrow> (pageOf s limit digest rows, w1)))"

end
