(* ===== verification/Trading_Safety.thy ===== *)
theory Trading_Safety
  imports Trading_World
begin

section \<open>Properties of the services\<close>

text \<open>
  What the order service and the reconciler guarantee on the Postgres store, whatever the venues answer,
  whichever statements fail and whatever else the process does to the database between their calls.
  The properties are the interpretations of the services' lemmas, written out.
\<close>

subsection \<open>A concrete process\<close>

definition demo_placer :: "nat OrderPlacer" where
  "demo_placer = \<lparr>
     op_PlaceOrder = (\<lambda>req n. (Inr \<lparr>ak_Ref = \<lparr>rf_Instrument = rq_Instrument req, rf_ClientOrderID = rq_ClientOrderID req,
        rf_VenueOrderID = ''V1''\<rparr>, ak_Status = StatusOpen, ak_AcceptedAt = Time 2000\<rparr>, Suc n)),
     op_CancelOrder = (\<lambda>ref n. (Inr (), n)),
     op_OpenOrders = (\<lambda>n. (Inr [\<lparr>sn_Ref = ev_Ref (demo_event StatusFilled 1), sn_Status = StatusPartiallyFilled, sn_Price = 50000,
        sn_Qty = 1, sn_FilledQty = 1 / 2, sn_AvgFillPrice = 50000, sn_UpdatedAt = Time 3000\<rparr>], n)),
     op_GetOrder = (\<lambda>ref n. (Inl (ESentinel ErrNotFound), n))\<rparr>"

definition once :: "('w \<Rightarrow> bool) \<Rightarrow> Duration \<Rightarrow> ('w, 'a) attempt \<Rightarrow> ('w, 'a) op" where
  "once ctx budget f w = (case f w of
     (Inr a, w') \<Rightarrow> (Inr a, w') | (Inl (Permanent e), w') \<Rightarrow> (Inl e, w') | (Inl (Transient e), w') \<Rightarrow> (Inl e, w'))"

definition demo_app :: "nat App" where
  "demo_app = \<lparr>ap_Div = (/), ap_sha256 = (\<lambda>x. x),
     ap_venues = [(''bybit'', demo_placer, Some (\<lambda>_. Inr [demo_event StatusFilled 1]))],
     ap_Retry = once, ap_submitBudget = 10 * second, ap_interval = 30 * second,
     ap_ended = (\<lambda>_. True), ap_wake = (\<lambda>_. ContextDone)\<rparr>"

definition demo_world :: "DB \<Rightarrow> nat World" where
  "demo_world db = \<lparr>w_db = db, w_venue = 0, w_bus = NewInProc, w_step = 0, w_others = (\<lambda>_ db. db),
     w_time = (\<lambda>_. Time 1000), w_ulid = (\<lambda>_. ''01JG5''), w_sent = [], w_metrics = []\<rparr>"

definition empty_db :: DB where "empty_db = new_db (\<lambda>_. None) (\<lambda>_. Time 1000)"

lemma demo_world_inv: "store_reach db \<Longrightarrow> db_faults db = (\<lambda>_. None) \<Longrightarrow> world_inv (demo_world db)"
  by (simp add: world_inv_def demo_world_def driver_faults_def)

lemma demo_worlds: "world_inv (demo_world empty_db)" "world_inv (demo_world (demo_db Buy (\<lambda>_. None)))"
proof -
  show "world_inv (demo_world empty_db)"
    unfolding empty_db_def by (rule demo_world_inv [OF store_reach.empty]) (simp add: new_db_def)
  show "world_inv (demo_world (demo_db Buy (\<lambda>_. None)))"
    by (rule demo_world_inv [OF demo_reach(1)]) (simp add: demo_db_def)
qed

lemma once_retries: "retries (orderService demo_app)"
  unfolding retries_def
proof (intro allI)
  fix ctx :: "nat World \<Rightarrow> bool" and budget and f :: "(nat World, Ack) attempt" and w
  obtain r w' where f: "f w = (r, w')" by (rule prod.exhaust)
  show "attempts f w (fst (sv_Retry (orderService demo_app) ctx budget f w)) (snd (sv_Retry (orderService demo_app) ctx budget f w))"
    using f by (auto simp: orderService_def demo_app_def once_def split: sum.split RetryErr.split
        intro: attempts.succeeded attempts.permanent attempts.given_up)
qed

lemmas service_defs = Place_def preparePlace_def lookupExisting_def withDefaults_def demo_request_def demo_world_def empty_db_def
  orderService_def demo_app_def byID_def venueOf_def pgCommands_def pgEvents_def fifoStore_def onStore_def onVenue_def advance_def
  submitAttempt_def wire_def demo_placer_def once_def applyEv_def ackEvent_def observeResult_def observe_if_def GetOrder_def
  orderRecord_def placeResult_def IsZero_def SourceAck_def acceptedUnsettled_def

lemma demo_place_sends: "length (w_sent (snd (Place (orderService demo_app) (\<lambda>_. False) (demo_request Buy) (demo_world empty_db)))) = 1"
  by (simp add: service_defs Let_def new_db_def no_tables_def run_defs eval_defs)

lemma demo_pending: "\<exists>row. find_order ''01JG3'' (db_durable (demo_db Buy (\<lambda>_. None))) = Some row \<and> o_Side row = Buy"
  by (simp add: demo_defs run_defs eval_defs Let_def)

lemma demo_pending_venue: "\<exists>row. find_order ''01JG3'' (db_durable (demo_db Buy (\<lambda>_. None))) = Some row \<and> o_Venue row = ''bybit''"
  by (simp add: demo_defs run_defs eval_defs Let_def)

lemma demo_filled: "\<exists>row. find_order ''01JG3'' (db_durable (demo_run Buy)) = Some row \<and> o_Status row = StatusFilled"
  by (simp add: demo_run_def demo_defs run_defs eval_defs Let_def lot_checks_def)

lemma demo_defaults: "withDefaults (orderService demo_app) (demo_request side) w = demo_request side"
  by (simp add: withDefaults_def demo_request_def)

subsection \<open>Placing\<close>

text \<open>
  C3: the order is durable before any venue hears of it. Every call that \<open>Place\<close> makes to a venue is a
  submit of the one request, with the same client order ID on every retry, to the venue the request
  names; and when it was made the database durably held the order's row with the terms of the request.
\<close>

theorem Place_persists_before_submit:
  assumes "world_inv w" "retries (orderService app)" "Place (orderService app) ctx req0 w = (out, w')"
    and "req = withDefaults (orderService app) req0 w"
  shows "world_inv w' \<and> (\<exists>more. w_sent w' = w_sent w @ more \<and>
    list_all (\<lambda>(c, R). c = Submit (i_Venue (rq_Instrument req)) req
      \<and> (\<exists>row. R (rq_ClientOrderID req) = Some row \<and> row_of_request row req)) more)"
  using pg_orders.Place_run [OF assms(1-3)] assms(4) by (simp add: sends_def submits_def)

lemma Place_persists_before_submit_witness:
  "length (w_sent (snd (Place (orderService demo_app) (\<lambda>_. False) (demo_request Buy) (demo_world empty_db)))) = 1
   \<and> (\<exists>more. w_sent (snd (Place (orderService demo_app) (\<lambda>_. False) (demo_request Buy) (demo_world empty_db)))
     = w_sent (demo_world empty_db) @ more \<and> list_all (\<lambda>(c, R). c = Submit ''bybit'' (demo_request Buy)
       \<and> (\<exists>row. R ''01JG3'' = Some row \<and> row_of_request row (demo_request Buy))) more)"
proof -
  from Place_persists_before_submit [OF demo_worlds(1) once_retries prod.collapse [symmetric] demo_defaults [symmetric], of "\<lambda>_. False"]
  show ?thesis using demo_place_sends by (simp add: demo_request_def)
qed

text \<open>
  C18: what a placement returns. Either it was refused before any call went out, with an error and no
  result, or the order's row is stored with the terms of the request and the result names it: without an
  error the status is the one stored; an error comes only after a submit and is either the unsettled
  one, with the order pending or as stored, or a permanent one, reported as rejected.
\<close>

theorem Place_outcomes:
  assumes "world_inv w" "retries (orderService app)" "Place (orderService app) ctx req0 w = ((res, err), w')"
    and "req = withDefaults (orderService app) req0 w"
  shows "res = noResult \<and> err \<noteq> None \<and> w_sent w' = w_sent w \<or>
    (\<exists>row. world_rows w' (rq_ClientOrderID req) = Some row \<and> row_of_request row req
      \<and> pr_ClientOrderID res = rq_ClientOrderID req
      \<and> (case err of None \<Rightarrow> pr_Status res = o_Status row
         | Some e \<Rightarrow> length (w_sent w) < length (w_sent w')
             \<and> (errors_Is e ErrSubmitUnsettled \<and> pr_Status res \<in> {StatusPending, o_Status row}
                \<or> permanentErr e \<and> pr_Status res = StatusRejected)))"
  using pg_orders.Place_run [OF assms(1-3)] assms(4) by (cases err) (auto simp: place_outcome_def)

lemma Place_outcomes_witness:
  "\<exists>row. world_rows (snd (Place (orderService demo_app) (\<lambda>_. False) (demo_request Buy) (demo_world empty_db))) ''01JG3'' = Some row
     \<and> row_of_request row (demo_request Buy)"
proof -
  let ?p = "Place (orderService demo_app) (\<lambda>_. False) (demo_request Buy) (demo_world empty_db)"
  obtain res err w' where p: "?p = ((res, err), w')" by (metis surj_pair)
  have "w_sent w' \<noteq> w_sent (demo_world empty_db)" using demo_place_sends p by (auto simp: demo_world_def)
  with Place_outcomes [OF demo_worlds(1) once_retries p demo_defaults [symmetric]] p show ?thesis
    by (auto simp: demo_request_def)
qed

text \<open>
  C22: a supplied ID is an identity. A request whose client order ID names a stored order with other
  terms is refused: no call goes out, no result is returned, and the stored order keeps its terms.
\<close>

theorem Place_refuses_reused_ID:
  assumes "world_inv w" "retries (orderService app)" "Place (orderService app) ctx req0 w = ((res, err), w')"
    and "req = withDefaults (orderService app) req0 w"
    and "world_rows w (rq_ClientOrderID req) = Some row" "\<not> row_of_request row req"
  shows "res = noResult \<and> err \<noteq> None \<and> w_sent w' = w_sent w
    \<and> (\<exists>row'. world_rows w' (rq_ClientOrderID req) = Some row' \<and> row_terms row' = row_terms row)"
proof -
  have "\<exists>row'. world_rows w' (rq_ClientOrderID req) = Some row' \<and> row_advances row row'"
    using pg_orders.Place_run [OF assms(1-3)] rows_advanceD [of "world_rows w" "world_rows w'", OF _ assms(5)] by blast
  with pg_orders.Place_mismatch [OF assms(1-3)] assms(4-6) show ?thesis by (auto simp: row_advances_def)
qed

lemma Place_refuses_reused_ID_witness:
  "w_sent (snd (Place (orderService demo_app) (\<lambda>_. False) (demo_request Sell) (demo_world (demo_db Buy (\<lambda>_. None))))) = []"
proof -
  let ?w = "demo_world (demo_db Buy (\<lambda>_. None))"
  obtain res err w' where p: "Place (orderService demo_app) (\<lambda>_. False) (demo_request Sell) ?w = ((res, err), w')"
    by (metis surj_pair)
  obtain row where row: "world_rows ?w ''01JG3'' = Some row" "o_Side row = Buy"
    using demo_pending by (auto simp: world_rows_def demo_world_def)
  have "\<not> row_of_request row (demo_request Sell)" using row(2) by (simp add: row_of_request_def demo_request_def)
  with Place_refuses_reused_ID [OF demo_worlds(2) once_retries p demo_defaults [symmetric]] row(1) p show ?thesis
    by (auto simp: demo_request_def demo_world_def)
qed

text \<open>
  C20: an order is submitted at most until the venue has it. When the stored order carries a venue order
  ID, or its status has left pending, placing it again makes no call to any venue.
\<close>

theorem Place_never_resubmits:
  assumes "world_inv w" "Place (orderService app) ctx req0 w = (out, w')"
    and "world_rows w (rq_ClientOrderID (withDefaults (orderService app) req0 w)) = Some row"
    and "o_Status row \<noteq> StatusPending \<or> (\<exists>v. o_VenueOrderID row = Some v \<and> v \<noteq> [])"
  shows "w_sent w' = w_sent w"
  using pg_orders.Place_advanced [OF assms] .

lemma Place_never_resubmits_witness:
  "w_sent (snd (Place (orderService demo_app) (\<lambda>_. False) (demo_request Buy) (demo_world (demo_run Buy)))) = []"
proof -
  have i: "world_inv (demo_world (demo_run Buy))"
    using demo_world_inv [OF demo_reach(2)] keepsD [OF same_faults_ApplyEvent prod.collapse [symmetric]]
    by (auto simp: demo_run_def same_faults_def demo_db_def)
  obtain row where "find_order ''01JG3'' (db_durable (demo_run Buy)) = Some row" "o_Status row = StatusFilled"
    using demo_filled by blast
  then have "world_rows (demo_world (demo_run Buy)) ''01JG3'' = Some row" "o_Status row \<noteq> StatusPending"
    by (simp_all add: world_rows_def demo_world_def)
  with Place_never_resubmits [OF i prod.collapse [symmetric], of demo_app "demo_request Buy" row "\<lambda>_. False"]
  show ?thesis by (simp add: demo_defaults) (simp add: demo_request_def demo_world_def)
qed

subsection \<open>Cancelling\<close>

text \<open>
  C19: the intent to cancel is durable before the venue is asked. \<open>Cancel\<close> makes at most one call: it
  asks the venue of the order to cancel that order, and when it did the row durably carried the time of
  the request. A success has made that call for an order that was not terminal; for an order that is
  already terminal nothing goes out and an error is returned.
\<close>

theorem Cancel_marks_before_asking:
  assumes "world_inv w" "Cancel (orderService app) cid w = (r, w')"
  shows "(\<exists>more. w_sent w' = w_sent w @ more \<and> length more \<le> 1 \<and> list_all (\<lambda>(c, R).
      \<exists>row ref. R cid = Some row \<and> o_CancelRequestedAt row \<noteq> None \<and> c = AskCancel (o_Venue row) ref \<and> rf_ClientOrderID ref = cid) more)
    \<and> (\<forall>st. r = Inr st \<longrightarrow> w_sent w' \<noteq> w_sent w \<and> \<not> Terminal st)
    \<and> (\<forall>row. world_rows w cid = Some row \<and> Terminal (o_Status row) \<longrightarrow> (\<exists>e. r = Inl e) \<and> w_sent w' = w_sent w)"
  using pg_orders.Cancel_run [OF assms] by (auto simp: sends_def cancels_def split: sum.splits)

lemma Cancel_marks_before_asking_witness:
  "\<exists>more. w_sent (snd (Cancel (orderService demo_app) ''01JG3'' (demo_world (demo_db Buy (\<lambda>_. None))))) =
     w_sent (demo_world (demo_db Buy (\<lambda>_. None))) @ more \<and> length more \<le> 1"
  using Cancel_marks_before_asking [OF demo_worlds(2) prod.collapse [symmetric], of demo_app "''01JG3''"] by blast

subsection \<open>Streams\<close>

text \<open>
  What a stream delivers reaches the orders. When a turn of the stream loop goes on, every event it
  delivered for an order that was stored before the turn is in that order's row: the row's rank is at
  least the event's and its filled quantity at least the event's cumulative quantity.
\<close>

theorem stream_events_absorbed:
  assumes "world_inv w" "consumeTurn (orderService app) (\<lambda>_. False) (streamOf deliver) w = (None, w')"
    and "deliver (w_step w) = Inr evs" "ev \<in> set evs" "world_rows w (rf_ClientOrderID (ev_Ref ev)) = Some row"
  shows "\<exists>row'. world_rows w' (rf_ClientOrderID (ev_Ref ev)) = Some row'
    \<and> rank_of (ev_Status ev) \<le> rank_of (o_Status row')
    \<and> (ev_Status ev \<noteq> StatusPending \<longrightarrow> ev_FilledQty ev \<le> o_FilledQty row')"
proof -
  have f: "forS (applyEv (orderService app) (\<lambda>_. False) SourceStream) evs (advance w) = (Inr (), w')"
    using assms(2,3) by (auto simp: consumeTurn_def streamOf_def tick_def split: prod.splits sum.splits if_splits)
  from advance_goes_on [OF assms(1)] rows_advanceD [of "world_rows w" "world_rows (advance w)", OF _ assms(5)] obtain row1 where
    "world_inv (advance w)" "world_rows (advance w) (rf_ClientOrderID (ev_Ref ev)) = Some row1" by blast
  from pg_orders.apply_all_absorbs [OF this(1) f assms(4) this(2)] show ?thesis by (simp add: absorbed_def)
qed

lemma demo_turn: "fst (consumeTurn (orderService demo_app) (\<lambda>_. False) (streamOf (\<lambda>_. Inr [demo_event StatusFilled 1]))
    (demo_world (demo_db Buy (\<lambda>_. None)))) = None"
  by (simp add: consumeTurn_def streamOf_def tick_def service_defs Let_def demo_defs run_defs eval_defs lot_checks_def)

lemma stream_events_absorbed_witness:
  "\<exists>row'. world_rows (snd (consumeTurn (orderService demo_app) (\<lambda>_. False) (streamOf (\<lambda>_. Inr [demo_event StatusFilled 1]))
      (demo_world (demo_db Buy (\<lambda>_. None))))) ''01JG3'' = Some row' \<and> rank_of StatusFilled \<le> rank_of (o_Status row') \<and> 1 \<le> o_FilledQty row'"
proof -
  let ?w = "demo_world (demo_db Buy (\<lambda>_. None))" and ?st = "streamOf (\<lambda>_. Inr [demo_event StatusFilled 1])"
  have ev: "rf_ClientOrderID (ev_Ref (demo_event StatusFilled 1)) = ''01JG3''" "ev_Status (demo_event StatusFilled 1) = StatusFilled"
    "ev_FilledQty (demo_event StatusFilled 1) = 1" by (simp_all add: demo_event_def)
  obtain row where row: "world_rows ?w ''01JG3'' = Some row" using demo_pending by (auto simp: world_rows_def demo_world_def)
  obtain w' where w': "consumeTurn (orderService demo_app) (\<lambda>_. False) ?st ?w = (None, w')" using demo_turn by (metis prod.collapse)
  from stream_events_absorbed [OF demo_worlds(2) w' refl, of "demo_event StatusFilled 1" row] row show ?thesis
    by (simp add: ev w')
qed

text \<open>
  Only a failing store ends the consumption of a stream. However many turns it takes, whatever the
  stream delivers and whenever it breaks down, the loop makes no call to a venue, and an error it
  returns is the store's own, not that of an unknown order, with the context still alive.
\<close>

theorem stream_fails_only_with_store:
  assumes "consumeStream (orderService app) ctx st n w = (Some (Inl e), w')"
    and "sv_venues (orderService app) venue = Some v" "ve_Streamer v = Some st"
  shows "w_sent w' = w_sent w \<and> \<not> ctx w' \<and> (\<exists>e'. e = wrap ''order store'' e' \<and> \<not> errors_Is e' ErrNotFound)"
  using pg_orders.consumeStream_ok [OF assms] by (auto dest: quietlyD(4))

lemma demo_stream_fails:
  "fst (consumeStream (orderService demo_app) (\<lambda>_. False) (streamOf (\<lambda>_. Inr [demo_event StatusFilled 1])) 1
     (demo_world (demo_db Buy (\<lambda>_. Some (FailBefore (EText ''conn'')))))) =
   Some (Inl (wrap ''order store'' (wrap ''postgres: begin apply event'' (EText ''conn''))))"
  by (simp add: consumeTurn_def streamOf_def tick_def service_defs Let_def demo_defs run_defs eval_defs)

lemma stream_fails_only_with_store_witness:
  "w_sent (snd (consumeStream (orderService demo_app) (\<lambda>_. False) (streamOf (\<lambda>_. Inr [demo_event StatusFilled 1])) 1
     (demo_world (demo_db Buy (\<lambda>_. Some (FailBefore (EText ''conn''))))))) = []"
proof -
  let ?st = "streamOf (\<lambda>_. Inr [demo_event StatusFilled 1]) :: nat World PrivateStreamer"
  have v: "sv_venues (orderService demo_app) ''bybit'' = Some \<lparr>ve_ID = ''bybit'', ve_Placer = wire ''bybit'' demo_placer, ve_Streamer = Some ?st\<rparr>"
    by (simp add: orderService_def demo_app_def byID_def venueOf_def)
  obtain w' where w': "consumeStream (orderService demo_app) (\<lambda>_. False) ?st 1 (demo_world (demo_db Buy (\<lambda>_. Some (FailBefore (EText ''conn'')))))
      = (Some (Inl (wrap ''order store'' (wrap ''postgres: begin apply event'' (EText ''conn'')))), w')"
    using demo_stream_fails by (metis prod.collapse)
  from stream_fails_only_with_store [OF w' v] w' show ?thesis by (simp add: demo_world_def)
qed

subsection \<open>Reconciling\<close>


definition demo_loop :: "nat World venueLoop" where
  "demo_loop = newLoop (''bybit'', wire ''bybit'' demo_placer)"

lemmas reconcile_defs = pass_def demo_loop_def newLoop_def reconcileService_def pgReads_def ListActiveOrders_def
  reconcileLocal_def reconcileOrphans_def venueByClient_def applyAndCount_def recApply_def snapshotEvent_def
  isOrphan_def metric_def SourceReconcile_def

lemma demo_pass: "\<exists>v'. fst (pass (reconcileService demo_app) demo_loop (demo_world (demo_db Buy (\<lambda>_. None)))) = Inr v'"
  by (simp add: reconcile_defs service_defs Let_def demo_defs run_defs eval_defs lot_checks_def)


text \<open>
  A pass asks, and announces only strangers. Whatever the venue answers, a pass over a venue sends
  nothing to it but listings and lookups of orders, and announces on the bus only open orders that
  carry no client order ID or one that no local order had when the pass began, and only those that the
  previous pass had not announced: a stored order is never reported as an orphan.
\<close>

theorem pass_announces_only_strangers:
  assumes "world_inv w" "vl_Placer v = wire (vl_ID v) p" "pass (reconcileService app) v w = (r, w')"
  shows "\<exists>more. w_sent w' = w_sent w @ more \<and> list_all (\<lambda>(c, R). case c of
     AskOpen venue \<Rightarrow> venue = vl_ID v
   | Lookup venue ref \<Rightarrow> venue = vl_ID v
   | Announce e \<Rightarrow> be_Subject e = SubjectReconcileOrphan \<and> (\<exists>x. be_Payload e = OrphanPayload x \<and> op_Venue x = vl_ID v
       \<and> (op_ClientOrderID x = [] \<or> world_rows w (op_ClientOrderID x) = None) \<and> op_VenueOrderID x \<notin> set (vl_lastOrphans v))
   | _ \<Rightarrow> False) more"
proof -
  have "placer_of world_inv world_rows w_sent (vl_ID v) (vl_Placer v)" unfolding assms(2) by (rule wire_placer)
  from actsD(3) [OF pg_reconcile.pass_acts [OF this assms(1,3)] assms(1)] show ?thesis
    by (simp add: sends_def pass_call_def [abs_def])
qed

lemma pass_announces_only_strangers_witness:
  "\<exists>more. w_sent (snd (pass (reconcileService demo_app) demo_loop (demo_world (demo_db Buy (\<lambda>_. None))))) = w_sent (demo_world (demo_db Buy (\<lambda>_. None))) @ more"
  using pass_announces_only_strangers [OF demo_worlds(2) _ prod.collapse [symmetric], of demo_loop demo_placer demo_app]
  by (auto simp: demo_loop_def newLoop_def)



end
