(* ===== verification/Api_Errors.thy ===== *)
theory Api_Errors
  imports Api_Orders Trading_Safety
begin

section \<open>What a client of the order service is told\<close>

text \<open>
  \<open>mapOrderError\<close> of \<open>internal/api/orders.go\<close> replaces every error by one of a fixed set of codes and texts, so
  that nothing of a venue, of the database or of a credential reaches a client. Only an error that wraps the
  package's own \<open>errInvalidArgument\<close> is passed on as it is; the lemmas show that no error from outside the
  package can be one of these, through the whole of \<open>Place\<close> and \<open>Cancel\<close>.
\<close>

subsection \<open>Enumerations\<close>

lemma proto_status_roundtrip: "known_status st \<Longrightarrow> fromProtoOrderStatus (toProtoOrderStatus st) = st"
  by (auto simp: known_status_def fromProtoOrderStatus_def toProtoOrderStatus_def proto_status_defs status_defs)

lemma proto_side_roundtrip: "sd \<in> {Buy, Sell} \<Longrightarrow> fromProtoSide (toProtoSide sd) = sd"
  by (auto simp: fromProtoSide_def toProtoSide_def SIDE_BUY_def SIDE_SELL_def Buy_def Sell_def)

lemma proto_type_roundtrip: "t \<in> {Limit, Market} \<Longrightarrow> fromProtoOrderType (toProtoOrderType t) = t"
  by (auto simp: fromProtoOrderType_def toProtoOrderType_def ORDER_TYPE_LIMIT_def ORDER_TYPE_MARKET_def Limit_def Market_def)

subsection \<open>Errors from outside the package\<close>

text \<open>
  The two sentinels that the handlers themselves give a meaning to, and an operation that keeps the invariant
  and whose errors wrap neither.
\<close>

definition ours :: "Err \<Rightarrow> bool" where
  "ours e \<longleftrightarrow> errors_Is e ErrInvalidArgument \<or> errors_Is e ErrSubmitUnsettled"

lemma ours_simps [simp]: "ours (wrap t e) = ours e" "ours (EText t) = False"
  "ours (ESentinel x) \<longleftrightarrow> x \<in> {ErrInvalidArgument, ErrSubmitUnsettled}" "ours (sentinel_with x t) \<longleftrightarrow> x \<in> {ErrInvalidArgument, ErrSubmitUnsettled}"
  by (auto simp: ours_def)

definition foreign :: "('w \<Rightarrow> bool) \<Rightarrow> ('w, 'a) op \<Rightarrow> bool" where
  "foreign invar m \<longleftrightarrow> (\<forall>w r w'. invar w \<longrightarrow> m w = (r, w') \<longrightarrow> invar w' \<and> (\<forall>e. r = Inl e \<longrightarrow> \<not> ours e))"

lemma foreignD: "foreign invar m \<Longrightarrow> invar w \<Longrightarrow> m w = (Inl e, w') \<Longrightarrow> \<not> ours e"
  by (auto simp: foreign_def)

lemma foreign_invar: "foreign invar m \<Longrightarrow> invar w \<Longrightarrow> m w = (r, w') \<Longrightarrow> invar w'"
  by (auto simp: foreign_def)

lemma foreign_bind: "foreign invar m \<Longrightarrow> (\<And>x. foreign invar (f x)) \<Longrightarrow> foreign invar (bindS m f)"
  unfolding foreign_def [of invar "bindS m f"]
proof (intro allI impI)
  fix w r w'
  assume m: "foreign invar m" and f: "\<And>x. foreign invar (f x)" and w: "invar w" and b: "bindS m f w = (r, w')"
  obtain x w1 where 1: "m w = (x, w1)" by (rule prod.exhaust)
  then have i: "invar w1" using m w by (blast intro: foreign_invar)
  show "invar w' \<and> (\<forall>e. r = Inl e \<longrightarrow> \<not> ours e)"
  proof (cases x)
    case (Inl e)
    then show ?thesis using 1 b i foreignD [OF m w] by (auto simp: bindS_def)
  next
    case (Inr y)
    then have "f y w1 = (r, w')" using 1 b by (simp add: bindS_def)
    with f [of y] i show ?thesis unfolding foreign_def by blast
  qed
qed

lemma foreign_return: "foreign invar (returnS x)"
  by (simp add: foreign_def returnS_def)

lemma foreign_fail: "\<not> ours e \<Longrightarrow> foreign invar (failS e)"
  by (simp add: foreign_def failS_def)

lemmas foreign_intros = foreign_bind foreign_return foreign_fail

text \<open>
  What the handlers rely on of the ports: \<open>errInvalidArgument\<close> is not exported and \<open>ErrSubmitUnsettled\<close> belongs
  to the order service, so no store, venue or encoder returns one of them.
\<close>

locale api_ports =
  fixes invar :: "'w \<Rightarrow> bool" and s :: "'w OrderServer"
  assumes create_foreign: "foreign invar (cs_CreatePending (sv_commands (os_service s)) req)"
    and get_foreign: "foreign invar (cs_GetOrder (sv_commands (os_service s)) cid)"
    and mark_foreign: "foreign invar (cs_MarkCancelRequested (sv_commands (os_service s)) cid t)"
    and place_foreign: "sv_venues (os_service s) vid = Some v \<Longrightarrow> foreign invar (op_PlaceOrder (ve_Placer v) req)"
    and cancel_foreign: "sv_venues (os_service s) vid = Some v \<Longrightarrow> foreign invar (op_CancelOrder (ve_Placer v) ref)"
    and list_foreign: "foreign invar (os_ListOrders s q)"
    and marshal_foreign: "invar w \<Longrightarrow> os_MarshalToken s tok = Inl e \<Longrightarrow> \<not> ours e"

text \<open>The codes and texts that a client can see.\<close>

definition publicErrors :: "(Code \<times> string) list" where
  "publicErrors = [(CodeCanceled, ''context canceled''), (CodeDeadlineExceeded, ''context deadline exceeded''),
     (CodeInvalidArgument, ''invalid argument: qty''), (CodeInvalidArgument, ''invalid argument: price''),
     (CodeInvalidArgument, ''invalid argument: page token''), (CodeNotFound, ''not found''),
     (CodeFailedPrecondition, ''failed precondition''), (CodeAlreadyExists, ''order already exists with different identity''),
     (CodePermissionDenied, ''permission denied''), (CodeUnavailable, ''venue unavailable''), (CodeInternal, ''internal error'')]"

fun isPublic :: "RpcErr \<Rightarrow> bool" where
  "isPublic (ConnectError c e) \<longleftrightarrow> (c, err_Error e) \<in> set publicErrors"
| "isPublic Panicked \<longleftrightarrow> False"

lemma foreign_public: "\<not> ours e \<Longrightarrow> isPublic (mapOrderError e)"
  by (simp add: mapOrderError_def publicErrors_def ours_def)

lemma invalid_public: "field \<in> {''qty'', ''price'', ''page token''} \<Longrightarrow> isPublic (mapOrderError (sentinel_with ErrInvalidArgument field))"
  by (auto simp: mapOrderError_def publicErrors_def sentinel_with_def)

lemma parsePlace_errors: "parsePlace s msg = Inl e \<Longrightarrow> isPublic (mapOrderError e)"
  by (auto simp: parsePlace_def invalid_public split: option.splits if_splits)

lemma decodePageToken_errors: "decodePageToken s t digest = Inl e \<Longrightarrow> isPublic (mapOrderError e)"
  by (auto simp: decodePageToken_def Let_def invalid_public split: option.splits if_splits prod.splits)

lemma attempts_foreign:
  assumes "attempts (submitAttempt v req) w r w'" "foreign invar (op_PlaceOrder (ve_Placer v) req)" "invar w"
  shows "invar w' \<and> (\<forall>e. r = Inl e \<longrightarrow> permanentErr e \<longrightarrow> \<not> ours e)"
proof -
  have step: "invar w1 \<and> (\<forall>x. a = Inl (Permanent x) \<or> a = Inl (Transient x) \<longrightarrow> \<not> ours x)"
    if "submitAttempt v req w = (a, w1)" "invar w" for w a w1
    using that foreign_invar [OF assms(2) that(2)] foreignD [OF assms(2) that(2)]
    by (auto simp: submitAttempt_def split: prod.splits sum.splits if_splits)
  from assms(1,3) show ?thesis
    by (induction rule: attempts.induct) (auto dest: step)
qed

context api_ports
begin

lemma lookup_foreign: "foreign invar (lookupExisting (os_service s) req v)"
  unfolding foreign_def
proof (intro allI impI)
  fix w r w'
  assume w: "invar w" and l: "lookupExisting (os_service s) req v w = (r, w')"
  obtain x w1 where 1: "cs_GetOrder (sv_commands (os_service s)) (rq_ClientOrderID req) w = (x, w1)" by (rule prod.exhaust)
  then show "invar w' \<and> (\<forall>e. r = Inl e \<longrightarrow> \<not> ours e)"
    using l foreign_invar [OF get_foreign w 1] foreignD [OF get_foreign w]
    by (cases x) (auto simp: lookupExisting_def split: if_splits option.splits)
qed

lemma prepare_foreign:
  "foreign invar (\<lambda>w. bindS (cs_CreatePending (sv_commands (os_service s)) req)
     (\<lambda>inserted. if inserted then returnS (req, Inl v) else lookupExisting (os_service s) req (Some v)) w)"
  by (simp add: foreign_intros create_foreign lookup_foreign)

lemma preparePlace_foreign: "foreign invar (preparePlace (os_service s) req)"
  unfolding foreign_def [of invar "preparePlace _ _"]
proof (intro allI impI)
  fix w r w'
  assume w: "invar w" and p: "preparePlace (os_service s) req w = (r, w')"
  let ?req = "withDefaults (os_service s) req w"
  obtain m where "foreign invar m" "m w = (r, w')"
  proof (cases "sv_venues (os_service s) (i_Venue (rq_Instrument ?req))")
    case None
    then show thesis using that [OF lookup_foreign] p by (simp add: preparePlace_def Let_def)
  next
    case (Some v)
    then show thesis using that [OF prepare_foreign] p by (simp add: preparePlace_def Let_def)
  qed
  with w show "invar w' \<and> (\<forall>e. r = Inl e \<longrightarrow> \<not> ours e)" unfolding foreign_def by blast
qed

lemma prepared_venue: "preparePlace (os_service s) req0 w = (Inr (req, Inl v), w') \<Longrightarrow> \<exists>vid. sv_venues (os_service s) vid = Some v"
  by (auto simp: preparePlace_def lookupExisting_def Let_def bindS_def returnS_def
      split: option.splits prod.splits sum.splits if_splits)

text \<open>
  An error that does not leave the order unsettled is one of outside; one that does comes with the pending
  status or with the order read last.
\<close>

lemma Place_error:
  assumes "retries (os_service s)" "invar w" "Place (os_service s) ctx req w = ((res, Some e), w')"
  shows "\<not> ours e \<or> errors_Is e ErrSubmitUnsettled \<and> (pr_Status res = StatusPending \<or>
    (\<exists>cid w2 stored. invar w2 \<and> cs_GetOrder (sv_commands (os_service s)) cid w2 = (Inr stored, w') \<and> res = placeResult stored))"
proof -
  obtain r w1 where p: "preparePlace (os_service s) req w = (r, w1)" by (rule prod.exhaust)
  show ?thesis
  proof (cases "\<exists>req' v. r = Inr (req', Inl v)")
    case True
    then obtain req' v where r: "r = Inr (req', Inl v)" by blast
    with prepared_venue p obtain vid where v: "sv_venues (os_service s) vid = Some v" by blast
    obtain a w2 where t: "sv_Retry (os_service s) ctx (sv_submitBudget (os_service s)) (submitAttempt v req') w1 = (a, w2)" by (rule prod.exhaust)
    have i: "invar w1" using foreign_invar [OF preparePlace_foreign assms(2) p] .
    note at = attempts_foreign [OF retriesD [OF assms(1) t] place_foreign [OF v] i]
    show ?thesis
    proof (cases a)
      case (Inl err)
      then have f: "submitFailure (os_service s) ctx req' err w2 = ((res, Some e), w')" using assms(3) p r t by (simp add: Place_def)
      show ?thesis
      proof (cases "permanentErr err")
        case True
        with f have "e = err" by (auto simp: submitFailure_def Let_def split: prod.splits)
        with at Inl True show ?thesis by blast
      next
        case False
        obtain g w3 where g: "cs_GetOrder (sv_commands (os_service s)) (rq_ClientOrderID req') w2 = (g, w3)" by (rule prod.exhaust)
        with f False at show ?thesis by (cases g) (auto simp: submitFailure_def Let_def)
      qed
    next
      case (Inr ack)
      with assms(3) p r t show ?thesis by (auto simp: Place_def acceptedUnsettled_def split: sum.splits prod.splits)
    qed
  next
    case False
    with assms(3) p have "r = Inl e" by (auto simp: Place_def split: sum.splits prod.splits)
    with foreignD [OF preparePlace_foreign assms(2)] p show ?thesis by blast
  qed
qed

lemma mark_now_foreign: "foreign invar (\<lambda>w. cs_MarkCancelRequested (sv_commands (os_service s)) cid (sv_clk (os_service s) w) w)"
  using foreign_invar [OF mark_foreign] foreignD [OF mark_foreign] unfolding foreign_def by blast

lemma Cancel_foreign: "foreign invar (Cancel (os_service s) cid)"
  unfolding Cancel_def
  by (auto intro!: foreign_intros get_foreign mark_now_foreign cancel_foreign split: option.split)

lemma PlaceOrder_public:
  assumes "retries (os_service s)" "invar w" "PlaceOrder s ctx msg w = (Inl e, w')"
  shows "isPublic e"
proof (cases "parsePlace s msg")
  case (Inl err)
  with assms(3) parsePlace_errors show ?thesis by (auto simp: PlaceOrder_def)
next
  case (Inr req)
  obtain res err w1 where p: "Place (os_service s) ctx req w = ((res, err), w1)" by (metis surj_pair)
  with Inr assms(3) obtain err' where "err = Some err'" "\<not> errors_Is err' ErrSubmitUnsettled" "e = mapOrderError err'"
    by (auto simp: PlaceOrder_def Let_def split: option.splits if_splits)
  with Place_error [OF assms(1,2)] p show ?thesis by (auto intro: foreign_public)
qed

lemma CancelOrder_public: "invar w \<Longrightarrow> CancelOrder s cid w = (Inl e, w') \<Longrightarrow> isPublic e"
  by (auto simp: CancelOrder_def split: sum.splits prod.splits intro: foreign_public dest: foreignD [OF Cancel_foreign])

lemma pageOf_public: "invar w \<Longrightarrow> 0 < limit \<Longrightarrow> pageOf s limit digest rs = Inl e \<Longrightarrow> isPublic e"
  by (auto simp: pageOf_def Let_def encodePageToken_def bindR_Inl_iff split: if_splits sum.splits intro: foreign_public dest: marshal_foreign)

lemma ListOrders_public: "invar w \<Longrightarrow> 0 \<le> lr_Limit msg \<Longrightarrow> ListOrders_handler s msg w = (Inl e, w') \<Longrightarrow> isPublic e"
  by (auto simp: ListOrders_handler_def Let_def defaultOrderLimit_def split: if_splits sum.splits prod.splits
      intro: foreign_public decodePageToken_errors dest: pageOf_public [of w, rotated 2] foreignD [OF list_foreign])

end

subsection \<open>The server over Postgres and the venues\<close>

text \<open>
  The server as it is wired, on the world of the services; of \<open>p\<close> only the codecs are used. From outside the
  package come the errors of the driver, of the venues and of the JSON encoder.
\<close>

definition apiServer :: "'v World OrderServer \<Rightarrow> 'v App \<Rightarrow> 'v World OrderServer" where
  "apiServer p app = p\<lparr>os_service := orderService app, os_ListOrders := (\<lambda>q. onStore (\<lambda>_. ListOrders q))\<rparr>"

definition foreign_faults :: "DB \<Rightarrow> bool" where
  "foreign_faults db \<longleftrightarrow> (\<forall>n e. db_faults db n = Some (FailBefore e) \<or> db_faults db n = Some (FailAfter e) \<longrightarrow>
     \<not> ours e)"

definition foreign_placer :: "'v OrderPlacer \<Rightarrow> bool" where
  "foreign_placer p \<longleftrightarrow> (\<forall>req v e v'. op_PlaceOrder p req v = (Inl e, v') \<longrightarrow> \<not> ours e)
     \<and> (\<forall>ref v e v'. op_CancelOrder p ref v = (Inl e, v') \<longrightarrow> \<not> ours e)"

definition api_inv :: "'v World OrderServer \<Rightarrow> 'v App \<Rightarrow> 'v World \<Rightarrow> bool" where
  "api_inv p app w \<longleftrightarrow> world_inv w \<and> foreign_faults (w_db w) \<and> list_all (\<lambda>(_, pl, _). foreign_placer pl) (ap_venues app)
     \<and> (\<forall>tok e. os_MarshalToken p tok = Inl e \<longrightarrow> \<not> ours e)"

lemma foreign_faults_steps: "store_step\<^sup>*\<^sup>* db db' \<Longrightarrow> foreign_faults db' = foreign_faults db"
  by (simp add: foreign_faults_def store_steps_faults)

lemma advance_api: "api_inv p app w \<Longrightarrow> api_inv p app (advance w)"
  using advance_goes_on [of w] by (auto simp: api_inv_def foreign_faults_steps [OF advance_steps])

text \<open>A statement of the store on its own fails with an error of the driver, or as the statement does.\<close>

lemma autocommit_foreign:
  assumes "autocommit q db = (Inl e, db')" "foreign_faults db" "\<And>db e db'. q db = (Inl e, db') \<Longrightarrow> \<not> ours e"
  shows "\<not> ours e"
proof -
  let ?db1 = "db\<lparr>db_stmt := Suc (db_stmt db), db_work := db_durable db, db_tx := Suc (db_tx db)\<rparr>"
  have "\<not> ours e'" if "q ?db1 = (Inl e', d)" for e' d using assms(3) that .
  with assms(1,2) show ?thesis
    by (auto simp: autocommit_def exec_def Let_def foreign_faults_def
        split: option.splits Fault.splits prod.splits sum.splits)
qed

definition reports :: "'a dbop \<Rightarrow> bool" where
  "reports m \<longleftrightarrow> (\<forall>db e db'. foreign_faults db \<longrightarrow> m db = (Inl e, db') \<longrightarrow> \<not> ours e)"

lemma reports_statement:
  assumes "\<And>db e db'. q db = (Inl e, db') \<Longrightarrow> \<not> ours e"
    and "\<And>x db e db'. f x db = (Inl e, db') \<Longrightarrow> \<not> ours e"
  shows "reports (bindS (wrapS t (autocommit q)) f)"
  unfolding reports_def
proof (intro allI impI)
  fix db e db'
  assume d: "foreign_faults db" and b: "bindS (wrapS t (autocommit q)) f db = (Inl e, db')"
  obtain x db1 where 1: "autocommit q db = (x, db1)" by (rule prod.exhaust)
  have "\<not> ours a" if "x = Inl a" for a
    using autocommit_foreign [of q db a db1] 1 that d assms(1) by blast
  with 1 b assms(2) show "\<not> ours e"
    by (cases x) (auto simp: bindS_def wrapS_def mapErrS_def)
qed

lemma reports_store:
  "reports (CreatePending req)" "reports (GetOrder cid)" "reports (MarkCancelRequested cid t)" "reports (ListOrders q)"
  unfolding CreatePending_def GetOrder_def MarkCancelRequested_def ListOrders_def
  by (rule reports_statement; auto simp: InsertPendingOrder_def q_GetOrder_def q_MarkCancelRequested_def q_ListOrders_def
      violates_def returnS_def failS_def Let_def split: option.splits if_splits)+

lemma onStore_foreign:
  assumes "reports m" "\<And>db r db'. m db = (r, db') \<Longrightarrow> store_step db db'"
  shows "foreign (api_inv p app) (onStore (\<lambda>_. m))"
  unfolding foreign_def
proof (intro allI impI)
  fix w r w'
  assume i: "api_inv p app w" and o: "onStore (\<lambda>_. m) w = (r, w')"
  from o obtain db where m: "m (w_db (advance w)) = (r, db)" "w' = (advance w)\<lparr>w_db := db\<rparr>"
    by (auto simp: onStore_def Let_def split: prod.splits)
  have a: "api_inv p app (advance w)" using advance_api [OF i] .
  have "world_inv w'" using quietlyD(2) [OF onStore_quiet [OF o assms(2)]] i by (simp add: api_inv_def)
  moreover have "foreign_faults db" using a foreign_faults_steps [OF r_into_rtranclp [of store_step, OF assms(2) [OF m(1)]]]
    by (simp add: api_inv_def)
  ultimately show "api_inv p app w' \<and> (\<forall>e. r = Inl e \<longrightarrow> \<not> ours e)"
    using assms(1) a m by (auto simp: api_inv_def reports_def)
qed

lemma onVenue_foreign:
  assumes "\<And>v e v'. m v = (Inl e, v') \<Longrightarrow> \<not> ours e"
  shows "foreign (api_inv p app) (onVenue c m)"
  using advance_api [of p app] assms unfolding foreign_def
  by (fastforce simp: onVenue_def Let_def api_inv_def world_inv_def split: prod.splits)

lemma venue_foreign:
  assumes "sv_venues (orderService app) vid = Some v"
  shows "foreign (api_inv p app) (op_PlaceOrder (ve_Placer v) req) \<and> foreign (api_inv p app) (op_CancelOrder (ve_Placer v) ref)"
proof -
  from assms obtain i pl st where v: "(i, pl, st) \<in> set (ap_venues app)" "v = venueOf (i, pl, st)"
    by (auto simp: orderService_def dest!: byID_Some)
  show ?thesis
  proof (cases "foreign_placer pl")
    case True
    have "\<not> ours e" if "op_PlaceOrder pl req n = (Inl e, n')" for n e n' using True that unfolding foreign_placer_def by blast
    moreover have "\<not> ours e" if "op_CancelOrder pl ref n = (Inl e, n')" for n e n' using True that unfolding foreign_placer_def by blast
    ultimately show ?thesis by (simp add: v(2) venueOf_def wire_def onVenue_foreign)
  next
    case False
    with v(1) have "\<not> list_all (\<lambda>(_, pl, _). foreign_placer pl) (ap_venues app)" unfolding list_all_iff by blast
    then have "\<not> api_inv p app w" for w by (simp add: api_inv_def)
    then show ?thesis by (simp add: foreign_def)
  qed
qed

interpretation pg_api: api_ports "api_inv p app" "apiServer p app" for p app
  by unfold_locales
    (auto simp: apiServer_def orderService_def pgCommands_def api_inv_def [of _ _ "_ :: _ World"]
      intro: onStore_foreign reports_store store_step.intros venue_foreign [THEN conjunct1] venue_foreign [THEN conjunct2])


subsection \<open>What is answered\<close>

text \<open>A placement that did not fail, or left the order unsettled, names a stored order.\<close>

lemma Place_stored:
  assumes "api_inv p app w" "retries (orderService app)" "Place (orderService app) ctx req w = ((res, err), w')"
    and "\<And>e. err = Some e \<Longrightarrow> errors_Is e ErrSubmitUnsettled"
  shows "\<exists>row. world_rows w' (pr_ClientOrderID res) = Some row \<and> (err = None \<longrightarrow> pr_Status res = o_Status row)"
proof -
  have "\<not> errors_Is e ErrSubmitUnsettled" if "fst (preparePlace (orderService app) req w) = Inl e" for e
  proof -
    from that obtain w1 where "preparePlace (orderService app) req w = (Inl e, w1)" by (metis prod.collapse)
    with foreignD [OF pg_api.preparePlace_foreign [of p app req] assms(1)] have "\<not> ours e" by (simp add: apiServer_def)
    then show ?thesis by (simp add: ours_def)
  qed
  with assms(4) have "\<not> (\<exists>e. (res, err) = (noResult, Some e) \<and> fst (preparePlace (orderService app) req w) = Inl e)" by auto
  with pg_orders.Place_run [OF _ assms(2,3)] assms(1)
  have "place_outcome (withDefaults (orderService app) req w) (length (w_sent w) < length (w_sent w')) (world_rows w') (res, err)"
    by (auto simp: api_inv_def)
  then show ?thesis by (auto simp: place_outcome_def split: option.splits)
qed

text \<open>An unsettled one reports it as pending or with the status that is stored.\<close>

lemma Place_unsettled:
  assumes "api_inv p app w" "retries (orderService app)" "Place (orderService app) ctx req w = ((res, Some e), w')"
    and "errors_Is e ErrSubmitUnsettled"
  shows "pr_Status res = StatusPending \<or> (\<exists>row. world_rows w' (pr_ClientOrderID res) = Some row \<and> pr_Status res = o_Status row)"
proof -
  from assms(4) have "ours e" by (simp add: ours_def)
  then consider "pr_Status res = StatusPending" | cid w1 stored where "api_inv p app w1"
      "cs_GetOrder pgCommands cid w1 = (Inr stored, w')" "res = placeResult stored"
    using pg_api.Place_error [of p app w ctx req res e w'] assms(1-3) by (auto simp: apiServer_def orderService_def)
  then show ?thesis
  proof cases
    case 2
    then obtain row where "world_rows w' cid = Some row" "stored = orderRecord row"
      using get_found [of w1 cid stored w'] by (auto simp: pgCommands_def api_inv_def)
    with 2(3) show ?thesis by (auto simp: placeResult_def orderRecord_def dest: world_key)
  qed simp
qed

text \<open>
  C24: what a client of the order service is told. Whatever fails behind the three handlers, in a venue, in the
  database or in the request, the client gets one of eleven pairs of a code and a text and never the error
  itself, and no handler panics for a limit that is not negative. When \<open>PlaceOrder\<close> answers, the order it
  names is stored, with the status it reports; only an answer marked as unsettled may report an order as
  pending whose status has moved on.
\<close>

theorem order_api_answers:
  assumes "api_inv p app w" "retries (orderService app)" "s = apiServer p app" "0 \<le> lr_Limit query"
  shows "(PlaceOrder s ctx msg w = (Inl e1, w1) \<longrightarrow> isPublic e1)
    \<and> (CancelOrder s cid w = (Inl e2, w2) \<longrightarrow> isPublic e2)
    \<and> (ListOrders_handler s query w = (Inl e3, w3) \<longrightarrow> isPublic e3)
    \<and> (PlaceOrder s ctx msg w = (Inr resp, w4) \<longrightarrow> (\<exists>row. world_rows w4 (ps_ClientOrderId resp) = Some row
        \<and> (ps_Status resp = toProtoOrderStatus (o_Status row)
           \<or> ps_SubmitUnsettled resp \<and> ps_Status resp = ORDER_STATUS_PENDING)))"
proof -
  have os: "os_service s = orderService app" by (simp add: assms(3) apiServer_def)
  have "\<exists>row. world_rows w4 (ps_ClientOrderId resp) = Some row
      \<and> (ps_Status resp = toProtoOrderStatus (o_Status row) \<or> ps_SubmitUnsettled resp \<and> ps_Status resp = ORDER_STATUS_PENDING)"
    if a: "PlaceOrder s ctx msg w = (Inr resp, w4)"
  proof -
    from a obtain req where parsed: "parsePlace s msg = Inr req" by (cases "parsePlace s msg") (auto simp: PlaceOrder_def)
    obtain res err w5 where p5: "Place (orderService app) ctx req w = ((res, err), w5)" by (metis surj_pair)
    have resp: "ps_ClientOrderId resp = pr_ClientOrderID res" "ps_Status resp = toProtoOrderStatus (pr_Status res)"
      "ps_SubmitUnsettled resp \<longleftrightarrow> err \<noteq> None" "\<And>e. err = Some e \<Longrightarrow> errors_Is e ErrSubmitUnsettled" "w5 = w4"
      using a parsed p5 by (auto simp: PlaceOrder_def os Let_def split: option.splits if_splits)
    note placed = p5 [unfolded resp(5)]
    note stored = Place_stored [OF assms(1,2) placed resp(4)]
    show ?thesis
    proof (cases err)
      case None
      with stored resp show ?thesis by auto
    next
      case (Some e)
      from Place_unsettled [OF assms(1,2) placed [unfolded Some] resp(4) [OF Some]] show ?thesis
      proof
        assume "pr_Status res = StatusPending"
        with stored resp Some show ?thesis by (auto simp: toProtoOrderStatus_def)
      qed (use resp in auto)
    qed
  qed
  moreover have "retries (os_service s)" using assms(2) os by simp
  ultimately show ?thesis
    using pg_api.PlaceOrder_public [of p app w ctx msg e1 w1] pg_api.CancelOrder_public [of p app w cid e2 w2]
      pg_api.ListOrders_public [of p app w query e3 w3] assms by blast
qed

definition demo_api :: "nat World OrderServer" where
  "demo_api = \<lparr>os_service = orderService demo_app, os_ListOrders = (\<lambda>_ w. (Inr [], w)),
     os_NewFromString = (\<lambda>t. if t = ''1'' then Some 1 else if t = ''50000'' then Some 50000 else None), os_String = (\<lambda>_. ''0''), os_sha256 = id,
     os_MarshalToken = (\<lambda>tok. Inl (EText ''json: unsupported value'')), os_DecodeToken = (\<lambda>_. None), os_AtEOF = (\<lambda>rest. rest = []),
     os_MarshalFilter = (\<lambda>venue statuses bot_id. venue @ concat statuses @ bot_id)\<rparr>"

definition demo_place_request :: "string \<Rightarrow> PlaceOrderRequest" where
  "demo_place_request qty = \<lparr>po_Venue = ''bybit'', po_Base = ''BTC'', po_Quote = ''USDT'', po_Side = SIDE_BUY, po_Type = ORDER_TYPE_LIMIT,
     po_Qty = qty, po_Price = ''50000'', po_ClientOrderId = ''01JG3''\<rparr>"

lemma demo_api_inv: "api_inv demo_api demo_app (demo_world empty_db)"
proof -
  have "foreign_placer demo_placer" by (auto simp: foreign_placer_def demo_placer_def)
  then show ?thesis
    using demo_worlds(1) by (simp add: api_inv_def foreign_faults_def demo_app_def demo_api_def demo_world_def empty_db_def new_db_def)
qed

lemma demo_api_refused: "PlaceOrder (apiServer demo_api demo_app) ctx (demo_place_request ''x'') w
    = (Inl (ConnectError CodeInvalidArgument (sentinel_with ErrInvalidArgument ''qty'')), w)"
  by (simp add: PlaceOrder_def parsePlace_def apiServer_def demo_api_def demo_place_request_def mapOrderError_def)

lemma demo_api_parsed: "parsePlace (apiServer demo_api demo_app) (demo_place_request ''1'') = Inr ((demo_request Buy)\<lparr>rq_Instrument :=
    (rq_Instrument (demo_request Buy))\<lparr>i_VenueSymbol := []\<rparr>\<rparr>)"
  by (simp add: parsePlace_def apiServer_def demo_api_def demo_place_request_def demo_request_def NewVenueID_def NewCurrency_def
      fromProtoSide_def fromProtoOrderType_def SIDE_BUY_def ORDER_TYPE_LIMIT_def TrimSpace_def is_space_def ToUpper_def upper_char_def ToLower_def lower_char_def)


lemma demo_api_placed: "\<exists>resp w'. PlaceOrder (apiServer demo_api demo_app) (\<lambda>_. False) (demo_place_request ''1'') (demo_world empty_db) = (Inr resp, w')
    \<and> ps_ClientOrderId resp = ''01JG3''"
proof -
  have os: "os_service (apiServer demo_api demo_app) = orderService demo_app" by (simp add: apiServer_def)
  show ?thesis
    unfolding PlaceOrder_def demo_api_parsed os
    by (simp add: service_defs Let_def new_db_def no_tables_def run_defs eval_defs)
qed

theorem order_api_answers_witness:
  "isPublic (ConnectError CodeInvalidArgument (sentinel_with ErrInvalidArgument ''qty''))
   \<and> (\<exists>row. world_rows (snd (PlaceOrder (apiServer demo_api demo_app) (\<lambda>_. False) (demo_place_request ''1'') (demo_world empty_db))) ''01JG3'' = Some row)"
proof -
  let ?s = "apiServer demo_api demo_app"
  let ?query = "\<lparr>lr_Venue = [], lr_Statuses = [], lr_BotId = [], lr_Limit = 0, lr_PageToken = []\<rparr>"
  note told = order_api_answers [OF demo_api_inv once_retries refl, of ?query "\<lambda>_. False"]
  obtain resp w' where placed: "PlaceOrder ?s (\<lambda>_. False) (demo_place_request ''1'') (demo_world empty_db) = (Inr resp, w')"
    "ps_ClientOrderId resp = ''01JG3''" using demo_api_placed by blast
  have "\<exists>row. world_rows w' (ps_ClientOrderId resp) = Some row" using told [of "demo_place_request ''1''"] placed(1) by simp blast
  moreover have "isPublic (ConnectError CodeInvalidArgument (sentinel_with ErrInvalidArgument ''qty''))"
    using told [of "demo_place_request ''x''"] demo_api_refused by (simp del: isPublic.simps)
  ultimately show ?thesis using placed by simp
qed

end
