(* ===== verification/Placer_Contract.thy ===== *)
theory Placer_Contract
  imports Trading_Ports
begin

section \<open>The contract of an order placer\<close>

text \<open>
  \<open>internal/ports/portstest/order_placer.go\<close>: the behavioural contract that every adapter's placer is run
  against, and the cleanup after it. A run gives the errors that it reports, none when it passes. The venue
  \<open>'w\<close>, the fixture, fresh IDs and the rounding division are parameters.
\<close>

subsection \<open>Cleaning up\<close>

text \<open>Whether an answer to a lookup leaves the order open, or fails the poll.\<close>

definition pollOne :: "Ref \<Rightarrow> Err + Snapshot \<Rightarrow> Err + nat" where
  "pollOne ref r = (case r of
     Inl err \<Rightarrow> if errors_Is err ErrNotFound then Inr 0 else Inl (wrap (''poll '' @ rf_ClientOrderID ref) err)
   | Inr snapshot \<Rightarrow> Inr (if Terminal (sn_Status snapshot) then 0 else 1))"

fun pollRound :: "'w OrderPlacer \<Rightarrow> Ref list \<Rightarrow> nat \<Rightarrow> ('w, nat) op" where
  "pollRound placer [] remaining = returnS remaining"
| "pollRound placer (ref # refs) remaining = (\<lambda>w. case op_GetOrder placer ref w of
     (r, w1) \<Rightarrow> (case pollOne ref r of Inl err \<Rightarrow> (Inl err, w1) | Inr n \<Rightarrow> pollRound placer refs (remaining + n) w1))"

text \<open>
  The loop, over what each wait ended with: the error of the context, or \<open>None\<close> for the ticker. When they are
  used up the loop is still running, which is \<open>None\<close>.
\<close>

fun cleanupLoop :: "'w OrderPlacer \<Rightarrow> Ref list \<Rightarrow> Err option list \<Rightarrow> 'w \<Rightarrow> (Err + unit) option \<times> 'w" where
  "cleanupLoop placer refs waits w = (case pollRound placer refs 0 w of
     (Inl err, w1) \<Rightarrow> (Some (Inl err), w1)
   | (Inr remaining, w1) \<Rightarrow>
      if remaining = 0 then (Some (Inr ()), w1)
      else (case waits of
          [] \<Rightarrow> (None, w1)
        | Some err # _ \<Rightarrow> (Some (Inl (wrap (fmt_nat remaining @ '' orders still open'') err)), w1)
        | None # waits' \<Rightarrow> cleanupLoop placer refs waits' w1))"

declare cleanupLoop.simps [simp del]

definition cancelOne :: "'w OrderPlacer \<Rightarrow> Ref \<Rightarrow> ('w, unit) op" where
  "cancelOne placer ref w = (case op_CancelOrder placer ref w of
     (Inl err, w1) \<Rightarrow> if errors_Is err ErrNotFound then (Inr (), w1) else (Inl (wrap (''cancel '' @ rf_ClientOrderID ref) err), w1)
   | (Inr u, w1) \<Rightarrow> (Inr u, w1))"

definition CleanupPlacedOrders :: "'w OrderPlacer \<Rightarrow> Err option list \<Rightarrow> Ref list \<Rightarrow> 'w \<Rightarrow> (Err + unit) option \<times> 'w" where
  "CleanupPlacedOrders placer waits refs w = (case forS (cancelOne placer) refs w of
     (Inl err, w1) \<Rightarrow> (Some (Inl err), w1)
   | (Inr _, w1) \<Rightarrow> cleanupLoop placer refs waits w1)"

subsection \<open>The contract\<close>

record 'w Fixture =
  ft_Instrument :: Instrument
  ft_MinQty :: Decimal
  ft_MinNotional :: Decimal
  ft_NonMarketablePrice :: "('w, Decimal) op option"
  ft_EchoesClientOrderID :: bool
  ft_Deadline :: Duration
  ft_Cleanup :: "(Ref list \<Rightarrow> ('w, unit) op) option"

record 'w Tools =
  tl_newID :: "'w \<Rightarrow> ClientOrderID \<times> 'w"
  tl_Div :: "Decimal \<Rightarrow> Decimal \<Rightarrow> Decimal"

definition sameVenueOrder :: "Ref \<Rightarrow> Ref \<Rightarrow> ClientOrderID \<Rightarrow> bool" where
  "sameVenueOrder got want clientID \<longleftrightarrow>
     (if rf_VenueOrderID want \<noteq> [] then rf_VenueOrderID got = rf_VenueOrderID want else rf_ClientOrderID got = clientID)"

definition orderQty :: "'w Tools \<Rightarrow> 'w Fixture \<Rightarrow> Decimal \<Rightarrow> Decimal" where
  "orderQty tools f price = (if IsPositive price \<and> ft_MinQty f * price < ft_MinNotional f then tl_Div tools (ft_MinNotional f) price else ft_MinQty f)"

text \<open>Up to the first placement.\<close>

definition placeFirst :: "'w OrderPlacer \<Rightarrow> 'w Tools \<Rightarrow> 'w Fixture \<Rightarrow> ('w, Decimal) op \<Rightarrow> ('w, Request \<times> Ack) op" where
  "placeFirst placer tools f priceOf w0 =
    (case tl_newID tools w0 of (unknownID, w1) \<Rightarrow>
     case op_GetOrder placer \<lparr>rf_Instrument = ft_Instrument f, rf_ClientOrderID = unknownID, rf_VenueOrderID = ''missing''\<rparr> w1 of (r, w2) \<Rightarrow>
     if \<not> (case r of Inl err \<Rightarrow> errors_Is err ErrNotFound | Inr _ \<Rightarrow> False)
     then (Inl (EText ''GetOrder(unknown): want ports.ErrNotFound''), w2)
     else bindS (wrapS ''non-marketable price'' priceOf) (\<lambda>price w3.
       case tl_newID tools w3 of (clientID, w4) \<Rightarrow>
       let request = \<lparr>rq_ClientOrderID = clientID, rq_BotID = ''contract'', rq_Instrument = ft_Instrument f, rq_Side = Buy,
             rq_Type = Limit, rq_Price = price, rq_Qty = orderQty tools f price\<rparr> in
       bindS (wrapS ''first PlaceOrder'' (op_PlaceOrder placer request)) (\<lambda>ack. returnS (request, ack)) w4) w2)"

text \<open>After it: the second placement, whose error is only logged, and the checks of what the venue then holds.\<close>

definition verifyPlaced :: "'w OrderPlacer \<Rightarrow> 'w Fixture \<Rightarrow> Request \<Rightarrow> Ack \<Rightarrow> ('w, unit) op" where
  "verifyPlaced placer f request ack w0 =
    (case op_PlaceOrder placer request w0 of (_, w1) \<Rightarrow>
     if ft_EchoesClientOrderID f \<and> rf_ClientOrderID (ak_Ref ack) \<noteq> rq_ClientOrderID request
     then (Inl (EText ''ack client order ID''), w1)
     else bindS (wrapS ''GetOrder(placed)'' (op_GetOrder placer (ak_Ref ack))) (\<lambda>snapshot.
       if ft_EchoesClientOrderID f \<and> rf_ClientOrderID (sn_Ref snapshot) \<noteq> rq_ClientOrderID request
       then failS (EText ''lookup client order ID'')
       else bindS (wrapS ''OpenOrders'' (op_OpenOrders placer)) (\<lambda>open_orders.
         let matches = length (filter (\<lambda>c. sameVenueOrder (sn_Ref c) (ak_Ref ack) (rq_ClientOrderID request)) open_orders) in
         if matches \<noteq> 1 then failS (EText (''OpenOrders contains '' @ fmt_nat matches @ '' matching orders after duplicate placement, want 1''))
         else returnS ())) w1)"

text \<open>The errors of a run; the cleanup runs whenever the fixture is complete, also after a failure.\<close>

definition errorsOf :: "Err + 'a \<Rightarrow> Err list" where
  "errorsOf r = (case r of Inl err \<Rightarrow> [err] | Inr _ \<Rightarrow> [])"

definition RunOrderPlacerContract :: "'w OrderPlacer \<Rightarrow> 'w Tools \<Rightarrow> 'w Fixture \<Rightarrow> 'w \<Rightarrow> Err list \<times> 'w" where
  "RunOrderPlacerContract placer tools f w0 =
    (case (ft_Cleanup f, ft_NonMarketablePrice f) of
       (Some tidy, Some priceOf) \<Rightarrow>
         if ft_Deadline f \<le> 0 then ([EText ''order placer fixture requires a positive Deadline''], w0)
         else (case placeFirst placer tools f priceOf w0 of
             (Inl err, w1) \<Rightarrow> (case tidy [] w1 of (c, w2) \<Rightarrow> (err # errorsOf c, w2))
           | (Inr (request, ack), w1) \<Rightarrow>
              (case verifyPlaced placer f request ack w1 of (r, w2) \<Rightarrow>
               case tidy [ak_Ref ack] w2 of (c, w3) \<Rightarrow> (errorsOf r @ errorsOf c, w3)))
     | _ \<Rightarrow> ([EText ''order placer fixture requires Cleanup and NonMarketablePrice''], w0))"

subsection \<open>What the cleanup leaves\<close>

text \<open>A poll that counts nothing has seen every order gone or in a terminal status.\<close>

definition settled :: "Err + Snapshot \<Rightarrow> bool" where
  "settled r \<longleftrightarrow> (case r of Inl err \<Rightarrow> errors_Is err ErrNotFound | Inr snapshot \<Rightarrow> Terminal (sn_Status snapshot))"

fun lookups :: "'w OrderPlacer \<Rightarrow> Ref list \<Rightarrow> 'w \<Rightarrow> (Err + Snapshot) list \<times> 'w" where
  "lookups placer [] w = ([], w)"
| "lookups placer (ref # refs) w = (case op_GetOrder placer ref w of (r, w1) \<Rightarrow>
     (case lookups placer refs w1 of (rs, w2) \<Rightarrow> (r # rs, w2)))"

lemma pollRound_count:
  assumes "pollRound placer refs k w = (Inr n, w')"
  shows "\<exists>rs. lookups placer refs w = (rs, w') \<and> n = k + length (filter (\<lambda>r. \<not> settled r) rs)"
  using assms
proof (induction refs arbitrary: k w)
  case (Cons ref refs)
  obtain r w1 where r: "op_GetOrder placer ref w = (r, w1)" by (cases "op_GetOrder placer ref w")
  from Cons.prems r obtain j where j: "pollOne ref r = Inr j" "pollRound placer refs (k + j) w1 = (Inr n, w')"
    by (auto split: sum.splits)
  from Cons.IH [OF j(2)] obtain rs where rs: "lookups placer refs w1 = (rs, w')" "n = k + j + length (filter (\<lambda>r. \<not> settled r) rs)" by blast
  have "j = (if settled r then 0 else 1)" using j(1) by (auto simp: pollOne_def settled_def split: sum.splits if_splits)
  with r rs show ?case by simp
qed simp

lemma pollLoop_settled:
  assumes "cleanupLoop placer refs waits w = (Some (Inr ()), w')"
  shows "\<exists>rs w1. lookups placer refs w1 = (rs, w') \<and> list_all settled rs"
  using assms
proof (induction waits arbitrary: w)
  case Nil
  then obtain n w1 where n: "pollRound placer refs 0 w = (Inr n, w1)" "n = 0" "w1 = w'"
    by (subst (asm) cleanupLoop.simps) (auto split: prod.splits sum.splits if_splits)
  from pollRound_count [OF n(1)] n show ?case by (auto simp: list_all_iff filter_empty_conv)
next
  case (Cons x waits)
  obtain r w1 where p: "pollRound placer refs 0 w = (r, w1)" by (cases "pollRound placer refs 0 w")
  show ?case
  proof (cases "r = Inr 0")
    case True
    with Cons.prems p have "w1 = w'" by (subst (asm) cleanupLoop.simps) simp
    with pollRound_count [of placer refs 0 w 0 w1] p True show ?thesis by (auto simp: list_all_iff filter_empty_conv)
  next
    case False
    with Cons.prems p have "cleanupLoop placer refs waits w1 = (Some (Inr ()), w')"
      by (subst (asm) cleanupLoop.simps) (auto split: sum.splits option.splits if_splits)
    then show ?thesis by (rule Cons.IH)
  qed
qed

text \<open>
  A venue that settles: no lookup fails but for an unknown order, and every round of polls either finds all of
  them settled or brings the venue closer to it.
\<close>

definition settling :: "'w OrderPlacer \<Rightarrow> Ref list \<Rightarrow> ('w \<Rightarrow> nat) \<Rightarrow> bool" where
  "settling placer refs togo \<longleftrightarrow>
     (\<forall>ref w w' err. op_GetOrder placer ref w = (Inl err, w') \<longrightarrow> errors_Is err ErrNotFound)
   \<and> (\<forall>w rs w'. lookups placer refs w = (rs, w') \<longrightarrow> list_all settled rs \<or> togo w' < togo w)"

lemma pollRound_returns:
  assumes "\<And>ref w w' err. op_GetOrder placer ref w = (Inl err, w') \<Longrightarrow> errors_Is err ErrNotFound"
  shows "\<exists>n w'. pollRound placer refs k w = (Inr n, w')"
proof (induction refs arbitrary: k w)
  case (Cons ref refs)
  obtain r w1 where r: "op_GetOrder placer ref w = (r, w1)" by (cases "op_GetOrder placer ref w")
  with assms have "\<exists>j. pollOne ref r = Inr j" by (cases r) (auto simp: pollOne_def)
  with Cons r show ?case by auto
qed (simp add: returnS_def)

lemma pollLoop_returns:
  assumes "settling placer refs togo" "togo w \<le> length waits" "set waits \<subseteq> {None}"
  shows "\<exists>w'. cleanupLoop placer refs waits w = (Some (Inr ()), w')"
  using assms(2,3)
proof (induction waits arbitrary: w)
  case Nil
  obtain n w1 where n: "pollRound placer refs 0 w = (Inr n, w1)"
    using pollRound_returns [of placer refs 0 w] assms(1) unfolding settling_def by blast
  from pollRound_count [OF n] obtain rs where rs: "lookups placer refs w = (rs, w1)" "n = length (filter (\<lambda>r. \<not> settled r) rs)" by auto
  with assms(1) Nil have "list_all settled rs" unfolding settling_def by fastforce
  with rs(2) have "n = 0" by (simp add: list_all_iff)
  with n show ?case by (subst cleanupLoop.simps) simp
next
  case (Cons x waits)
  obtain n w1 where n: "pollRound placer refs 0 w = (Inr n, w1)"
    using pollRound_returns [of placer refs 0 w] assms(1) unfolding settling_def by blast
  from pollRound_count [OF n] obtain rs where rs: "lookups placer refs w = (rs, w1)" "n = length (filter (\<lambda>r. \<not> settled r) rs)" by auto
  show ?case
  proof (cases "list_all settled rs")
    case True
    with rs(2) have "n = 0" by (simp add: list_all_iff)
    with n show ?thesis by (subst cleanupLoop.simps) simp
  next
    case False
    with assms(1) rs(1) have "togo w1 < togo w" unfolding settling_def by blast
    with Cons obtain w' where "cleanupLoop placer refs waits w1 = (Some (Inr ()), w')" by fastforce
    moreover have "n \<noteq> 0" using False rs(2) by (auto simp: list_all_iff filter_empty_conv)
    moreover have "x = None" using Cons.prems(2) by simp
    ultimately show ?thesis using n by (subst cleanupLoop.simps) simp
  qed
qed


text \<open>A venue on which a canceled order is still open for a number of lookups.\<close>

definition slow_ref :: Ref where
  "slow_ref = \<lparr>rf_Instrument = \<lparr>i_Venue = ''demo'', i_Type = TypeSpot, i_Base = ''BTC'', i_Quote = ''USDT'', i_VenueSymbol = [], i_Rules = noRules\<rparr>,
     rf_ClientOrderID = ''01JG3'', rf_VenueOrderID = ''7''\<rparr>"

definition slow_placer :: "nat OrderPlacer" where
  "slow_placer = \<lparr>op_PlaceOrder = (\<lambda>req w. (Inl (EText ''closed''), w)), op_CancelOrder = (\<lambda>ref w. (Inr (), w)),
     op_OpenOrders = (\<lambda>w. (Inr [], w)),
     op_GetOrder = (\<lambda>ref w. (Inr \<lparr>sn_Ref = ref, sn_Status = (if w = 0 then StatusCanceled else StatusOpen), sn_Price = 1, sn_Qty = 1,
        sn_FilledQty = 0, sn_AvgFillPrice = 0, sn_UpdatedAt = Time 1\<rparr>, w - 1))\<rparr>"

lemma slow_settling: "settling slow_placer [slow_ref] id"
  by (auto simp: settling_def slow_placer_def settled_def Terminal_iff)


subsection \<open>What the contract does not see\<close>

text \<open>A venue that keeps a list of orders and opens a new one for every placement, also for a client order ID that it has.\<close>

definition dup_PlaceOrder :: "Request \<Rightarrow> (Snapshot list, Ack) op" where
  "dup_PlaceOrder req w =
    (let ref = \<lparr>rf_Instrument = rq_Instrument req, rf_ClientOrderID = rq_ClientOrderID req, rf_VenueOrderID = fmt_nat (length w)\<rparr> in
     (Inr \<lparr>ak_Ref = ref, ak_Status = StatusOpen, ak_AcceptedAt = Time 1\<rparr>,
      w @ [\<lparr>sn_Ref = ref, sn_Status = StatusOpen, sn_Price = rq_Price req, sn_Qty = rq_Qty req, sn_FilledQty = 0, sn_AvgFillPrice = 0,
            sn_UpdatedAt = Time 1\<rparr>]))"

definition dup_placer :: "Snapshot list OrderPlacer" where
  "dup_placer = \<lparr>op_PlaceOrder = dup_PlaceOrder,
     op_CancelOrder = (\<lambda>ref w. (Inr (), map (\<lambda>s. if rf_VenueOrderID (sn_Ref s) = rf_VenueOrderID ref then s\<lparr>sn_Status := StatusCanceled\<rparr> else s) w)),
     op_OpenOrders = (\<lambda>w. (Inr (filter (\<lambda>s. \<not> Terminal (sn_Status s)) w), w)),
     op_GetOrder = (\<lambda>ref w. (case find (\<lambda>s. rf_VenueOrderID (sn_Ref s) = rf_VenueOrderID ref) w of
        None \<Rightarrow> Inl (ESentinel ErrNotFound) | Some s \<Rightarrow> Inr s, w))\<rparr>"

definition dup_fixture :: "Snapshot list Fixture" where
  "dup_fixture = \<lparr>ft_Instrument = \<lparr>i_Venue = ''demo'', i_Type = TypeSpot, i_Base = ''BTC'', i_Quote = ''USDT'', i_VenueSymbol = [], i_Rules = noRules\<rparr>,
     ft_MinQty = 1, ft_MinNotional = 10, ft_NonMarketablePrice = Some (\<lambda>w. (Inr 20, w)), ft_EchoesClientOrderID = True,
     ft_Deadline = second, ft_Cleanup = Some (\<lambda>refs w. case CleanupPlacedOrders dup_placer [] refs w of
       (Some r, w') \<Rightarrow> (r, w') | (None, w') \<Rightarrow> (Inl (EText ''running''), w'))\<rparr>"

definition dup_tools :: "Snapshot list Tools" where
  "dup_tools = \<lparr>tl_newID = (\<lambda>w. (''01JG3'', w)), tl_Div = (/)\<rparr>"

text \<open>
  The contract is there to verify that a client order ID is placed once. It compares the open orders with the first
  acknowledgement by the venue's order ID, which a second order does not have: this venue passes, cleanup and
  all, and is left with a second open order under the same client order ID.
\<close>

lemma contract_misses_duplicates:
  "case RunOrderPlacerContract dup_placer dup_tools dup_fixture [] of (errs, w) \<Rightarrow>
     errs = [] \<and> map (\<lambda>s. (rf_ClientOrderID (sn_Ref s), sn_Status s)) w = [(''01JG3'', StatusCanceled), (''01JG3'', StatusOpen)]"
  by code_simp

end
