(* ===== verification/Exchange_Stack.thy ===== *)
theory Exchange_Stack
  imports Trading_Ports
begin

section \<open>Venue connections: rate limiter, circuit breaker, registry\<close>

text \<open>
  \<open>internal/ports/exchange.go\<close> and \<open>internal/exchange\<close>: the \<open>Exchange\<close> port, the two decorators around
  an adapter and the registry of the decorated venues. An adapter's methods run on the state \<open>'v\<close> of its
  venue. The limiter of \<open>golang.org/x/time/rate\<close> and the breaker of \<open>gobreaker\<close> keep states of their own,
  \<open>'l\<close> and \<open>'b\<close>, so a decorated exchange runs on pairs. Both libraries are parameters: \<open>Wait\<close> of the
  limiter, and \<open>Execute\<close> of the breaker, which runs a function returning \<open>any\<close>.
\<close>

subsection \<open>The port\<close>

text \<open>
  A value of the interface \<open>ports.Exchange\<close>. Whether its dynamic type also implements
  \<open>ports.OrderPlacer\<close>, which the decorators find out with a type assertion, is \<open>ex_Placer\<close>.
\<close>

record 'w Exchange =
  ex_ID :: VenueID
  ex_Ticker :: "Instrument \<Rightarrow> ('w, Ticker) op"
  ex_Instruments :: "InstrumentType \<Rightarrow> ('w, Instrument list) op"
  ex_Balances :: "AccountType \<Rightarrow> ('w, Balance list) op"
  ex_Placer :: "'w OrderPlacer option"

definition tradingUnsupported :: "'w Exchange \<Rightarrow> Err" where
  "tradingUnsupported ex = sentinel_with ErrTradingUnsupported (ex_ID ex)"

subsection \<open>The rate limiter\<close>

text \<open>Every method waits for the limiter and calls the inner exchange only when it got a token.\<close>

definition afterWait :: "('l, unit) op \<Rightarrow> ('v, 'a) op \<Rightarrow> ('v \<times> 'l, 'a) op" where
  "afterWait Wait m = (\<lambda>(v, l). case Wait l of
     (Inl err, l1) \<Rightarrow> (Inl (wrap2 (ESentinel ErrLimiterWait) err), (v, l1))
   | (Inr _, l1) \<Rightarrow> (case m v of (r, v1) \<Rightarrow> (r, (v1, l1))))"

definition rl_Ticker :: "'v Exchange \<Rightarrow> ('l, unit) op \<Rightarrow> Instrument \<Rightarrow> ('v \<times> 'l, Ticker) op" where
  "rl_Ticker ex Wait inst = afterWait Wait (ex_Ticker ex inst)"

definition rl_Instruments :: "'v Exchange \<Rightarrow> ('l, unit) op \<Rightarrow> InstrumentType \<Rightarrow> ('v \<times> 'l, Instrument list) op" where
  "rl_Instruments ex Wait typ = afterWait Wait (ex_Instruments ex typ)"

definition rl_Balances :: "'v Exchange \<Rightarrow> ('l, unit) op \<Rightarrow> AccountType \<Rightarrow> ('v \<times> 'l, Balance list) op" where
  "rl_Balances ex Wait acct = afterWait Wait (ex_Balances ex acct)"

definition rl_PlaceOrder :: "'v Exchange \<Rightarrow> ('l, unit) op \<Rightarrow> Request \<Rightarrow> ('v \<times> 'l, Ack) op" where
  "rl_PlaceOrder ex Wait req = (case ex_Placer ex of
     None \<Rightarrow> failS (tradingUnsupported ex)
   | Some p \<Rightarrow> afterWait Wait (op_PlaceOrder p req))"

definition rl_CancelOrder :: "'v Exchange \<Rightarrow> ('l, unit) op \<Rightarrow> Ref \<Rightarrow> ('v \<times> 'l, unit) op" where
  "rl_CancelOrder ex Wait ref = (case ex_Placer ex of
     None \<Rightarrow> failS (tradingUnsupported ex)
   | Some p \<Rightarrow> afterWait Wait (op_CancelOrder p ref))"

definition rl_OpenOrders :: "'v Exchange \<Rightarrow> ('l, unit) op \<Rightarrow> ('v \<times> 'l, Snapshot list) op" where
  "rl_OpenOrders ex Wait = (case ex_Placer ex of
     None \<Rightarrow> failS (tradingUnsupported ex)
   | Some p \<Rightarrow> afterWait Wait (op_OpenOrders p))"

definition rl_GetOrder :: "'v Exchange \<Rightarrow> ('l, unit) op \<Rightarrow> Ref \<Rightarrow> ('v \<times> 'l, Snapshot) op" where
  "rl_GetOrder ex Wait ref = (case ex_Placer ex of
     None \<Rightarrow> failS (tradingUnsupported ex)
   | Some p \<Rightarrow> afterWait Wait (op_GetOrder p ref))"

definition WithRateLimit :: "'v Exchange \<Rightarrow> ('l, unit) op \<Rightarrow> ('v \<times> 'l) Exchange" where
  "WithRateLimit ex limiter = \<lparr>ex_ID = ex_ID ex, ex_Ticker = rl_Ticker ex limiter, ex_Instruments = rl_Instruments ex limiter,
     ex_Balances = rl_Balances ex limiter,
     ex_Placer = Some \<lparr>op_PlaceOrder = rl_PlaceOrder ex limiter, op_CancelOrder = rl_CancelOrder ex limiter,
       op_OpenOrders = rl_OpenOrders ex limiter, op_GetOrder = rl_GetOrder ex limiter\<rparr>\<rparr>"

subsection \<open>The circuit breaker\<close>

text \<open>
  The breaker is a \<open>CircuitBreaker[any]\<close>: the results pass it as values of \<open>any\<close> and are taken out
  again by a type assertion, which panics on a value of another dynamic type. A panic is the error
  \<open>panicked\<close> of the model.
\<close>

datatype Dyn =
    DNil
  | DTicker Ticker
  | DInstruments "Instrument list"
  | DBalances "Balance list"
  | DAck Ack
  | DSnapshots "Snapshot list"
  | DSnapshot Snapshot

definition panicked :: Err where
  "panicked = EText ''panic: interface conversion''"

fun asTicker :: "Dyn \<Rightarrow> Ticker option" where
  "asTicker (DTicker t) = Some t"
| "asTicker _ = None"

fun asInstruments :: "Dyn \<Rightarrow> (Instrument list) option" where
  "asInstruments (DInstruments xs) = Some xs"
| "asInstruments _ = None"

fun asBalances :: "Dyn \<Rightarrow> (Balance list) option" where
  "asBalances (DBalances xs) = Some xs"
| "asBalances _ = None"

fun asAck :: "Dyn \<Rightarrow> Ack option" where
  "asAck (DAck a) = Some a"
| "asAck _ = None"

fun asSnapshots :: "Dyn \<Rightarrow> (Snapshot list) option" where
  "asSnapshots (DSnapshots xs) = Some xs"
| "asSnapshots _ = None"

fun asSnapshot :: "Dyn \<Rightarrow> Snapshot option" where
  "asSnapshot (DSnapshot x) = Some x"
| "asSnapshot _ = None"

text \<open>\<open>func() (any, error)\<close> around a call, and \<open>v.(T)\<close> on what the breaker returns.\<close>

definition boxed :: "('a \<Rightarrow> Dyn) \<Rightarrow> ('w, 'a) op \<Rightarrow> ('w, Dyn) op" where
  "boxed box m = bindS m (\<lambda>x. returnS (box x))"

definition assertType :: "(Dyn \<Rightarrow> 'a option) \<Rightarrow> Dyn \<Rightarrow> ('w, 'a) op" where
  "assertType unbox v = (case unbox v of None \<Rightarrow> failS panicked | Some x \<Rightarrow> returnS x)"

type_synonym ('w, 'b) execute = "('w, Dyn) op \<Rightarrow> ('w \<times> 'b, Dyn) op"

definition br_Ticker :: "'w Exchange \<Rightarrow> ('w, 'b) execute \<Rightarrow> Instrument \<Rightarrow> ('w \<times> 'b, Ticker) op" where
  "br_Ticker ex Execute inst = bindS (Execute (boxed DTicker (ex_Ticker ex inst))) (assertType asTicker)"

definition br_Instruments :: "'w Exchange \<Rightarrow> ('w, 'b) execute \<Rightarrow> InstrumentType \<Rightarrow> ('w \<times> 'b, Instrument list) op" where
  "br_Instruments ex Execute typ =
     bindS (Execute (boxed DInstruments (ex_Instruments ex typ))) (assertType asInstruments)"

definition br_Balances :: "'w Exchange \<Rightarrow> ('w, 'b) execute \<Rightarrow> AccountType \<Rightarrow> ('w \<times> 'b, Balance list) op" where
  "br_Balances ex Execute acct = bindS (Execute (boxed DBalances (ex_Balances ex acct))) (assertType asBalances)"

definition br_PlaceOrder :: "'w Exchange \<Rightarrow> ('w, 'b) execute \<Rightarrow> Request \<Rightarrow> ('w \<times> 'b, Ack) op" where
  "br_PlaceOrder ex Execute req = (case ex_Placer ex of
     None \<Rightarrow> failS (tradingUnsupported ex)
   | Some p \<Rightarrow> bindS (Execute (boxed DAck (op_PlaceOrder p req))) (assertType asAck))"

definition br_CancelOrder :: "'w Exchange \<Rightarrow> ('w, 'b) execute \<Rightarrow> Ref \<Rightarrow> ('w \<times> 'b, unit) op" where
  "br_CancelOrder ex Execute ref = (case ex_Placer ex of
     None \<Rightarrow> failS (tradingUnsupported ex)
   | Some p \<Rightarrow> bindS (Execute (boxed (\<lambda>_. DNil) (op_CancelOrder p ref))) (\<lambda>_. returnS ()))"

definition br_OpenOrders :: "'w Exchange \<Rightarrow> ('w, 'b) execute \<Rightarrow> ('w \<times> 'b, Snapshot list) op" where
  "br_OpenOrders ex Execute = (case ex_Placer ex of
     None \<Rightarrow> failS (tradingUnsupported ex)
   | Some p \<Rightarrow> bindS (Execute (boxed DSnapshots (op_OpenOrders p))) (assertType asSnapshots))"

definition br_GetOrder :: "'w Exchange \<Rightarrow> ('w, 'b) execute \<Rightarrow> Ref \<Rightarrow> ('w \<times> 'b, Snapshot) op" where
  "br_GetOrder ex Execute ref = (case ex_Placer ex of
     None \<Rightarrow> failS (tradingUnsupported ex)
   | Some p \<Rightarrow> bindS (Execute (boxed DSnapshot (op_GetOrder p ref))) (assertType asSnapshot))"

record Settings =
  se_Name :: string
  se_Timeout :: Duration
  se_IsSuccessful :: "Err option \<Rightarrow> bool"

definition WithBreaker :: "(Settings \<Rightarrow> ('w, 'b) execute) \<Rightarrow> 'w Exchange \<Rightarrow> Settings \<Rightarrow> ('w \<times> 'b) Exchange" where
  "WithBreaker NewCircuitBreaker ex settings = (let cb = NewCircuitBreaker settings in
     \<lparr>ex_ID = ex_ID ex, ex_Ticker = br_Ticker ex cb, ex_Instruments = br_Instruments ex cb,
      ex_Balances = br_Balances ex cb,
      ex_Placer = Some \<lparr>op_PlaceOrder = br_PlaceOrder ex cb, op_CancelOrder = br_CancelOrder ex cb,
        op_OpenOrders = br_OpenOrders ex cb, op_GetOrder = br_GetOrder ex cb\<rparr>\<rparr>)"

definition isBreakerSuccess :: "Err option \<Rightarrow> bool" where
  "isBreakerSuccess err = (case err of None \<Rightarrow> True
    | Some e \<Rightarrow> errors_Is e ErrAuth \<or> errors_Is e ErrUnsupportedAccount \<or> errors_Is e ErrNotFound
        \<or> errors_Is e ErrNoVenueOrderID \<or> errors_Is e ContextCanceled \<or> errors_Is e ErrLimiterWait)"

definition breakerSettings :: "VenueID \<Rightarrow> Settings" where
  "breakerSettings venue = \<lparr>se_Name = venue, se_Timeout = 30 * second, se_IsSuccessful = isBreakerSuccess\<rparr>"

definition Decorate ::
  "(Float64 \<Rightarrow> int \<Rightarrow> ('l, unit) op) \<Rightarrow> (Settings \<Rightarrow> ('v \<times> 'l, 'b) execute) \<Rightarrow> 'v Exchange \<Rightarrow> Float64 \<Rightarrow> int
    \<Rightarrow> (('v \<times> 'l) \<times> 'b) Exchange" where
  "Decorate NewLimiter NewCircuitBreaker ex rps burst =
    (let limited = WithRateLimit ex (NewLimiter rps burst) in
     WithBreaker NewCircuitBreaker limited (breakerSettings (ex_ID ex)))"

subsection \<open>The registry\<close>

record 'w Registry =
  rg_byID :: "VenueID \<Rightarrow> 'w Exchange option"
  rg_order :: "'w Exchange list"

definition register :: "'w Exchange \<Rightarrow> 'w Registry \<Rightarrow> 'w Registry" where
  "register ex r = (if rg_byID r (ex_ID ex) \<noteq> None then r
     else r\<lparr>rg_byID := (rg_byID r)(ex_ID ex \<mapsto> ex), rg_order := rg_order r @ [ex]\<rparr>)"

definition NewRegistry :: "'w Exchange list \<Rightarrow> 'w Registry" where
  "NewRegistry exchanges = fold register exchanges \<lparr>rg_byID = (\<lambda>_. None), rg_order = []\<rparr>"

definition rg_Get :: "'w Registry \<Rightarrow> VenueID \<Rightarrow> Err + 'w Exchange" where
  "rg_Get r venue = (case rg_byID r venue of
     None \<Rightarrow> Inl (EText (''venue '' @ fmt_q venue @ '' not registered''))
   | Some ex \<Rightarrow> Inr ex)"

definition rg_All :: "'w Registry \<Rightarrow> 'w Exchange list" where
  "rg_All r = rg_order r"

subsection \<open>The contract of a registry\<close>

text \<open>
  What the users of \<open>exchange.Registry\<close> rely on: the venues it lists have different IDs, and looking up
  an ID finds the listed venue that has it.
\<close>

locale venue_registry =
  fixes Get :: "VenueID \<Rightarrow> Err + 'w Exchange"
    and All :: "'w Exchange list"
  assumes ids_distinct: "distinct (map ex_ID All)"
    and Get_iff: "Get venue = Inr ex \<longleftrightarrow> ex \<in> set All \<and> ex_ID ex = venue"
begin

lemma Get_listed: "ex \<in> set All \<Longrightarrow> Get (ex_ID ex) = Inr ex"
  by (simp add: Get_iff)

lemma Get_total: "(\<exists>ex. Get venue = Inr ex) \<longleftrightarrow> venue \<in> ex_ID ` set All"
  by (auto simp: Get_iff)

lemma Get_unique: "ex \<in> set All \<Longrightarrow> ey \<in> set All \<Longrightarrow> ex_ID ex = ex_ID ey \<Longrightarrow> ex = ey"
  using Get_listed by (metis sum.inject(2))

end

text \<open>The loop of \<open>NewRegistry\<close> keeps the map and the list in step.\<close>

definition in_step :: "'w Registry \<Rightarrow> bool" where
  "in_step r \<longleftrightarrow> distinct (map ex_ID (rg_order r))
     \<and> (\<forall>venue ex. rg_byID r venue = Some ex \<longleftrightarrow> ex \<in> set (rg_order r) \<and> ex_ID ex = venue)"

lemma register_in_step: "in_step r \<Longrightarrow> in_step (register ex r)"
  unfolding in_step_def register_def by (auto split: if_splits)

lemma registered_ids: "in_step r \<Longrightarrow> ex_ID ` set (rg_order (register ex r)) = insert (ex_ID ex) (ex_ID ` set (rg_order r))"
  unfolding in_step_def register_def by (auto split: if_splits intro: rev_image_eqI)

lemma fold_register: "in_step r \<Longrightarrow> in_step (fold register exs r)
    \<and> ex_ID ` set (rg_order (fold register exs r)) = ex_ID ` set (rg_order r) \<union> ex_ID ` set exs"
  by (induction exs arbitrary: r) (simp_all add: register_in_step registered_ids)

lemma NewRegistry_in_step: "in_step (NewRegistry exs)"
  and NewRegistry_ids: "ex_ID ` set (rg_All (NewRegistry exs)) = ex_ID ` set exs"
proof -
  have "in_step \<lparr>rg_byID = (\<lambda>_. None), rg_order = [] :: 'w Exchange list\<rparr>" by (simp add: in_step_def)
  from fold_register [OF this, of exs]
  show "in_step (NewRegistry exs)" "ex_ID ` set (rg_All (NewRegistry exs)) = ex_ID ` set exs"
    by (simp_all add: NewRegistry_def rg_All_def)
qed

lemma fold_register_subset: "set (rg_order (fold register exs r)) \<subseteq> set (rg_order r) \<union> set exs"
proof (induction exs arbitrary: r)
  case (Cons ex exs)
  have "set (rg_order (register ex r)) \<subseteq> insert ex (set (rg_order r))" by (simp add: register_def subset_insertI)
  with Cons.IH [of "register ex r"] show ?case by auto
qed simp

lemma NewRegistry_subset: "set (rg_All (NewRegistry exs)) \<subseteq> set exs"
  using fold_register_subset [of exs "\<lparr>rg_byID = (\<lambda>_. None), rg_order = []\<rparr>"] by (simp add: NewRegistry_def rg_All_def)

interpretation venues: venue_registry "rg_Get (NewRegistry exs)" "rg_All (NewRegistry exs)" for exs
proof
  note s = NewRegistry_in_step [of exs, unfolded in_step_def]
  show "distinct (map ex_ID (rg_All (NewRegistry exs)))" using s by (simp add: rg_All_def)
  show "rg_Get (NewRegistry exs) venue = Inr ex \<longleftrightarrow> ex \<in> set (rg_All (NewRegistry exs)) \<and> ex_ID ex = venue" for venue ex
  proof -
    have "rg_Get (NewRegistry exs) venue = Inr ex \<longleftrightarrow> rg_byID (NewRegistry exs) venue = Some ex"
      by (simp add: rg_Get_def split: option.split)
    with s show ?thesis by (simp add: rg_All_def)
  qed
qed

subsection \<open>What a decorated venue does\<close>

text \<open>
  The documented behaviour of \<open>Execute\<close>: a breaker that accepts the request runs the function once,
  returns what it returned, and is told whether \<open>IsSuccessful\<close> takes its error for a success; a breaker
  that does not accept it returns an error of its own and runs nothing.
\<close>

definition err_of :: "Err + 'a \<Rightarrow> Err option" where
  "err_of r = (case r of Inl e \<Rightarrow> Some e | Inr _ \<Rightarrow> None)"

definition executes :: "(Err option \<Rightarrow> bool) \<Rightarrow> ('b, unit) op \<Rightarrow> (bool \<Rightarrow> 'b \<Rightarrow> 'b) \<Rightarrow> ('w, 'b) execute \<Rightarrow> bool" where
  "executes ok accept report exe \<longleftrightarrow> (\<forall>f w b. exe f (w, b) = (case accept b of
      (Inl e, b1) \<Rightarrow> (Inl e, (w, b1))
    | (Inr _, b1) \<Rightarrow> (case f w of (r, w1) \<Rightarrow> (r, (w1, report (ok (err_of r)) b1)))))"

text \<open>The seven methods of an exchange as one call, with its result as a value of \<open>any\<close>.\<close>

datatype Method =
    MTicker Instrument
  | MInstruments InstrumentType
  | MBalances AccountType
  | MPlaceOrder Request
  | MCancelOrder Ref
  | MOpenOrders
  | MGetOrder Ref

fun trades :: "Method \<Rightarrow> bool" where
  "trades (MTicker _) = False"
| "trades (MInstruments _) = False"
| "trades (MBalances _) = False"
| "trades _ = True"

definition onPlacer :: "'w Exchange \<Rightarrow> ('w OrderPlacer \<Rightarrow> ('w, Dyn) op) \<Rightarrow> ('w, Dyn) op" where
  "onPlacer ex m = (case ex_Placer ex of None \<Rightarrow> failS (tradingUnsupported ex) | Some p \<Rightarrow> m p)"

fun invoke :: "'w Exchange \<Rightarrow> Method \<Rightarrow> ('w, Dyn) op" where
  "invoke ex (MTicker inst) = boxed DTicker (ex_Ticker ex inst)"
| "invoke ex (MInstruments typ) = boxed DInstruments (ex_Instruments ex typ)"
| "invoke ex (MBalances acct) = boxed DBalances (ex_Balances ex acct)"
| "invoke ex (MPlaceOrder req) = onPlacer ex (\<lambda>p. boxed DAck (op_PlaceOrder p req))"
| "invoke ex (MCancelOrder ref) = onPlacer ex (\<lambda>p. boxed (\<lambda>_. DNil) (op_CancelOrder p ref))"
| "invoke ex MOpenOrders = onPlacer ex (\<lambda>p. boxed DSnapshots (op_OpenOrders p))"
| "invoke ex (MGetOrder ref) = onPlacer ex (\<lambda>p. boxed DSnapshot (op_GetOrder p ref))"

text \<open>
  The call through the stack in one piece. The breaker decides first; then the capability is checked;
  then the limiter is asked for a token; only then the venue.
\<close>

definition guarded ::
  "('b, unit) op \<Rightarrow> (bool \<Rightarrow> 'b \<Rightarrow> 'b) \<Rightarrow> ('l, unit) op \<Rightarrow> 'v Exchange \<Rightarrow> Method \<Rightarrow> (('v \<times> 'l) \<times> 'b, Dyn) op" where
  "guarded accept report Wait ex m = (\<lambda>((v, l), b). case accept b of
      (Inl e, b1) \<Rightarrow> (Inl e, ((v, l), b1))
    | (Inr _, b1) \<Rightarrow>
        if trades m \<and> ex_Placer ex = None then (Inl (tradingUnsupported ex), ((v, l), report False b1))
        else (case Wait l of
            (Inl e, l1) \<Rightarrow> (Inl (wrap2 (ESentinel ErrLimiterWait) e), ((v, l1), report True b1))
          | (Inr _, l1) \<Rightarrow> (case invoke ex m v of
              (r, v1) \<Rightarrow> (r, ((v1, l1), report (isBreakerSuccess (err_of r)) b1)))))"

lemma Decorate_fields:
  "ex_ID (Decorate NL NCB ex rps burst) = ex_ID ex"
  "ex_Placer (Decorate NL NCB ex rps burst) \<noteq> None"
  by (simp_all add: Decorate_def WithBreaker_def WithRateLimit_def Let_def)

lemma executes_eq: "executes ok accept report exe \<Longrightarrow> exe f (w, b) = (case accept b of
      (Inl e, b1) \<Rightarrow> (Inl e, (w, b1))
    | (Inr _, b1) \<Rightarrow> (case f w of (r, w1) \<Rightarrow> (r, (w1, report (ok (err_of r)) b1))))"
  by (simp add: executes_def)

lemma boxed_assert:
  assumes "\<And>x. unbox (box x) = Some x" "executes ok accept report exe"
  shows "boxed box (bindS (exe (boxed box m)) (assertType unbox)) = exe (boxed box m)"
proof (rule ext, clarify)
  fix w b
  show "boxed box (bindS (exe (boxed box m)) (assertType unbox)) (w, b) = exe (boxed box m) (w, b)"
    by (auto simp: boxed_def bindS_def returnS_def failS_def assertType_def assms(1) executes_eq [OF assms(2)]
        split: prod.splits sum.splits)
qed

lemma boxed_unit:
  assumes "executes ok accept report exe"
  shows "boxed (\<lambda>_. DNil) (bindS (exe (boxed (\<lambda>_. DNil) m)) (\<lambda>_. returnS ())) = exe (boxed (\<lambda>_. DNil) m)"
proof (rule ext, clarify)
  fix w b
  show "boxed (\<lambda>_. DNil) (bindS (exe (boxed (\<lambda>_. DNil) m)) (\<lambda>_. returnS ())) (w, b) = exe (boxed (\<lambda>_. DNil) m) (w, b)"
    by (auto simp: boxed_def bindS_def returnS_def failS_def executes_eq [OF assms] split: prod.splits sum.splits)
qed

lemma boxed_afterWait: "boxed box (afterWait Wait m) = afterWait Wait (boxed box m)"
  by (rule ext) (auto simp: boxed_def afterWait_def bindS_def returnS_def split: prod.splits sum.splits)

lemma boxed_fail: "boxed box (failS e) = failS e"
  by (rule ext) (simp add: boxed_def bindS_def failS_def)

text \<open>The limiter alone, and the breaker around any exchange that can trade.\<close>

lemma invoke_limited: "invoke (WithRateLimit ex limiter) m =
    (if trades m \<and> ex_Placer ex = None then failS (tradingUnsupported ex) else afterWait limiter (invoke ex m))"
  by (cases m) (auto simp: WithRateLimit_def onPlacer_def rl_Ticker_def rl_Instruments_def rl_Balances_def
      rl_PlaceOrder_def rl_CancelOrder_def rl_OpenOrders_def rl_GetOrder_def boxed_afterWait boxed_fail split: option.splits)

lemma invoke_breaker:
  assumes "executes ok accept report (NCB settings)" "ex_Placer ex \<noteq> None"
  shows "invoke (WithBreaker NCB ex settings) m = NCB settings (invoke ex m)"
  using assms(2) by (cases m) (auto simp: WithBreaker_def Let_def onPlacer_def br_Ticker_def br_Instruments_def br_Balances_def
      br_PlaceOrder_def br_CancelOrder_def br_OpenOrders_def br_GetOrder_def
      boxed_assert [OF _ assms(1)] boxed_unit [OF assms(1)] split: option.splits)

lemma breaker_verdicts [simp]:
  "isBreakerSuccess (Some (tradingUnsupported ex)) = False"
  "isBreakerSuccess (Some (wrap2 (ESentinel ErrLimiterWait) e)) = True"
  by (simp_all add: isBreakerSuccess_def tradingUnsupported_def)


text \<open>A limiter that counts its tokens down, and a breaker that opens after five failures in a row.\<close>

definition demo_limiter :: "Float64 \<Rightarrow> int \<Rightarrow> (nat, unit) op" where
  "demo_limiter rps burst l = (if l = 0 then (Inl (ESentinel ContextDeadlineExceeded), 0) else (Inr (), l - 1))"

definition demo_accept :: "(nat, unit) op" where
  "demo_accept b = (if b > 5 then (Inl (EText ''circuit breaker is open''), b) else (Inr (), b))"

definition demo_report :: "bool \<Rightarrow> nat \<Rightarrow> nat" where
  "demo_report ok b = (if ok then 0 else Suc b)"

definition demo_breaker :: "Settings \<Rightarrow> ('w, nat) execute" where
  "demo_breaker settings f = (\<lambda>(w, b). case demo_accept b of
      (Inl e, b1) \<Rightarrow> (Inl e, (w, b1))
    | (Inr _, b1) \<Rightarrow> (case f w of (r, w1) \<Rightarrow> (r, (w1, demo_report (se_IsSuccessful settings (err_of r)) b1))))"

definition demo_exchange :: "nat Exchange" where
  "demo_exchange = \<lparr>ex_ID = ''bybit'', ex_Ticker = (\<lambda>_. failS (ESentinel ErrVenueUnavailable)), ex_Instruments = (\<lambda>_. returnS []),
     ex_Balances = (\<lambda>acct n. if acct = AccTypeSpot then (Inl (ESentinel ErrVenueUnavailable), Suc n)
       else (Inl (sentinel_with ErrUnsupportedAccount acct), Suc n)), ex_Placer = None\<rparr>"

lemma demo_breaker_executes: "executes (se_IsSuccessful settings) demo_accept demo_report (demo_breaker settings)"
  by (simp add: executes_def demo_breaker_def)


end
