(* ===== verification/Snapshot_Ports.thy ===== *)
theory Snapshot_Ports
  imports Order_Service Exchange_Stack
begin

section \<open>Checkpoints and the balance series\<close>

text \<open>
  What the snapshot service writes to. \<open>internal/snapshot/checkpoint.go\<close>: the checkpoint.
  \<open>internal/adapters/postgres/postgres.go\<close>: the checkpoint store over its two statements.
  \<open>internal/adapters/questdb/questdb.go\<close>: the series writer over the line sender of the QuestDB client,
  which is a parameter. The contract the service relies on is the locale \<open>snapshot_ports\<close>.
\<close>

subsection \<open>The checkpoint store\<close>

record Checkpoint =
  cp_ID :: string
  cp_Account :: AccountRef
  cp_TakenAt :: Time
  cp_BalanceCount :: int
  cp_Status :: string
  cp_Error :: string

definition StatusOK :: string where "StatusOK = ''ok''"
definition StatusFailed :: string where "StatusFailed = ''failed''"

lemma status_differ [simp]: "StatusOK \<noteq> StatusFailed" "StatusFailed \<noteq> StatusOK"
  by (simp_all add: StatusOK_def StatusFailed_def)

definition wrap32 :: "int \<Rightarrow> int" where
  "wrap32 i = (i + 2 ^ 31) mod 2 ^ 32 - 2 ^ 31"

definition RecordSnapshot :: "Checkpoint \<Rightarrow> unit dbop" where
  "RecordSnapshot c = autocommit (q_RecordSnapshot (cp_ID c) (a_Venue (cp_Account c)) (a_Type (cp_Account c))
     (cp_TakenAt c) (wrap32 (cp_BalanceCount c)) (cp_Status c) (cp_Error c))"

definition checkpointOf :: "CheckpointRow \<Rightarrow> Checkpoint" where
  "checkpointOf row = \<lparr>cp_ID = ck_ID row, cp_Account = \<lparr>a_Venue = ck_Venue row, a_Type = ck_AccountType row\<rparr>,
     cp_TakenAt = ck_TakenAt row, cp_BalanceCount = ck_BalanceCount row, cp_Status = ck_Status row, cp_Error = ck_Error row\<rparr>"

definition LastSnapshot :: "AccountRef \<Rightarrow> Checkpoint dbop" where
  "LastSnapshot ref db = (case autocommit (q_LastSnapshot (a_Venue ref) (a_Type ref)) db of
     (Inl err, db1) \<Rightarrow> (Inl (wrap ''postgres: last snapshot'' err), db1)
   | (Inr None, db1) \<Rightarrow> (Inl (ESentinel ErrNotFound), db1)
   | (Inr (Some row), db1) \<Rightarrow> (Inr (checkpointOf row), db1))"

subsection \<open>The series writer\<close>

text \<open>
  One line of the ILP protocol, as the chain of \<open>Table\<close>, \<open>Symbol\<close> and \<open>Float64Column\<close> builds it; \<open>At\<close>
  ends it and reports what the chain could not encode.
\<close>

record Line =
  li_Table :: string
  li_Symbols :: "(string \<times> string) list"
  li_Columns :: "(string \<times> Float64) list"
  li_At :: Time

record 'q LineSender =
  ls_At :: "Line \<Rightarrow> ('q, unit) op"
  ls_Flush :: "('q, unit) op"
  ls_Close :: "('q, unit) op"

text \<open>\<open>InexactFloat64\<close> of the decimal library is the parameter \<open>float\<close>.\<close>

definition balanceLine :: "(Decimal \<Rightarrow> Float64) \<Rightarrow> AccountSnapshot \<Rightarrow> Balance \<Rightarrow> Line" where
  "balanceLine float s b = \<lparr>li_Table = ''balances'',
     li_Symbols = [(''venue'', a_Venue (s_Account s)), (''account'', a_Type (s_Account s)), (''currency'', b_Currency b)],
     li_Columns = [(''total'', float (b_Total b)), (''free'', float (b_Free b)), (''locked'', float (b_Locked b))],
     li_At = s_TakenAt s\<rparr>"

definition WriteBalanceSnapshot :: "'q LineSender \<Rightarrow> (Decimal \<Rightarrow> Float64) \<Rightarrow> AccountSnapshot \<Rightarrow> ('q, unit) op" where
  "WriteBalanceSnapshot sender float s = forS (\<lambda>b.
     wrapS (''questdb: write balance '' @ a_Venue (s_Account s) @ ''/'' @ b_Currency b)
       (ls_At sender (balanceLine float s b))) (NonZero s)"

definition tickerLine :: "(Decimal \<Rightarrow> Float64) \<Rightarrow> Ticker \<Rightarrow> Line" where
  "tickerLine float t = \<lparr>li_Table = ''tickers'',
     li_Symbols = [(''venue'', i_Venue (t_Instrument t)), (''symbol'', Pair (t_Instrument t))],
     li_Columns = [(''bid'', float (t_Bid t)), (''ask'', float (t_Ask t)), (''last'', float (t_Last t)),
       (''bid_size'', float (t_BidSize t)), (''ask_size'', float (t_AskSize t))],
     li_At = t_At t\<rparr>"

definition WriteTicker :: "'q LineSender \<Rightarrow> (Decimal \<Rightarrow> Float64) \<Rightarrow> Ticker \<Rightarrow> ('q, unit) op" where
  "WriteTicker sender float t = wrapS (''questdb: write ticker '' @ Key (t_Instrument t)) (ls_At sender (tickerLine float t))"

definition Flush :: "'q LineSender \<Rightarrow> ('q, unit) op" where
  "Flush sender = wrapS ''questdb: flush'' (ls_Flush sender)"

definition Writer_Close :: "'q LineSender \<Rightarrow> ('q, unit) op" where
  "Writer_Close sender = ls_Close sender"

text \<open>
  The documented behaviour of the sender: what \<open>At\<close> accepts is buffered or already sent, a successful
  \<open>Flush\<close> has stored all that was buffered, and nothing stored is lost.
\<close>

definition sender_laws :: "'q LineSender \<Rightarrow> ('q \<Rightarrow> Line set) \<Rightarrow> ('q \<Rightarrow> Line set) \<Rightarrow> bool" where
  "sender_laws sender buffered kept \<longleftrightarrow>
     (\<forall>line q r q'. ls_At sender line q = (r, q') \<longrightarrow> kept q \<subseteq> kept q'
        \<and> (r = Inr () \<longrightarrow> insert line (buffered q \<union> kept q) \<subseteq> buffered q' \<union> kept q'))
   \<and> (\<forall>q r q'. ls_Flush sender q = (r, q') \<longrightarrow> kept q \<subseteq> kept q' \<and> (r = Inr () \<longrightarrow> buffered q \<subseteq> kept q'))"

lemma sender_At:
  assumes "sender_laws sender buffered kept" "ls_At sender line q = (r, q')"
  shows "kept q \<subseteq> kept q'" "r = Inr () \<Longrightarrow> insert line (buffered q \<union> kept q) \<subseteq> buffered q' \<union> kept q'"
  using assms unfolding sender_laws_def by blast+

lemma sender_Flush:
  assumes "sender_laws sender buffered kept" "ls_Flush sender q = (r, q')"
  shows "kept q \<subseteq> kept q'" "r = Inr () \<Longrightarrow> buffered q \<subseteq> kept q'"
  using assms unfolding sender_laws_def by blast+

definition snapshotLines :: "(Decimal \<Rightarrow> Float64) \<Rightarrow> AccountSnapshot \<Rightarrow> Line set" where
  "snapshotLines float s = balanceLine float s ` set (NonZero s)"

lemma writes_keep:
  assumes "sender_laws sender buffered kept"
    and "forS (\<lambda>b. wrapS (txt b) (ls_At sender (line b))) bs q = (r, q')"
  shows "kept q \<subseteq> kept q'"
proof (rule keepsD [OF keeps_for assms(2)])
  let ?R = "\<lambda>q q'. kept q \<subseteq> kept q'"
  show "reflp ?R" "transp ?R" by (auto intro: reflpI transpI)
  show "keeps ?R (wrapS (txt b) (ls_At sender (line b)))" for b
    using sender_At(1) [OF assms(1)] by (simp add: keeps_def) (metis prod.collapse)
qed

lemma writes_buffer:
  assumes "sender_laws sender buffered kept"
    and "forS (\<lambda>b. wrapS (txt b) (ls_At sender (line b))) bs q = (Inr u, q')"
  shows "line ` set bs \<union> buffered q \<union> kept q \<subseteq> buffered q' \<union> kept q'"
  using assms(2)
proof (induction bs arbitrary: q)
  case Nil
  then show ?case by simp
next
  case (Cons b bs)
  then obtain q1 where one: "ls_At sender (line b) q = (Inr (), q1)"
    and rest: "forS (\<lambda>b. wrapS (txt b) (ls_At sender (line b))) bs q1 = (Inr u, q')" by auto
  from Cons.IH [OF rest] sender_At(2) [OF assms(1) one] show ?case by auto
qed

lemma Write_lines:
  assumes "sender_laws sender buffered kept" "WriteBalanceSnapshot sender float s q = (r, q')"
  shows "kept q \<subseteq> kept q'" "r = Inr () \<Longrightarrow> snapshotLines float s \<subseteq> buffered q' \<union> kept q'"
proof -
  note run = assms(2) [unfolded WriteBalanceSnapshot_def]
  show "kept q \<subseteq> kept q'" by (rule writes_keep [OF assms(1) run])
  show "snapshotLines float s \<subseteq> buffered q' \<union> kept q'" if "r = Inr ()"
    using writes_buffer [OF assms(1) run [unfolded that]] by (auto simp: snapshotLines_def)
qed

lemma Flush_lines:
  assumes "sender_laws sender buffered kept" "Flush sender q = (r, q')"
  shows "kept q \<subseteq> kept q'" "r = Inr () \<Longrightarrow> buffered q \<subseteq> kept q'"
proof -
  obtain r1 where 1: "ls_Flush sender q = (r1, q')" and r: "r = Inr () \<longrightarrow> r1 = Inr ()"
    using assms(2) by (cases "ls_Flush sender q") (auto simp: Flush_def wrapS_def mapErrS_def split: sum.splits)
  from sender_Flush [OF assms(1) 1] r show "kept q \<subseteq> kept q'" "r = Inr () \<Longrightarrow> buffered q \<subseteq> kept q'" by auto
qed

end
