(* ===== verification/Snapshot_Service.thy ===== *)
theory Snapshot_Service
  imports Snapshot_Ports
begin

section \<open>The snapshot service\<close>

text \<open>
  \<open>internal/service/snapshot/snapshot.go\<close>: one polling loop per account of a venue. A snapshot fetches
  the balances, writes their rows to the series and flushes them, and only then records the checkpoint
  and announces it. A context is the function that says whether it is done and why; the mutex
  around the series writer is \<open>sn_Lock\<close>, whose waiting lets the other loops write.
\<close>

record 'w BalanceSeriesWriter =
  sw_WriteBalanceSnapshot :: "AccountSnapshot \<Rightarrow> ('w, unit) op"
  sw_Flush :: "('w, unit) op"

record 'w SnapshotRecorder =
  sr_RecordSnapshot :: "Checkpoint \<Rightarrow> ('w, unit) op"

type_synonym 'w ctx = "'w \<Rightarrow> Sentinel option"

definition SubjectTaken :: string where "SubjectTaken = ''snapshot.taken''"

definition recordTimeout :: Duration where "recordTimeout = 5 * second"

record Target =
  tg_Venue :: VenueID
  tg_Account :: AccountType

record 'w SnapshotSvc =
  sn_Get :: "VenueID \<Rightarrow> Err + 'w Exchange"
  sn_series :: "'w BalanceSeriesWriter"
  sn_recorder :: "'w SnapshotRecorder"
  sn_Publish :: "BusPayload BusEvent \<Rightarrow> ('w, unit) op"
  sn_clk :: "'w \<Rightarrow> Time"
  sn_uuid :: "'w \<Rightarrow> string"
  sn_interval :: Duration
  sn_targets :: "Target list"
  sn_Retry :: "'w ctx \<Rightarrow> Duration \<Rightarrow> ('w, Balance list) attempt \<Rightarrow> ('w, Balance list) op"
  sn_Lock :: "'w \<Rightarrow> 'w"
  sn_Unlock :: "'w \<Rightarrow> 'w"
  sn_observeError :: "Target \<Rightarrow> 'w \<Rightarrow> 'w"
  sn_observeSuccess :: "Target \<Rightarrow> Duration \<Rightarrow> Time \<Rightarrow> 'w \<Rightarrow> 'w"
  sn_tick :: "'w \<Rightarrow> bool \<times> 'w" \<comment> \<open>the \<open>select\<close> of the context and the ticker; \<open>True\<close>: the context was first\<close>

text \<open>\<open>context.WithTimeout\<close> at the instant of the call, and \<open>context.WithoutCancel\<close>.\<close>

definition WithTimeout :: "('w \<Rightarrow> Time) \<Rightarrow> 'w \<Rightarrow> 'w ctx \<Rightarrow> Duration \<Rightarrow> 'w ctx" where
  "WithTimeout clk w0 ctx d w = (case ctx w of
     Some e \<Rightarrow> Some e
   | None \<Rightarrow> if time_Add (clk w0) d \<le> clk w then Some ContextDeadlineExceeded else None)"

definition ctxWithoutCancel :: "'w ctx \<Rightarrow> 'w ctx" where
  "ctxWithoutCancel ctx = (\<lambda>_. None)"

text \<open>\<open>s.interval/2\<close> truncates toward zero.\<close>

definition half :: "Duration \<Rightarrow> Duration" where
  "half d = (if d < 0 then - ((- d) div 2) else d div 2)"

definition fetchAttempt :: "'w Exchange \<Rightarrow> AccountType \<Rightarrow> ('w, Balance list) attempt" where
  "fetchAttempt ex acct w = (case ex_Balances ex acct w of
     (Inl err, w1) \<Rightarrow> (Inl (if errors_Is err ErrAuth \<or> errors_Is err ErrUnsupportedAccount
        then Permanent err else Transient err), w1)
   | (Inr bs, w1) \<Rightarrow> (Inr bs, w1))"

definition record_checkpoint :: "'w SnapshotSvc \<Rightarrow> 'w ctx \<Rightarrow> Checkpoint \<Rightarrow> ('w, unit) op" where
  "record_checkpoint s ctx c w = (case sr_RecordSnapshot (sn_recorder s) c w of
     (Inr _, w1) \<Rightarrow> (Inr (), w1)
   | (Inl err, w1) \<Rightarrow> if ctx w1 = Some ContextCanceled then (Inr (), w1)
       else (Inl (wrap ''checkpoint store'' err), w1))"

definition writeSeries :: "'w SnapshotSvc \<Rightarrow> AccountSnapshot \<Rightarrow> ('w, unit) op" where
  "writeSeries s snap w = (case bindS (sw_WriteBalanceSnapshot (sn_series s) snap) (\<lambda>_. sw_Flush (sn_series s)) (sn_Lock s w) of
     (r, w1) \<Rightarrow> (r, sn_Unlock s w1))"

definition newCheckpoint :: "'w SnapshotSvc \<Rightarrow> Target \<Rightarrow> Time \<Rightarrow> 'w \<Rightarrow> Checkpoint" where
  "newCheckpoint s t takenAt w = \<lparr>cp_ID = sn_uuid s w, cp_Account = \<lparr>a_Venue = tg_Venue t, a_Type = tg_Account t\<rparr>,
     cp_TakenAt = takenAt, cp_BalanceCount = 0, cp_Status = [], cp_Error = []\<rparr>"

definition failed :: "Checkpoint \<Rightarrow> Err \<Rightarrow> Checkpoint" where
  "failed c err = c\<lparr>cp_Status := StatusFailed, cp_Error := err_Error err\<rparr>"

definition snapshot :: "'w SnapshotSvc \<Rightarrow> 'w ctx \<Rightarrow> Target \<Rightarrow> ('w, unit) op" where
  "snapshot s ctx t w =
    (case sn_Get s (tg_Venue t) of
       Inl err \<Rightarrow> (Inl err, w)
     | Inr ex \<Rightarrow>
        (let start = sn_clk s w; fetchCtx = WithTimeout (sn_clk s) w ctx (half (sn_interval s)) in
         case sn_Retry s fetchCtx (half (sn_interval s)) (fetchAttempt ex (tg_Account t)) w of (fetched, w1) \<Rightarrow>
         let takenAt = sn_clk s w1; checkpoint = newCheckpoint s t takenAt w1 in
         if ctx w1 \<noteq> None then (Inr (), w1)
         else (case fetched of
            Inl fetchErr \<Rightarrow> record_checkpoint s ctx (failed checkpoint fetchErr) (sn_observeError s t w1)
          | Inr balances \<Rightarrow>
             (let snap = \<lparr>s_Account = cp_Account checkpoint, s_TakenAt = takenAt, s_Balances = balances\<rparr> in
              case writeSeries s snap w1 of
                (Inl err, w2) \<Rightarrow> record_checkpoint s ctx (failed checkpoint err) (sn_observeError s t w2)
              | (Inr _, w2) \<Rightarrow>
                 (let recordCtx = WithTimeout (sn_clk s) w2 (ctxWithoutCancel ctx) recordTimeout;
                      ok = checkpoint\<lparr>cp_Status := StatusOK, cp_BalanceCount := int (length (NonZero snap))\<rparr> in
                  case record_checkpoint s recordCtx ok w2 of
                    (Inl err, w3) \<Rightarrow> (Inl err, w3)
                  | (Inr _, w3) \<Rightarrow> sn_Publish s \<lparr>be_Subject = SubjectTaken, be_At = takenAt, be_Payload = SnapshotPayload snap\<rparr>
                      (sn_observeSuccess s t (time_Sub (sn_clk s w3) start) takenAt w3))))))"

text \<open>The loop of a target; \<open>None\<close> says that it is still polling after so many turns.\<close>

fun pollTurns :: "'w SnapshotSvc \<Rightarrow> 'w ctx \<Rightarrow> Target \<Rightarrow> nat \<Rightarrow> 'w \<Rightarrow> (Err + unit) option \<times> 'w" where
  "pollTurns s ctx t 0 w = (None, w)"
| "pollTurns s ctx t (Suc n) w = (case sn_tick s w of (ended, w1) \<Rightarrow>
     if ended then (Some (Inr ()), w1)
     else (case snapshot s ctx t w1 of
        (Inl err, w2) \<Rightarrow> (Some (Inl err), w2)
      | (Inr _, w2) \<Rightarrow> pollTurns s ctx t n w2))"

definition pollLoop :: "'w SnapshotSvc \<Rightarrow> 'w ctx \<Rightarrow> Target \<Rightarrow> nat \<Rightarrow> 'w \<Rightarrow> (Err + unit) option \<times> 'w" where
  "pollLoop s ctx t n w = (case snapshot s ctx t w of
     (Inl err, w1) \<Rightarrow> (Some (Inl err), w1)
   | (Inr _, w1) \<Rightarrow> pollTurns s ctx t n w1)"

text \<open>\<open>Run\<close> starts a loop for every target.\<close>

definition Run_targets :: "'w SnapshotSvc \<Rightarrow> 'w ctx \<Rightarrow> (nat \<Rightarrow> 'w \<Rightarrow> (Err + unit) option \<times> 'w) list" where
  "Run_targets s ctx = map (pollLoop s ctx) (sn_targets s)"

subsection \<open>What the service relies on and guarantees\<close>

text \<open>
  A checkpoint row describes a snapshot: the account, the instant as Postgres keeps it, and the number of
  rows. It is anchored when, if it says ok, the rows of a snapshot it describes are stored in the series.
\<close>

definition describes :: "CheckpointRow \<Rightarrow> AccountSnapshot \<Rightarrow> bool" where
  "describes c snap \<longleftrightarrow> ck_Venue c = a_Venue (s_Account snap) \<and> ck_AccountType c = a_Type (s_Account snap)
     \<and> ck_TakenAt c = pg_time (s_TakenAt snap) \<and> ck_BalanceCount c = wrap32 (int (length (NonZero snap)))"

definition anchored :: "(Decimal \<Rightarrow> Float64) \<Rightarrow> Line set \<Rightarrow> CheckpointRow \<Rightarrow> bool" where
  "anchored float S c \<longleftrightarrow> (ck_Status c = StatusOK \<longrightarrow> (\<exists>snap. describes c snap \<and> snapshotLines float snap \<subseteq> S))"

definition announces :: "BusPayload BusEvent \<times> CheckpointRow list \<Rightarrow> bool" where
  "announces x \<longleftrightarrow> (\<exists>snap c. fst x = \<lparr>be_Subject = SubjectTaken, be_At = s_TakenAt snap, be_Payload = SnapshotPayload snap\<rparr>
     \<and> c \<in> set (snd x) \<and> ck_Status c = StatusOK \<and> describes c snap)"

text \<open>
  The relation every step of a loop keeps, and may assume of the other loops: in a world whose parts
  keep their promises they go on keeping them, stored rows stay, every
  checkpoint that is added is anchored, and what is announced has its ok checkpoint.
\<close>

definition safely ::
  "('w \<Rightarrow> bool) \<Rightarrow> (Decimal \<Rightarrow> Float64) \<Rightarrow> ('w \<Rightarrow> Line set) \<Rightarrow> ('w \<Rightarrow> CheckpointRow list)
    \<Rightarrow> ('w \<Rightarrow> (BusPayload BusEvent \<times> CheckpointRow list) list) \<Rightarrow> 'w \<Rightarrow> 'w \<Rightarrow> bool" where
  "safely good float stored ckpts said w w' \<longleftrightarrow> (good w \<longrightarrow> good w' \<and> stored w \<subseteq> stored w'
     \<and> (\<exists>more. ckpts w' = ckpts w @ more \<and> list_all (anchored float (stored w')) more)
     \<and> (\<exists>more. said w' = said w @ more \<and> list_all announces more))"

lemma anchored_mono: "anchored float S c \<Longrightarrow> S \<subseteq> S' \<Longrightarrow> anchored float S' c"
  unfolding anchored_def by blast

lemma safely_refl [simp]: "safely good float stored ckpts said w w"
  by (simp add: safely_def)

lemma safely_trans:
  assumes "safely good float stored ckpts said u v" "safely good float stored ckpts said v w"
  shows "safely good float stored ckpts said u w"
  using assms unfolding safely_def by (auto simp: list_all_iff) (metis anchored_mono)

lemma safely_good: "safely good float stored ckpts said w w' \<Longrightarrow> good w \<Longrightarrow> good w'"
  by (simp add: safely_def)

lemma safely_ckpts: "safely good float stored ckpts said w w' \<Longrightarrow> good w \<Longrightarrow> set (ckpts w) \<subseteq> set (ckpts w')"
  by (auto simp: safely_def)

lemma safely_stored: "safely good float stored ckpts said w w' \<Longrightarrow> good w \<Longrightarrow> stored w \<subseteq> stored w'"
  by (simp add: safely_def)

text \<open>The row a checkpoint becomes.\<close>

definition row_of :: "Checkpoint \<Rightarrow> CheckpointRow \<Rightarrow> bool" where
  "row_of c row \<longleftrightarrow> ck_Venue row = a_Venue (cp_Account c) \<and> ck_AccountType row = a_Type (cp_Account c)
     \<and> ck_TakenAt row = pg_time (cp_TakenAt c) \<and> ck_BalanceCount row = wrap32 (cp_BalanceCount c) \<and> ck_Status row = cp_Status c"

locale snapshot_ports =
  fixes good :: "'w \<Rightarrow> bool"
    and float :: "Decimal \<Rightarrow> Float64"
    and stored :: "'w \<Rightarrow> Line set"
    and buffered :: "'w \<Rightarrow> Line set"
    and ckpts :: "'w \<Rightarrow> CheckpointRow list"
    and said :: "'w \<Rightarrow> (BusPayload BusEvent \<times> CheckpointRow list) list"
    and s :: "'w SnapshotSvc"
  assumes venue_safe: "sn_Get s venue = Inr ex \<Longrightarrow> ex_Balances ex acct w = (r1, w') \<Longrightarrow> safely good float stored ckpts said w w'"
    and lock_safe: "safely good float stored ckpts said w (sn_Lock s w)"
    and unlock_safe: "safely good float stored ckpts said w (sn_Unlock s w)"
    and write_law: "sw_WriteBalanceSnapshot (sn_series s) snap w = (r2, w') \<Longrightarrow>
      safely good float stored ckpts said w w' \<and> (good w \<longrightarrow> r2 = Inr () \<longrightarrow> snapshotLines float snap \<subseteq> buffered w' \<union> stored w')"
    and flush_law: "sw_Flush (sn_series s) w = (r3, w') \<Longrightarrow>
      safely good float stored ckpts said w w' \<and> (good w \<longrightarrow> r3 = Inr () \<longrightarrow> buffered w \<subseteq> stored w')"
    and record_law: "good w \<Longrightarrow> sr_RecordSnapshot (sn_recorder s) c w = (r4, w') \<Longrightarrow>
      \<exists>u. safely good float stored ckpts said w u \<and> good w' \<and> stored w' = stored u \<and> said w' = said u
        \<and> (\<exists>rows. ckpts w' = ckpts u @ rows \<and> list_all (row_of c) rows \<and> (r4 = Inr () \<longrightarrow> rows \<noteq> []))"
    and publish_law: "good w \<Longrightarrow> sn_Publish s e w = (r5, w') \<Longrightarrow>
      \<exists>u. safely good float stored ckpts said w u \<and> good w' \<and> stored w' = stored u \<and> ckpts w' = ckpts u \<and> said w' = said u @ [(e, ckpts u)]"
    and error_safe: "safely good float stored ckpts said w (sn_observeError s t w)"
    and success_safe: "safely good float stored ckpts said w (sn_observeSuccess s t d takenAt w)"
    and tick_safe: "sn_tick s w = (b, w') \<Longrightarrow> safely good float stored ckpts said w w'"

text \<open>\<open>backoff.Retry\<close> with the balance fetch, as documented.\<close>

definition fetch_retries :: "'w SnapshotSvc \<Rightarrow> bool" where
  "fetch_retries s \<longleftrightarrow> (\<forall>ctx budget f w. attempts f w (fst (sn_Retry s ctx budget f w)) (snd (sn_Retry s ctx budget f w)))"

lemma fetch_retriesD: "fetch_retries s \<Longrightarrow> sn_Retry s ctx budget f w = (r, w') \<Longrightarrow> attempts f w r w'"
  unfolding fetch_retries_def by (metis fst_conv snd_conv)

text \<open>
  What stops a loop: a target whose venue is not registered, a checkpoint store that fails, a bus that
  fails. Neither a venue nor the series store does.
\<close>

lemma record_error: "record_checkpoint s ctx c w = (Inl e, w') \<Longrightarrow>
    \<exists>e0. sr_RecordSnapshot (sn_recorder s) c w = (Inl e0, w') \<and> e = wrap ''checkpoint store'' e0"
  by (auto simp: record_checkpoint_def split: prod.splits sum.splits if_splits)

lemma snapshot_error:
  assumes "snapshot s ctx t w = (Inl e, w')"
  shows "sn_Get s (tg_Venue t) = Inl e
    \<or> (\<exists>c w0 e0. sr_RecordSnapshot (sn_recorder s) c w0 = (Inl e0, w') \<and> e = wrap ''checkpoint store'' e0)
    \<or> (\<exists>ev w0. sn_Publish s ev w0 = (Inl e, w'))"
  using assms unfolding snapshot_def Let_def
  by (auto split: sum.splits prod.splits if_splits) (blast dest: record_error)+

lemma polls_error:
  assumes "pollTurns s ctx t n w = (Some (Inl e), w')"
  shows "\<exists>w0. snapshot s ctx t w0 = (Inl e, w')"
  using assms by (induction n arbitrary: w) (auto split: prod.splits sum.splits if_splits)

lemma pollLoop_error: "pollLoop s ctx t n w = (Some (Inl e), w') \<Longrightarrow> \<exists>w0. snapshot s ctx t w0 = (Inl e, w')"
  by (auto simp: pollLoop_def split: prod.splits sum.splits dest: polls_error)

context snapshot_ports
begin

abbreviation safe :: "'w \<Rightarrow> 'w \<Rightarrow> bool" where
  "safe \<equiv> safely good float stored ckpts said"

lemma fetch_safe:
  assumes "sn_Get s venue = Inr ex" "attempts (fetchAttempt ex acct) w r w'"
  shows "safe w w'"
proof -
  have one: "safe v v'" if "fetchAttempt ex acct v = (x, v')" for v x v'
    using that venue_safe [OF assms(1)] by (auto simp: fetchAttempt_def split: prod.splits sum.splits)
  from assms(2) show ?thesis
    by (induction rule: attempts.induct) (blast intro: one safely_trans)+
qed

lemma writeSeries_run:
  assumes "writeSeries s snap w = (r, w')"
  shows "safe w w'" "good w \<Longrightarrow> r = Inr () \<Longrightarrow> snapshotLines float snap \<subseteq> stored w'"
proof -
  let ?series = "sn_series s"
  obtain r1 w1 where wr: "sw_WriteBalanceSnapshot ?series snap (sn_Lock s w) = (r1, w1)" by (metis surj_pair)
  note w1 = write_law [OF wr]
  have s1: "safe w w1" using safely_trans [OF lock_safe conjunct1 [OF w1]] .
  have run: "(\<exists>e. r1 = Inl e \<and> r = Inl e \<and> w' = sn_Unlock s w1) \<or>
    (\<exists>w2. r1 = Inr () \<and> sw_Flush ?series w1 = (r, w2) \<and> w' = sn_Unlock s w2)"
    using assms wr by (auto simp: writeSeries_def bindS_def split: prod.splits sum.splits)
  then have "safe w w' \<and> (good w \<longrightarrow> r = Inr () \<longrightarrow> snapshotLines float snap \<subseteq> stored w')"
  proof (elim disjE exE conjE)
    fix e assume "r = Inl e" "w' = sn_Unlock s w1"
    then show ?thesis using safely_trans [OF s1 unlock_safe] by simp
  next
    fix w2 assume 2: "r1 = Inr ()" "sw_Flush ?series w1 = (r, w2)" "w' = sn_Unlock s w2"
    note fl = flush_law [OF 2(2)]
    have "safe w w'" unfolding 2(3)
      by (rule safely_trans [OF safely_trans [OF s1 conjunct1 [OF fl]] unlock_safe])
    moreover have "snapshotLines float snap \<subseteq> stored w'" if "good w" "r = Inr ()"
    proof -
      have g: "good (sn_Lock s w)" "good w1" by (rule safely_good [OF lock_safe that(1)], rule safely_good [OF s1 that(1)])
      have "snapshotLines float snap \<subseteq> buffered w1 \<union> stored w1" using conjunct2 [OF w1] g(1) 2(1) by simp
      also have "\<dots> \<subseteq> stored w2" using conjunct2 [OF fl] g(2) that(2) safely_stored [OF conjunct1 [OF fl]] by simp
      also have "\<dots> \<subseteq> stored w'" unfolding 2(3) by (rule safely_stored [OF unlock_safe safely_good [OF conjunct1 [OF fl] g(2)]])
      finally show ?thesis .
    qed
    ultimately show ?thesis by blast
  qed
  then show "safe w w'" "good w \<Longrightarrow> r = Inr () \<Longrightarrow> snapshotLines float snap \<subseteq> stored w'" by auto
qed

text \<open>
  A checkpoint that is recorded keeps the guarantee when it does not say ok, or when the rows it stands
  for are stored already.
\<close>

lemma record_run:
  assumes "record_checkpoint s ctx c w = (r, w')"
    and "good w \<Longrightarrow> cp_Status c = StatusOK \<Longrightarrow> \<exists>snap. snapshotLines float snap \<subseteq> stored w
      \<and> cp_Account c = s_Account snap \<and> cp_TakenAt c = s_TakenAt snap \<and> cp_BalanceCount c = int (length (NonZero snap))"
  shows "safe w w'"
proof (cases "good w")
  case True
  obtain r1 where rec: "sr_RecordSnapshot (sn_recorder s) c w = (r1, w')"
    using assms(1) by (auto simp: record_checkpoint_def split: prod.splits sum.splits if_splits)
  from record_law [OF True rec] obtain u rows where u: "safe w u" "stored w' = stored u" "said w' = said u"
    "ckpts w' = ckpts u @ rows" "list_all (row_of c) rows" "good w'" by blast
  have "anchored float (stored u) row" if "row_of c row" for row
  proof (unfold anchored_def, intro impI)
    assume "ck_Status row = StatusOK"
    with that have "cp_Status c = StatusOK" by (simp add: row_of_def)
    from assms(2) [OF True this] obtain snap where snap: "snapshotLines float snap \<subseteq> stored w"
      "cp_Account c = s_Account snap" "cp_TakenAt c = s_TakenAt snap" "cp_BalanceCount c = int (length (NonZero snap))" by blast
    have "describes row snap" using that snap by (simp add: describes_def row_of_def)
    then show "\<exists>snap. describes row snap \<and> snapshotLines float snap \<subseteq> stored u"
      using snap(1) safely_stored [OF u(1) True] by blast
  qed
  then have "safe u w'" using u by (auto simp: safely_def list_all_iff)
  with u(1) show ?thesis by (rule safely_trans)
qed (simp add: safely_def)

text \<open>A checkpoint recorded without an error is in the table, unless the context was canceled.\<close>

lemma recorded:
  assumes "good w" "record_checkpoint s ctx c w = (Inr (), w')" "\<And>v. ctx v \<noteq> Some ContextCanceled"
  shows "\<exists>row \<in> set (ckpts w'). row_of c row"
proof -
  have "sr_RecordSnapshot (sn_recorder s) c w = (Inr (), w')"
    using assms by (auto simp: record_checkpoint_def split: prod.splits sum.splits if_splits)
  from record_law [OF assms(1) this] show ?thesis by (metis (no_types, lifting) UnCI hd_in_set list_all_iff set_append)
qed

lemma record_ctx: "WithTimeout clk w0 (ctxWithoutCancel ctx) d v \<noteq> Some ContextCanceled"
  by (simp add: WithTimeout_def ctxWithoutCancel_def)

text \<open>
  The end of a snapshot that has its balances: rows first, then the ok checkpoint, then the announcement.
\<close>

lemma settled_safe:
  assumes "good w2 \<Longrightarrow> snapshotLines float snap \<subseteq> stored w2"
    and "c = checkpoint\<lparr>cp_Status := StatusOK, cp_BalanceCount := int (length (NonZero snap))\<rparr>"
    and "cp_Account checkpoint = s_Account snap" "cp_TakenAt checkpoint = s_TakenAt snap"
    and "record_checkpoint s (WithTimeout clk w0 (ctxWithoutCancel ctx) d) c w2 = (r3, w3)"
  shows "safe w2 w3"
    and "r3 = Inr () \<Longrightarrow> sn_Publish s \<lparr>be_Subject = SubjectTaken, be_At = s_TakenAt snap, be_Payload = SnapshotPayload snap\<rparr>
      (sn_observeSuccess s t dur (s_TakenAt snap) w3) = (r, w') \<Longrightarrow> safe w2 w'"
proof -
  show safe3: "safe w2 w3" by (rule record_run [OF assms(5)]) (use assms in auto)
  assume ok: "r3 = Inr ()" and pub: "sn_Publish s \<lparr>be_Subject = SubjectTaken, be_At = s_TakenAt snap, be_Payload = SnapshotPayload snap\<rparr>
      (sn_observeSuccess s t dur (s_TakenAt snap) w3) = (r, w')" (is "sn_Publish s ?e ?w3 = _")
  show "safe w2 w'"
  proof (cases "good w2")
  case True
  note g3 = safely_good [OF safe3 True]
  from recorded [OF True assms(5) [unfolded ok] record_ctx] obtain row where row: "row \<in> set (ckpts w3)" "row_of c row" by blast
  from publish_law [OF safely_good [OF success_safe g3] pub] obtain u where u: "safe ?w3 u" "stored w' = stored u"
    "ckpts w' = ckpts u" "said w' = said u @ [(?e, ckpts u)]" "good w'" by blast
  have s3: "safe w3 u" by (rule safely_trans [OF success_safe u(1)])
  have "row \<in> set (ckpts u)" using row(1) safely_ckpts [OF s3 g3] by blast
  moreover have "ck_Status row = StatusOK" "describes row snap"
    using row(2) assms(2-4) by (simp_all add: row_of_def describes_def)
  ultimately have "announces (?e, ckpts u)" unfolding announces_def by auto
  then have "safe u w'" using u(2-5) by (simp add: safely_def)
  then show ?thesis by (rule safely_trans [OF safely_trans [OF safe3 s3]])
  qed (simp add: safely_def)
qed

lemma failed_safe: "record_checkpoint s ctx (failed c e) (sn_observeError s t w) = (r, w') \<Longrightarrow> safe w w'"
  by (rule safely_trans [OF error_safe record_run]) (auto simp: failed_def)

lemma snapshot_safe:
  assumes "fetch_retries s" "snapshot s ctx t w = (r, w')"
  shows "safe w w'"
proof (cases "sn_Get s (tg_Venue t)")
  case (Inl e)
  with assms(2) show ?thesis by (simp add: snapshot_def)
next
  case (Inr ex)
  let ?ctx = "WithTimeout (sn_clk s) w ctx (half (sn_interval s))"
  obtain fetched w1 where f: "sn_Retry s ?ctx (half (sn_interval s)) (fetchAttempt ex (tg_Account t)) w = (fetched, w1)"
    by (metis surj_pair)
  have s1: "safe w w1" by (rule fetch_safe [OF Inr fetch_retriesD [OF assms(1) f]])
  let ?c = "newCheckpoint s t (sn_clk s w1) w1"
  have c: "cp_Account ?c = \<lparr>a_Venue = tg_Venue t, a_Type = tg_Account t\<rparr>" "cp_TakenAt ?c = sn_clk s w1"
    by (simp_all add: newCheckpoint_def)
  show ?thesis
  proof (cases "ctx w1 = None")
    case False
    with assms(2) Inr f s1 show ?thesis by (simp add: snapshot_def Let_def)
  next
    case True
    note run = assms(2) [unfolded snapshot_def Inr Let_def f sum.case prod.case, simplified True, simplified]
    show ?thesis
    proof (cases fetched)
      case (Inl e)
      with run have "safe w1 w'" by (auto intro: failed_safe)
      with s1 show ?thesis by (rule safely_trans)
    next
      case (Inr bs)
      let ?snap = "\<lparr>s_Account = cp_Account ?c, s_TakenAt = sn_clk s w1, s_Balances = bs\<rparr>"
      obtain r2 w2 where wr: "writeSeries s ?snap w1 = (r2, w2)" by (metis surj_pair)
      note s2 = safely_trans [OF s1 writeSeries_run(1) [OF wr]]
      show ?thesis
      proof (cases r2)
        case (Inl e)
        with run \<open>fetched = Inr bs\<close> wr have "safe w2 w'" by (auto intro: failed_safe)
        with s2 show ?thesis by (rule safely_trans)
      next
        case (Inr u)
        show ?thesis
        proof (cases "good w")
          case True
          then have st: "snapshotLines float ?snap \<subseteq> stored w2"
            using writeSeries_run(2) [OF wr safely_good [OF s1]] \<open>r2 = Inr u\<close> by simp
          have "safe w2 w'"
            using run \<open>fetched = Inr bs\<close> wr \<open>r2 = Inr u\<close> c(2)
            by (auto split: prod.splits sum.splits intro: settled_safe(1) [OF st refl _ _] settled_safe(2) [OF st refl _ _ _ refl])
          with s2 show ?thesis by (rule safely_trans)
        qed (simp add: safely_def)
      qed
    qed
  qed
qed

lemma polls_safe: "fetch_retries s \<Longrightarrow> pollTurns s ctx t n w = (r, w') \<Longrightarrow> safe w w'"
proof (induction n arbitrary: w)
  case 0
  then show ?case by simp
next
  case (Suc n)
  obtain b w1 where 1: "sn_tick s w = (b, w1)" by (metis surj_pair)
  obtain r2 w2 where 2: "snapshot s ctx t w1 = (r2, w2)" by (metis surj_pair)
  note s1 = tick_safe [OF 1]
  note s2 = safely_trans [OF s1 snapshot_safe [OF Suc.prems(1) 2]]
  show ?case using Suc.prems 1 2 s1 s2 Suc.IH [of w2] safely_trans [OF s2]
    by (auto split: if_splits sum.splits)
qed

lemma pollLoop_safe: "fetch_retries s \<Longrightarrow> pollLoop s ctx t n w = (r, w') \<Longrightarrow> safe w w'"
  by (auto simp: pollLoop_def split: prod.splits sum.splits dest: snapshot_safe polls_safe intro: safely_trans)

end

end
