(* ===== verification/Gct_Adapter.thy ===== *)
theory Gct_Adapter
  imports Exchange_Stack
begin

section \<open>The gocryptotrader adapter\<close>

text \<open>
  \<open>internal/adapters/gct\<close>: the conversions between the types of gocryptotrader and the domain, the methods
  of the \<open>Exchange\<close> and \<open>OrderPlacer\<close> ports over a GCT exchange, and the pump of the private stream. The
  library is a parameter: the record \<open>Bot\<close> holds what the code calls of \<open>IBotExchange\<close>, over a state
  \<open>'v\<close> of the venue, the conversions between decimals and floats, and whether an error is one of its own.
\<close>

subsection \<open>The types of the library\<close>

text \<open>The constants the code names; \<open>GOther\<close> stands for the statuses of the library it does not name.\<close>

datatype Item = NoItem | Spot | Margin

datatype GSide = GBuy | GSell | GAnySide | GUnknownSide

datatype GType = GLimit | GMarket | GAnyType | GUnknownType

datatype GStatus =
    GPending | GNew | GActive | GOpen | GHidden | GPendingCancel | GCancelling
  | GPartiallyFilled | GFilled | GClosed
  | GCancelled | GPartiallyCancelled | GPartiallyFilledCancelled | GLiquidated | GAutoDeleverage
  | GRejected | GInsufficientBalance | GMarketUnavailable | GSTP | GExpired
  | GOther string

record GPair =
  gp_Base :: string
  gp_Quote :: string
  gp_String :: string

record GPrice =
  pp_Bid :: Float64
  pp_Ask :: Float64
  pp_Last :: Float64
  pp_BidSize :: Float64
  pp_AskSize :: Float64
  pp_LastUpdated :: Time

record GBalance =
  gb_Total :: Float64
  gb_Free :: Float64
  gb_Hold :: Float64

type_synonym SubAccount = "(string \<times> GBalance) list" \<comment> \<open>a map from codes, in the order a \<open>range\<close> visits it\<close>

record Submit =
  su_Exchange :: string
  su_Pair :: GPair
  su_AssetType :: Item
  su_Side :: GSide
  su_Type :: GType
  su_Price :: Float64
  su_Amount :: Float64
  su_ClientOrderID :: string

record SubmitResponse =
  sp_OrderID :: string
  sp_Status :: GStatus
  sp_Date :: Time

record GCancel =
  ca_Exchange :: string
  ca_OrderID :: string
  ca_ClientOrderID :: string
  ca_Pair :: GPair
  ca_AssetType :: Item

record TradeHistory =
  th_TID :: string
  th_Price :: Float64
  th_Fee :: Float64
  th_FeeAsset :: string

record Detail =
  dt_Price :: Float64
  dt_Amount :: Float64
  dt_ExecutedAmount :: Float64
  dt_AverageExecutedPrice :: Float64
  dt_OrderID :: string
  dt_ClientOrderID :: string
  dt_Pair :: GPair
  dt_Status :: GStatus
  dt_LastUpdated :: Time
  dt_Date :: Time
  dt_Trades :: "TradeHistory list"

record 'v Bot =
  bt_GetName :: string
  bt_Match :: "string \<Rightarrow> Item \<Rightarrow> bool \<Rightarrow> Err + GPair"
  bt_NewPair :: "string \<Rightarrow> string \<Rightarrow> Err + GPair"
  bt_UpdateTicker :: "GPair \<Rightarrow> Item \<Rightarrow> ('v, GPrice option) op"
  bt_GetEnabledPairs :: "Item \<Rightarrow> Err + GPair list"
  bt_UpdateAccountBalances :: "Item \<Rightarrow> ('v, (SubAccount option) list) op"
  bt_SubmitOrder :: "Submit \<Rightarrow> ('v, SubmitResponse option) op"
  bt_CancelOrder :: "GCancel \<Rightarrow> ('v, unit) op"
  bt_GetActiveOrders :: "Item \<Rightarrow> GType \<Rightarrow> GSide \<Rightarrow> ('v, Detail list) op"
  bt_GetOrderInfo :: "string \<Rightarrow> GPair \<Rightarrow> Item \<Rightarrow> ('v, Detail option) op"
  bt_IsAuthErr :: "Err \<Rightarrow> bool" \<comment> \<open>\<open>errors.Is\<close> of \<open>ErrCredentialsAreEmpty\<close> or \<open>ErrAuthenticationSupportNotEnabled\<close>\<close>
  bt_IsOrderNotFound :: "Err \<Rightarrow> bool" \<comment> \<open>\<open>errors.Is\<close> of \<open>gctorder.ErrOrderNotFound\<close>\<close>
  bt_NewFromFloat :: "Float64 \<Rightarrow> Decimal"
  bt_InexactFloat64 :: "Decimal \<Rightarrow> Float64"
  bt_now :: "'v \<Rightarrow> Time" \<comment> \<open>\<open>time.Now().UTC()\<close>\<close>

text \<open>The adapter: the venue's ID and its GCT exchange.\<close>

record 'v GctExchange =
  ge_id :: VenueID
  ge_exch :: "'v Bot"

subsection \<open>Assets, pairs, tickers and balances\<close>

definition toGCTAsset :: "InstrumentType \<Rightarrow> Err + Item" where
  "toGCTAsset typ = (if typ = TypeSpot then Inr Spot
     else Inl (EText (''gct: instrument type '' @ fmt_q typ @ '' not supported yet'')))"

definition toGCTAssetFromAccount :: "AccountType \<Rightarrow> Err + Item" where
  "toGCTAssetFromAccount acct =
    (if acct = AccTypeSpot \<or> acct = AccTypeUnified then Inr Spot
     else if acct = AccTypeMargin then Inr Margin
     else Inl (sentinel_with ErrUnsupportedAccount (fmt_q acct)))"

text \<open>\<open>unicode.IsPunct\<close> on ASCII, which leaves out \<open>$ + < = > ^ ` | ~\<close>.\<close>

definition is_punct :: "char \<Rightarrow> bool" where
  "is_punct c \<longleftrightarrow> (of_char c :: nat) \<in> {33, 34, 35, 37, 38, 39, 40, 41, 42, 44, 45, 46, 47, 58, 59, 63, 64, 91, 92, 93, 95, 123, 125}"

definition toGCTPairAsset :: "'v Bot \<Rightarrow> Instrument \<Rightarrow> Err + (GPair \<times> Item)" where
  "toGCTPairAsset m inst =
    bindR (toGCTAsset (i_Type inst)) (\<lambda>item.
    if i_VenueSymbol inst \<noteq> [] then
      (case bt_Match m (i_VenueSymbol inst) item (list_ex is_punct (i_VenueSymbol inst)) of
         Inl err \<Rightarrow> Inl (wrap (''gct: symbol '' @ fmt_q (i_VenueSymbol inst)) err)
       | Inr pair \<Rightarrow> Inr (pair, item))
    else
      (case bt_NewPair m (i_Base inst) (i_Quote inst) of
         Inl err \<Rightarrow> Inl (wrap (''gct: pair '' @ Pair inst) err)
       | Inr pair \<Rightarrow> Inr (pair, item)))"

definition toTicker :: "'v Bot \<Rightarrow> Instrument \<Rightarrow> GPrice option \<Rightarrow> Ticker" where
  "toTicker m inst p = (case p of
     None \<Rightarrow> \<lparr>t_Instrument = inst, t_Bid = 0, t_Ask = 0, t_Last = 0, t_BidSize = 0, t_AskSize = 0, t_At = zeroTime\<rparr>
   | Some p \<Rightarrow> \<lparr>t_Instrument = inst, t_Bid = bt_NewFromFloat m (pp_Bid p), t_Ask = bt_NewFromFloat m (pp_Ask p),
       t_Last = bt_NewFromFloat m (pp_Last p), t_BidSize = bt_NewFromFloat m (pp_BidSize p),
       t_AskSize = bt_NewFromFloat m (pp_AskSize p), t_At = pp_LastUpdated p\<rparr>)"

definition toInstruments :: "VenueID \<Rightarrow> InstrumentType \<Rightarrow> GPair list \<Rightarrow> Instrument list" where
  "toInstruments venue typ pairs = map (\<lambda>p. \<lparr>i_Venue = venue, i_Type = typ, i_Base = NewCurrency (gp_Base p),
     i_Quote = NewCurrency (gp_Quote p), i_VenueSymbol = gp_String p, i_Rules = noRules\<rparr>) pairs"

text \<open>
  The loop of \<open>toBalances\<close>: the map of entries and the order of their first appearance, as an association
  list in that order.
\<close>

fun addBalance :: "'v Bot \<Rightarrow> Currency \<Rightarrow> GBalance \<Rightarrow> Balance list \<Rightarrow> Balance list" where
  "addBalance m cur b [] = [\<lparr>b_Currency = cur, b_Total = 0 + bt_NewFromFloat m (gb_Total b),
     b_Free = 0 + bt_NewFromFloat m (gb_Free b), b_Locked = 0 + bt_NewFromFloat m (gb_Hold b)\<rparr>]"
| "addBalance m cur b (e # es) =
    (if b_Currency e = cur
     then e\<lparr>b_Total := b_Total e + bt_NewFromFloat m (gb_Total b), b_Free := b_Free e + bt_NewFromFloat m (gb_Free b),
         b_Locked := b_Locked e + bt_NewFromFloat m (gb_Hold b)\<rparr> # es
     else e # addBalance m cur b es)"

definition addSub :: "'v Bot \<Rightarrow> SubAccount option \<Rightarrow> Balance list \<Rightarrow> Balance list" where
  "addSub m sub out = (case sub of
     None \<Rightarrow> out
   | Some bs \<Rightarrow> fold (\<lambda>(code, b). addBalance m (NewCurrency code) b) bs out)"

definition toBalances :: "'v Bot \<Rightarrow> (SubAccount option) list \<Rightarrow> Balance list" where
  "toBalances m subAccounts = fold (addSub m) subAccounts []"

definition classify :: "'v Bot \<Rightarrow> Err \<Rightarrow> Err" where
  "classify m err = (if bt_IsAuthErr m err then wrap2 (ESentinel ErrAuth) err else err)"

subsection \<open>Orders\<close>

definition toGCTSide :: "Side \<Rightarrow> Err + GSide" where
  "toGCTSide s = (if s = Buy then Inr GBuy else if s = Sell then Inr GSell
     else Inl (EText (''gct: order side '' @ fmt_q s @ '' not supported'')))"

definition toGCTType :: "OrderType \<Rightarrow> Err + GType" where
  "toGCTType t = (if t = Limit then Inr GLimit else if t = Market then Inr GMarket
     else Inl (EText (''gct: order type '' @ fmt_q t @ '' not supported'')))"

definition toGCTSubmit :: "'v Bot \<Rightarrow> Request \<Rightarrow> Err + Submit" where
  "toGCTSubmit m req =
    bindR (toGCTPairAsset m (rq_Instrument req)) (\<lambda>(pair, item).
    bindR (toGCTSide (rq_Side req)) (\<lambda>side.
    bindR (toGCTType (rq_Type req)) (\<lambda>typ.
    Inr \<lparr>su_Exchange = bt_GetName m, su_Pair = pair, su_AssetType = item, su_Side = side, su_Type = typ,
      su_Price = bt_InexactFloat64 m (rq_Price req), su_Amount = bt_InexactFloat64 m (rq_Qty req),
      su_ClientOrderID = rq_ClientOrderID req\<rparr>)))"

definition toGCTCancel :: "'v Bot \<Rightarrow> Ref \<Rightarrow> Err + GCancel" where
  "toGCTCancel m ref =
    bindR (toGCTPairAsset m (rf_Instrument ref)) (\<lambda>(pair, item).
    Inr \<lparr>ca_Exchange = bt_GetName m, ca_OrderID = rf_VenueOrderID ref, ca_ClientOrderID = rf_ClientOrderID ref,
      ca_Pair = pair, ca_AssetType = item\<rparr>)"

fun toStatus :: "GStatus \<Rightarrow> Err + Status" where
  "toStatus GPending = Inr StatusPending"
| "toStatus GNew = Inr StatusOpen"
| "toStatus GActive = Inr StatusOpen"
| "toStatus GOpen = Inr StatusOpen"
| "toStatus GHidden = Inr StatusOpen"
| "toStatus GPendingCancel = Inr StatusOpen"
| "toStatus GCancelling = Inr StatusOpen"
| "toStatus GPartiallyFilled = Inr StatusPartiallyFilled"
| "toStatus GFilled = Inr StatusFilled"
| "toStatus GClosed = Inr StatusFilled"
| "toStatus GCancelled = Inr StatusCanceled"
| "toStatus GPartiallyCancelled = Inr StatusCanceled"
| "toStatus GPartiallyFilledCancelled = Inr StatusCanceled"
| "toStatus GLiquidated = Inr StatusCanceled"
| "toStatus GAutoDeleverage = Inr StatusCanceled"
| "toStatus GRejected = Inr StatusRejected"
| "toStatus GInsufficientBalance = Inr StatusRejected"
| "toStatus GMarketUnavailable = Inr StatusRejected"
| "toStatus GSTP = Inr StatusRejected"
| "toStatus GExpired = Inr StatusExpired"
| "toStatus (GOther s) = Inl (EText (''gct: order status '' @ fmt_q s @ '' not mappable''))"

definition fromGCTPair :: "VenueID \<Rightarrow> GPair \<Rightarrow> Instrument" where
  "fromGCTPair venue pair = \<lparr>i_Venue = venue, i_Type = TypeSpot, i_Base = NewCurrency (gp_Base pair),
     i_Quote = NewCurrency (gp_Quote pair), i_VenueSymbol = gp_String pair, i_Rules = noRules\<rparr>"

definition toRef :: "VenueID \<Rightarrow> Detail \<Rightarrow> Ref" where
  "toRef venue d = \<lparr>rf_Instrument = fromGCTPair venue (dt_Pair d), rf_ClientOrderID = dt_ClientOrderID d,
     rf_VenueOrderID = dt_OrderID d\<rparr>"

definition detailTime :: "Time \<Rightarrow> Detail \<Rightarrow> Time" where
  "detailTime t d = (if \<not> IsZero (dt_LastUpdated d) then dt_LastUpdated d else if \<not> IsZero (dt_Date d) then dt_Date d else t)"

definition toSnapshot :: "'v Bot \<Rightarrow> Time \<Rightarrow> VenueID \<Rightarrow> Detail \<Rightarrow> Err + Snapshot" where
  "toSnapshot m t venue d = bindR (toStatus (dt_Status d)) (\<lambda>status.
    Inr \<lparr>sn_Ref = toRef venue d, sn_Status = status, sn_Price = bt_NewFromFloat m (dt_Price d),
      sn_Qty = bt_NewFromFloat m (dt_Amount d), sn_FilledQty = bt_NewFromFloat m (dt_ExecutedAmount d),
      sn_AvgFillPrice = bt_NewFromFloat m (dt_AverageExecutedPrice d), sn_UpdatedAt = detailTime t d\<rparr>)"

definition toEvent :: "'v Bot \<Rightarrow> Time \<Rightarrow> VenueID \<Rightarrow> Detail \<Rightarrow> Err + Event" where
  "toEvent m t venue d = bindR (toStatus (dt_Status d)) (\<lambda>status.
    let ev = \<lparr>ev_Ref = toRef venue d, ev_Status = status, ev_FilledQty = bt_NewFromFloat m (dt_ExecutedAmount d),
      ev_FillPrice = bt_NewFromFloat m (dt_AverageExecutedPrice d), ev_VenueFillID = [], ev_Fee = 0, ev_FeeCurrency = [],
      ev_Reason = [], ev_At = detailTime t d\<rparr> in
    case dt_Trades d of
      [tr] \<Rightarrow> Inr (ev\<lparr>ev_VenueFillID := th_TID tr, ev_FillPrice := bt_NewFromFloat m (th_Price tr),
        ev_Fee := bt_NewFromFloat m (th_Fee tr), ev_FeeCurrency := NewCurrency (th_FeeAsset tr)\<rparr>)
    | _ \<Rightarrow> Inr ev)"

subsection \<open>The methods of the ports\<close>

text \<open>A result that does not need the venue, as an operation.\<close>

definition liftR :: "Err + 'a \<Rightarrow> ('v, 'a) op" where
  "liftR r v = (r, v)"

definition ge_Ticker :: "'v GctExchange \<Rightarrow> Instrument \<Rightarrow> ('v, Ticker) op" where
  "ge_Ticker e inst = bindS (liftR (toGCTPairAsset (ge_exch e) inst)) (\<lambda>(pair, item).
    bindS (wrapS (''gct: ticker '' @ ge_id e @ '' '' @ Pair inst) (bt_UpdateTicker (ge_exch e) pair item)) (\<lambda>price.
    returnS (toTicker (ge_exch e) inst price)))"

definition ge_Instruments :: "'v GctExchange \<Rightarrow> InstrumentType \<Rightarrow> ('v, Instrument list) op" where
  "ge_Instruments e typ = bindS (liftR (toGCTAsset typ)) (\<lambda>item.
    bindS (wrapS (''gct: enabled pairs '' @ ge_id e) (liftR (bt_GetEnabledPairs (ge_exch e) item))) (\<lambda>pairs.
    returnS (toInstruments (ge_id e) typ pairs)))"

definition ge_Balances :: "'v GctExchange \<Rightarrow> AccountType \<Rightarrow> ('v, Balance list) op" where
  "ge_Balances e acct = bindS (liftR (toGCTAssetFromAccount acct)) (\<lambda>item.
    bindS (wrapS (''gct: balances '' @ ge_id e @ '' '' @ acct)
      (mapErrS (classify (ge_exch e)) (bt_UpdateAccountBalances (ge_exch e) item))) (\<lambda>accts.
    returnS (toBalances (ge_exch e) accts)))"

definition ackOf :: "Time \<Rightarrow> Request \<Rightarrow> SubmitResponse \<Rightarrow> Ack" where
  "ackOf t req resp = \<lparr>ak_Ref = \<lparr>rf_Instrument = rq_Instrument req, rf_ClientOrderID = rq_ClientOrderID req,
       rf_VenueOrderID = sp_OrderID resp\<rparr>,
     ak_Status = (case toStatus (sp_Status resp) of Inl _ \<Rightarrow> StatusOpen | Inr status \<Rightarrow> status),
     ak_AcceptedAt = (if IsZero (sp_Date resp) then t else sp_Date resp)\<rparr>"

definition ge_PlaceOrder :: "'v GctExchange \<Rightarrow> Request \<Rightarrow> ('v, Ack) op" where
  "ge_PlaceOrder e req =
    (let what = ''gct: submit order '' @ ge_id e @ '' '' @ Pair (rq_Instrument req) in
     bindS (liftR (toGCTSubmit (ge_exch e) req)) (\<lambda>submit.
     bindS (wrapS what (mapErrS (classify (ge_exch e)) (bt_SubmitOrder (ge_exch e) submit))) (\<lambda>resp.
     case resp of
       None \<Rightarrow> failS (EText (what @ '': nil response''))
     | Some resp \<Rightarrow> (\<lambda>v. (Inr (ackOf (bt_now (ge_exch e) v) req resp), v)))))"

definition ge_CancelOrder :: "'v GctExchange \<Rightarrow> Ref \<Rightarrow> ('v, unit) op" where
  "ge_CancelOrder e ref = bindS (liftR (toGCTCancel (ge_exch e) ref)) (\<lambda>cancel.
    wrapS (''gct: cancel order '' @ ge_id e @ '' '' @ rf_ClientOrderID ref)
      (mapErrS (classify (ge_exch e)) (bt_CancelOrder (ge_exch e) cancel)))"

fun snapshots :: "'v Bot \<Rightarrow> Time \<Rightarrow> VenueID \<Rightarrow> Detail list \<Rightarrow> Err + Snapshot list" where
  "snapshots m t venue [] = Inr []"
| "snapshots m t venue (d # ds) = bindR (toSnapshot m t venue d) (\<lambda>snap.
     bindR (snapshots m t venue ds) (\<lambda>out. Inr (snap # out)))"

definition ge_OpenOrders :: "'v GctExchange \<Rightarrow> ('v, Snapshot list) op" where
  "ge_OpenOrders e = bindS (liftR (toGCTAsset TypeSpot)) (\<lambda>item.
    bindS (wrapS (''gct: open orders '' @ ge_id e)
      (mapErrS (classify (ge_exch e)) (bt_GetActiveOrders (ge_exch e) item GAnyType GAnySide))) (\<lambda>details.
    wrapS (''gct: open orders '' @ ge_id e) (\<lambda>v. (snapshots (ge_exch e) (bt_now (ge_exch e) v) (ge_id e) details, v))))"

definition ge_GetOrder :: "'v GctExchange \<Rightarrow> Ref \<Rightarrow> ('v, Snapshot) op" where
  "ge_GetOrder e ref =
    (let m = ge_exch e; vid = rf_VenueOrderID ref; what = ''gct: get order '' @ ge_id e @ '' '' @ vid in
     if vid = [] then failS (wrap (''gct: get order '' @ ge_id e @ '' client '' @ rf_ClientOrderID ref) (ESentinel ErrNoVenueOrderID))
     else bindS (liftR (toGCTPairAsset m (rf_Instrument ref))) (\<lambda>(pair, item).
     bindS (mapErrS (\<lambda>err. if bt_IsOrderNotFound m err
         then Errorf [Cause (ESentinel ErrNotFound), Lit ('': '' @ ge_id e @ '' '' @ vid @ '': ''), Cause err]
         else wrap what (classify m err)) (bt_GetOrderInfo m vid pair item)) (\<lambda>detail.
     case detail of
       None \<Rightarrow> failS (sentinel_with ErrNotFound (''venue returned no order for '' @ ge_id e @ '' '' @ vid))
     | Some d \<Rightarrow> wrapS what (\<lambda>v. (toSnapshot m (bt_now m v) (ge_id e) d, v)))))"

text \<open>The adapter as a value of the ports.\<close>

definition gctPlacer :: "'v GctExchange \<Rightarrow> 'v OrderPlacer" where
  "gctPlacer e = \<lparr>op_PlaceOrder = ge_PlaceOrder e, op_CancelOrder = ge_CancelOrder e, op_OpenOrders = ge_OpenOrders e,
     op_GetOrder = ge_GetOrder e\<rparr>"

definition gctExchange :: "'v GctExchange \<Rightarrow> 'v Exchange" where
  "gctExchange e = \<lparr>ex_ID = ge_id e, ex_Ticker = ge_Ticker e, ex_Instruments = ge_Instruments e, ex_Balances = ge_Balances e,
     ex_Placer = Some (gctPlacer e)\<rparr>"

subsection \<open>The private stream\<close>

text \<open>A websocket payload by its dynamic type: one detail, which may be nil, several, or anything else.\<close>

datatype WsData = OneDetail "Detail option" | Details "Detail list" | OtherData

definition rightOf :: "Err + 'a \<Rightarrow> 'a option" where
  "rightOf r = (case r of Inl _ \<Rightarrow> None | Inr x \<Rightarrow> Some x)"

fun toOrderEvents :: "'v Bot \<Rightarrow> Time \<Rightarrow> VenueID \<Rightarrow> WsData \<Rightarrow> Event list" where
  "toOrderEvents m t venue (OneDetail None) = []"
| "toOrderEvents m t venue (OneDetail (Some d)) = (case toEvent m t venue d of Inl _ \<Rightarrow> [] | Inr ev \<Rightarrow> [ev])"
| "toOrderEvents m t venue (Details ds) = List.map_filter (\<lambda>d. rightOf (toEvent m t venue d)) ds"
| "toOrderEvents m t venue OtherData = []"

text \<open>
  \<open>pump\<close> selects what is ready: the context, a payload read at an instant, the closed data channel, or a tick, at
  which the connection is probed. A payload whose sends the context interrupts is a \<open>Cut\<close>: only so many
  of its events get out. What it does is a list of events sent and reconnects signalled.
\<close>

datatype PumpInput = CtxDone | Data Time WsData | Cut Time WsData nat | DataClosed | ConnTick bool

datatype PumpOutput = SentEvent Event | Reconnected

fun pump :: "'v Bot \<Rightarrow> VenueID \<Rightarrow> bool \<Rightarrow> PumpInput list \<Rightarrow> PumpOutput list" where
  "pump m venue was [] = []"
| "pump m venue was (CtxDone # ins) = []"
| "pump m venue was (DataClosed # ins) = []"
| "pump m venue was (Data t d # ins) = map SentEvent (toOrderEvents m t venue d) @ pump m venue was ins"
| "pump m venue was (Cut t d n # ins) = map SentEvent (take n (toOrderEvents m t venue d))"
| "pump m venue was (ConnTick isConnected # ins) =
    (if isConnected \<and> \<not> was then [Reconnected] else []) @ pump m venue isConnected ins"

text \<open>\<open>StreamOrderEvents\<close>: the checks before the pump starts. The socket is a parameter.\<close>

record 'v Websocket =
  ws_IsEnabled :: bool
  ws_IsConnected :: "'v \<Rightarrow> bool"
  ws_Connect :: "('v, unit) op"

definition openStream :: "'v GctExchange \<Rightarrow> Err + 'v Websocket \<Rightarrow> ('v, unit) op" where
  "openStream e getWebsocket v =
    (case getWebsocket of
       Inl err \<Rightarrow> (Inl (wrap (''gct: websocket '' @ ge_id e) err), v)
     | Inr ws \<Rightarrow>
        if \<not> ws_IsEnabled ws then (Inl (EText (''gct: websocket '' @ ge_id e @ '': not enabled'')), v)
        else if \<not> ws_IsConnected ws v then wrapS (''gct: websocket connect '' @ ge_id e) (ws_Connect ws) v
        else (Inr (), v))"

subsection \<open>Balances are summed per currency\<close>

definition entries :: "(SubAccount option) list \<Rightarrow> (Currency \<times> GBalance) list" where
  "entries accts = map (\<lambda>(code, b). (NewCurrency code, b)) (concat (map (\<lambda>s. case s of None \<Rightarrow> [] | Some bs \<Rightarrow> bs) accts))"

text \<open>The observation for one currency: the sums of its entries.\<close>

definition balanceOf :: "'v Bot \<Rightarrow> (Currency \<times> GBalance) list \<Rightarrow> Currency \<Rightarrow> Balance" where
  "balanceOf m es cur = (let of_cur = map snd (filter (\<lambda>e. fst e = cur) es) in
     \<lparr>b_Currency = cur, b_Total = sum_list (map (\<lambda>b. bt_NewFromFloat m (gb_Total b)) of_cur),
      b_Free = sum_list (map (\<lambda>b. bt_NewFromFloat m (gb_Free b)) of_cur),
      b_Locked = sum_list (map (\<lambda>b. bt_NewFromFloat m (gb_Hold b)) of_cur)\<rparr>)"

text \<open>The elements of a list in the order of their first appearance.\<close>

definition firsts :: "'a list \<Rightarrow> 'a list" where
  "firsts xs = rev (remdups (rev xs))"

lemma firsts_snoc: "firsts (xs @ [x]) = (if x \<in> set xs then firsts xs else firsts xs @ [x])"
  by (simp add: firsts_def)

lemma firsts_simps [simp]: "firsts [] = []" "set (firsts xs) = set xs" "distinct (firsts xs)"
  by (simp_all add: firsts_def)

lemma balanceOf_currency [simp]: "b_Currency (balanceOf m es cur) = cur"
  by (simp add: balanceOf_def Let_def)

lemma addBalance_other: "cur \<notin> set fs \<Longrightarrow> addBalance m cur b (map (balanceOf m es) fs) =
    map (balanceOf m es) fs @ addBalance m cur b []"
  by (induction fs) auto

lemma balanceOf_snoc_other: "c \<noteq> cur \<Longrightarrow> balanceOf m (es @ [(cur, b)]) c = balanceOf m es c"
  by (simp add: balanceOf_def)

lemma balanceOf_snoc: "balanceOf m (es @ [(cur, b)]) cur = (balanceOf m es cur)\<lparr>
     b_Total := b_Total (balanceOf m es cur) + bt_NewFromFloat m (gb_Total b),
     b_Free := b_Free (balanceOf m es cur) + bt_NewFromFloat m (gb_Free b),
     b_Locked := b_Locked (balanceOf m es cur) + bt_NewFromFloat m (gb_Hold b)\<rparr>"
  by (simp add: balanceOf_def Let_def)

lemma balanceOf_absent: "cur \<notin> fst ` set es \<Longrightarrow>
    balanceOf m es cur = \<lparr>b_Currency = cur, b_Total = 0, b_Free = 0, b_Locked = 0\<rparr>"
proof -
  assume "cur \<notin> fst ` set es"
  then have "filter (\<lambda>e. fst e = cur) es = []" by (auto simp: filter_empty_conv)
  then show ?thesis by (simp add: balanceOf_def)
qed

lemma addBalance_known: "cur \<in> set fs \<Longrightarrow> distinct fs \<Longrightarrow> addBalance m cur b (map (balanceOf m es) fs) =
    map (balanceOf m (es @ [(cur, b)])) fs"
proof (induction fs)
  case (Cons c fs)
  show ?case
  proof (cases "c = cur")
    case True
    with Cons.prems(2) have "map (balanceOf m (es @ [(cur, b)])) fs = map (balanceOf m es) fs"
      by (auto intro: balanceOf_snoc_other)
    with True show ?thesis by (simp add: balanceOf_snoc)
  next
    case False
    with Cons show ?thesis by (simp add: balanceOf_snoc_other)
  qed
qed simp

lemma addBalances: "fold (\<lambda>(cur, b). addBalance m cur b) es [] = map (balanceOf m es) (firsts (map fst es))"
proof (induction es rule: rev_induct)
  case (snoc x es)
  obtain cur b where x: "x = (cur, b)" by (cases x)
  show ?case
  proof (cases "cur \<in> fst ` set es")
    case True
    then show ?thesis using snoc by (simp add: x firsts_snoc addBalance_known)
  next
    case False
    have "map (balanceOf m (es @ [(cur, b)])) (firsts (map fst es)) = map (balanceOf m es) (firsts (map fst es))"
      using False by (auto intro!: balanceOf_snoc_other)
    with False snoc show ?thesis
      by (simp add: x firsts_snoc addBalance_other balanceOf_snoc balanceOf_absent del: addBalance.simps(2))
  qed
qed simp

lemma fold_addSub: "fold (addSub m) accts out = fold (\<lambda>(cur, b). addBalance m cur b) (entries accts) out"
proof (induction accts arbitrary: out)
  case (Cons s accts)
  have "addSub m s out = fold (\<lambda>(cur, b). addBalance m cur b) (entries [s]) out"
    by (cases s) (auto simp: addSub_def entries_def fold_map comp_def intro!: fold_cong)
  then show ?case by (simp add: Cons.IH) (simp add: entries_def)
qed (simp add: entries_def)

text \<open>
  C35: balances are neither lost nor counted twice. What \<open>toBalances\<close> returns for a venue's sub-accounts has
  one entry for every currency that any of them reports, in the order of first appearance, and each is
  the sum over all the sub-accounts' entries whose code canonicalises to that currency.
\<close>

theorem toBalances_sums:
  "toBalances m accts = map (balanceOf m (entries accts)) (firsts (map fst (entries accts)))"
  by (simp add: toBalances_def fold_addSub addBalances)

subsection \<open>The vocabulary of the state machine\<close>

lemma toStatus_known: "toStatus s = Inr st \<Longrightarrow> known_status st"
  by (cases s) (auto simp: known_status_def)

lemma toEvent_known:
  assumes "toEvent m t venue d = Inr ev"
  shows "known_status (ev_Status ev) \<and> ev_Ref ev = toRef venue d"
proof -
  from assms obtain st where st: "toStatus (dt_Status d) = Inr st" by (auto simp: toEvent_def)
  from assms have "ev_Status ev = st \<and> ev_Ref ev = toRef venue d"
    by (cases "dt_Trades d" rule: remdups_adj.cases) (auto simp: toEvent_def st)
  with toStatus_known [OF st] show ?thesis by simp
qed

lemma toSnapshot_known: "toSnapshot m t venue d = Inr snap \<Longrightarrow> known_status (sn_Status snap) \<and> sn_Ref snap = toRef venue d"
  by (auto simp: toSnapshot_def dest: toStatus_known)

lemma snapshots_known: "snapshots m t venue ds = Inr snaps \<Longrightarrow>
    length snaps = length ds \<and> list_all (\<lambda>s. known_status (sn_Status s) \<and> i_Venue (rf_Instrument (sn_Ref s)) = venue) snaps"
  by (induction ds arbitrary: snaps) (auto dest!: toSnapshot_known simp: toRef_def fromGCTPair_def)

lemma toOrderEvents_from: "ev \<in> set (toOrderEvents m t venue d) \<Longrightarrow> \<exists>x. toEvent m t venue x = Inr ev"
  by (cases "(m, t, venue, d)" rule: toOrderEvents.cases)
    (auto simp: List.map_filter_def rightOf_def split: sum.split_asm)

lemma toOrderEvents_known: "ev \<in> set (toOrderEvents m t venue d) \<Longrightarrow>
    known_status (ev_Status ev) \<and> i_Venue (rf_Instrument (ev_Ref ev)) = venue"
  using toOrderEvents_from [of ev m t venue d] by (auto simp: toRef_def fromGCTPair_def dest!: toEvent_known)

lemma pump_events: "SentEvent ev \<in> set (pump m venue was ins) \<Longrightarrow> \<exists>t d. ev \<in> set (toOrderEvents m t venue d)"
  by (induction m venue was ins rule: pump.induct) (auto dest: in_set_takeD split: if_splits)

lemma Transition_total: "known_status (st_Status st) \<Longrightarrow> known_status (ev_Status ev) \<Longrightarrow> \<exists>d. Transition st ev = Inr d"
  by (simp add: Transition_def rank_known Let_def)

lemma liftR_eq [simp]: "liftR r v = (x, v') \<longleftrightarrow> x = r \<and> v' = v"
  by (auto simp: liftR_def)

lemma ge_PlaceOrder_ack: "ge_PlaceOrder e req v = (Inr ack, v') \<Longrightarrow> \<exists>t resp. ack = ackOf t req resp"
  by (auto simp: ge_PlaceOrder_def Let_def split: option.splits)

lemma ackOf_known: "known_status (ak_Status (ackOf t req resp))"
  by (auto simp: ackOf_def split: sum.split dest: toStatus_known)

lemma ge_OpenOrders_run: "ge_OpenOrders e v = (Inr snaps, v') \<Longrightarrow>
    \<exists>details t. snapshots (ge_exch e) t (ge_id e) details = Inr snaps"
  by (auto simp: ge_OpenOrders_def)

lemma ge_GetOrder_run: "ge_GetOrder e ref v = (Inr snap, v') \<Longrightarrow> \<exists>t d. toSnapshot (ge_exch e) t (ge_id e) d = Inr snap"
  by (auto simp: ge_GetOrder_def Let_def split: if_splits option.splits)

text \<open>
  C25: the adapter speaks the language of the state machine. Whatever statuses the venue library reports,
  every acknowledgement, every snapshot and every stream event the adapter lets through carries one of the
  seven statuses of the domain: an acknowledgement is for the request that was made, the others are for the
  adapter's own venue, and the machine decides every such event on every stored state.
\<close>

theorem adapter_statuses_known:
  "(ge_PlaceOrder e req v = (Inr ack, v1) \<longrightarrow> known_status (ak_Status ack)
      \<and> rf_ClientOrderID (ak_Ref ack) = rq_ClientOrderID req \<and> rf_Instrument (ak_Ref ack) = rq_Instrument req)
   \<and> (ge_OpenOrders e v = (Inr snaps, v2) \<longrightarrow>
       list_all (\<lambda>s. known_status (sn_Status s) \<and> i_Venue (rf_Instrument (sn_Ref s)) = ge_id e) snaps)
   \<and> (ge_GetOrder e ref v = (Inr snap, v3) \<longrightarrow> known_status (sn_Status snap) \<and> i_Venue (rf_Instrument (sn_Ref snap)) = ge_id e)
   \<and> (SentEvent ev \<in> set (pump (ge_exch e) (ge_id e) was ins) \<longrightarrow> i_Venue (rf_Instrument (ev_Ref ev)) = ge_id e
       \<and> (known_status (st_Status st) \<longrightarrow> (\<exists>d. Transition st ev = Inr d)))"
proof (intro conjI impI)
  assume "ge_PlaceOrder e req v = (Inr ack, v1)"
  from ge_PlaceOrder_ack [OF this] show "known_status (ak_Status ack)"
    "rf_ClientOrderID (ak_Ref ack) = rq_ClientOrderID req" "rf_Instrument (ak_Ref ack) = rq_Instrument req"
    using ackOf_known by (auto simp: ackOf_def)
next
  assume "ge_OpenOrders e v = (Inr snaps, v2)"
  from ge_OpenOrders_run [OF this] show "list_all (\<lambda>s. known_status (sn_Status s) \<and> i_Venue (rf_Instrument (sn_Ref s)) = ge_id e) snaps"
    using snapshots_known by blast
next
  assume "ge_GetOrder e ref v = (Inr snap, v3)"
  from ge_GetOrder_run [OF this] show "known_status (sn_Status snap)" "i_Venue (rf_Instrument (sn_Ref snap)) = ge_id e"
    by (auto simp: toRef_def fromGCTPair_def dest!: toSnapshot_known)
next
  assume "SentEvent ev \<in> set (pump (ge_exch e) (ge_id e) was ins)"
  from pump_events [OF this] have k: "known_status (ev_Status ev)" "i_Venue (rf_Instrument (ev_Ref ev)) = ge_id e"
    using toOrderEvents_known by blast+
  then show "i_Venue (rf_Instrument (ev_Ref ev)) = ge_id e" by blast
  assume "known_status (st_Status st)"
  with k(1) show "\<exists>d. Transition st ev = Inr d" by (intro Transition_total)
qed

definition demo_detail :: "GStatus \<Rightarrow> Detail" where
  "demo_detail s = \<lparr>dt_Price = Finite 50000, dt_Amount = Finite 1, dt_ExecutedAmount = Finite (1 / 2),
     dt_AverageExecutedPrice = Finite 50000, dt_OrderID = ''V1'', dt_ClientOrderID = ''01JG3'',
     dt_Pair = \<lparr>gp_Base = ''BTC'', gp_Quote = ''USDT'', gp_String = ''BTCUSDT''\<rparr>, dt_Status = s,
     dt_LastUpdated = Time 3000, dt_Date = Time 2000, dt_Trades = []\<rparr>"

fun finite_value :: "Float64 \<Rightarrow> Decimal" where
  "finite_value (Finite x) = x"
| "finite_value _ = 0"

definition demo_bot :: "unit Bot" where
  "demo_bot = \<lparr>bt_GetName = ''Bybit'', bt_Match = (\<lambda>_ _ _. Inr \<lparr>gp_Base = ''BTC'', gp_Quote = ''USDT'', gp_String = ''BTCUSDT''\<rparr>),
     bt_NewPair = (\<lambda>b q. Inr \<lparr>gp_Base = b, gp_Quote = q, gp_String = b @ q\<rparr>), bt_UpdateTicker = (\<lambda>_ _ v. (Inr None, v)),
     bt_GetEnabledPairs = (\<lambda>_. Inr []), bt_UpdateAccountBalances = (\<lambda>_ v. (Inr [Some [(''btc'', \<lparr>gb_Total = Finite 1, gb_Free = Finite 1, gb_Hold = Finite 0\<rparr>)]], v)),
     bt_SubmitOrder = (\<lambda>_ v. (Inr (Some \<lparr>sp_OrderID = ''V1'', sp_Status = GOther ''UNKNOWN'', sp_Date = Time 2000\<rparr>), v)),
     bt_CancelOrder = (\<lambda>_ v. (Inr (), v)), bt_GetActiveOrders = (\<lambda>_ _ _ v. (Inr [demo_detail GCancelling], v)),
     bt_GetOrderInfo = (\<lambda>vid _ _ v. (if vid = ''V1'' then Inr (Some (demo_detail GClosed)) else Inl (EText ''order not found''), v)),
     bt_IsAuthErr = (\<lambda>_. False), bt_IsOrderNotFound = (\<lambda>err. err = EText ''order not found''),
     bt_NewFromFloat = finite_value, bt_InexactFloat64 = Finite, bt_now = (\<lambda>_. Time 4000)\<rparr>"

definition demo_gct :: "unit GctExchange" where
  "demo_gct = \<lparr>ge_id = ''bybit'', ge_exch = demo_bot\<rparr>"

definition demo_ref :: "string \<Rightarrow> Ref" where
  "demo_ref vid = \<lparr>rf_Instrument = fromGCTPair ''bybit'' (dt_Pair (demo_detail GNew)), rf_ClientOrderID = ''01JG3'', rf_VenueOrderID = vid\<rparr>"

lemma demo_open: "\<exists>snap v. ge_OpenOrders demo_gct () = (Inr [snap], v)"
  by (simp add: ge_OpenOrders_def bindS_def wrapS_def mapErrS_def liftR_def toGCTAsset_def demo_gct_def demo_bot_def demo_detail_def toSnapshot_def)

lemma adapter_statuses_known_witness:
  "\<exists>snap v. ge_OpenOrders demo_gct () = (Inr [snap], v) \<and> known_status (sn_Status snap)"
proof -
  obtain snap v where o: "ge_OpenOrders demo_gct () = (Inr [snap], v)" using demo_open by blast
  with adapter_statuses_known [of demo_gct _ "()" _ _ "[snap]" v] show ?thesis by simp
qed

subsection \<open>Orders the venue does not know\<close>

text \<open>The library's errors are its own: they never wrap the sentinel of the ports.\<close>

definition own_errors :: "'v Bot \<Rightarrow> bool" where
  "own_errors m \<longleftrightarrow> (\<forall>s i b err. bt_Match m s i b = Inl err \<longrightarrow> \<not> errors_Is err ErrNotFound)
     \<and> (\<forall>b q err. bt_NewPair m b q = Inl err \<longrightarrow> \<not> errors_Is err ErrNotFound)
     \<and> (\<forall>vid p i v err v'. bt_GetOrderInfo m vid p i v = (Inl err, v') \<longrightarrow> \<not> errors_Is err ErrNotFound)"

lemma pair_error: "own_errors m \<Longrightarrow> toGCTPairAsset m inst = Inl err \<Longrightarrow> \<not> errors_Is err ErrNotFound"
  by (auto simp: toGCTPairAsset_def toGCTAsset_def own_errors_def bindR_Inl_iff split: if_splits sum.splits)

lemma toSnapshot_error: "toSnapshot m t venue d = Inl err \<Longrightarrow> \<not> errors_Is err ErrNotFound"
  by (cases "dt_Status d") (auto simp: toSnapshot_def)

text \<open>
  An order is reported as unknown only when the venue says so. \<open>GetOrder\<close> fails with \<open>ErrNotFound\<close>,
  on which the reconciler acts, exactly when the reference has a venue order ID, its pair is resolved, and
  the venue answers that it knows no such order or answers without one; a missing ID, an unmappable status, a
  symbol that does not resolve and every other failure of the venue are different errors.
\<close>

theorem GetOrder_not_found:
  assumes "own_errors (ge_exch e)" "ge_GetOrder e ref v = (Inl err, v')"
  shows "errors_Is err ErrNotFound \<longleftrightarrow> rf_VenueOrderID ref \<noteq> [] \<and>
    (\<exists>pair item. toGCTPairAsset (ge_exch e) (rf_Instrument ref) = Inr (pair, item)
      \<and> (case fst (bt_GetOrderInfo (ge_exch e) (rf_VenueOrderID ref) pair item v) of
           Inl err0 \<Rightarrow> bt_IsOrderNotFound (ge_exch e) err0 | Inr detail \<Rightarrow> detail = None))"
proof (cases "rf_VenueOrderID ref = []")
  case True
  with assms(2) show ?thesis by (auto simp: ge_GetOrder_def)
next
  case False
  show ?thesis
  proof (cases "toGCTPairAsset (ge_exch e) (rf_Instrument ref)")
    case (Inl err0)
    with False assms show ?thesis by (auto simp: ge_GetOrder_def Let_def bindS_def liftR_def dest: pair_error)
  next
    case (Inr pi)
    obtain pair item where pi: "pi = (pair, item)" by (cases pi)
    obtain r v1 where g: "bt_GetOrderInfo (ge_exch e) (rf_VenueOrderID ref) pair item v = (r, v1)" by (metis surj_pair)
    have own: "\<not> errors_Is err0 ErrNotFound" if "r = Inl err0" for err0
      using assms(1) g that unfolding own_errors_def by blast
    note run = assms(2) [unfolded ge_GetOrder_def Let_def, simplified False Inr pi]
    from run False Inr pi g own show ?thesis
      by (auto simp: bindS_def liftR_def mapErrS_def wrapS_def failS_def classify_def
          split: sum.splits option.splits if_splits dest: toSnapshot_error)
  qed
qed

lemma demo_own_errors: "own_errors (ge_exch demo_gct)"
  by (simp add: own_errors_def demo_gct_def demo_bot_def)

lemma demo_unknown: "\<exists>err v. ge_GetOrder demo_gct (demo_ref ''V2'') () = (Inl err, v)"
  by (simp add: ge_GetOrder_def Let_def bindS_def liftR_def mapErrS_def toGCTPairAsset_def toGCTAsset_def demo_ref_def fromGCTPair_def
      demo_gct_def demo_bot_def demo_detail_def TypeSpot_def)

lemma GetOrder_not_found_witness:
  "\<exists>err v. ge_GetOrder demo_gct (demo_ref ''V2'') () = (Inl err, v) \<and> errors_Is err ErrNotFound"
proof -
  obtain err v where g: "ge_GetOrder demo_gct (demo_ref ''V2'') () = (Inl err, v)" using demo_unknown by blast
  from GetOrder_not_found [OF demo_own_errors g] have "errors_Is err ErrNotFound"
    by (simp add: demo_ref_def fromGCTPair_def demo_gct_def demo_bot_def demo_detail_def toGCTPairAsset_def toGCTAsset_def TypeSpot_def)
  with g show ?thesis by blast
qed

end
