(* ===== verification/Config.thy ===== *)
theory Config
  imports Prelude
begin

section \<open>The configuration\<close>

text \<open>
  \<open>internal/config/config.go\<close> and \<open>internal/config/load.go\<close>. The structs are records; the map of venues
  is an association list in the order a \<open>range\<close> happens to visit it. The koanf library, which merges the
  defaults, the file and the environment, and the file system are parameters of \<open>Load\<close>. The errors that
  \<open>Validate\<close> joins are values of a type of their own, one constructor for each check.
\<close>

subsection \<open>The structs\<close>

record Rate =
  RPS :: Float64
  Burst :: int

record VenueCfg =
  vc_Enabled :: bool
  vc_Trading :: bool
  vc_Accounts :: "string list"
  vc_Rate :: Rate
  vc_APIKey :: string
  vc_APISecret :: string
  vc_APIKeyFile :: string
  vc_APISecretFile :: string

record LogCfg =
  lg_Level :: string
  lg_Format :: string

record OutboxCfg =
  oc_Interval :: Duration
  oc_Batch :: int

record Config =
  c_Log :: LogCfg
  c_HTTP_Addr :: string
  c_API_Addr :: string
  c_Postgres_DSN :: string
  c_QuestDB_Conf :: string
  c_Snapshot_Interval :: Duration
  c_Outbox :: OutboxCfg
  c_Reconcile_Interval :: Duration
  c_Order_SubmitBudget :: Duration
  c_Venues :: "(string \<times> VenueCfg) list"

definition EnvPrefix :: string where "EnvPrefix = ''DELTA__''"

subsection \<open>Validation\<close>

datatype ConfigErr =
    BadLevel string
  | BadFormat string
  | NoHTTPAddr
  | SnapshotInterval Duration
  | OutboxInterval Duration
  | OutboxBatch int
  | ReconcileInterval Duration
  | SubmitBudget Duration
  | NoDSN
  | NoConf
  | TradingDisabledVenue string
  | VenueRate string
  | VenueAccounts string
  | VenueCredentials string

definition validLevels :: "string list" where
  "validLevels = [''trace'', ''debug'', ''info'', ''warn'', ''error'']"

text \<open>\<open>if cond { errs = append(errs, e) }\<close>.\<close>

definition complain :: "bool \<Rightarrow> 'e \<Rightarrow> 'e list" where
  "complain b e = (if b then [e] else [])"

definition venue_validate :: "VenueCfg \<Rightarrow> string \<Rightarrow> ConfigErr list" where
  "venue_validate v name =
    (if \<not> vc_Enabled v then []
     else complain (float_le0 (RPS (vc_Rate v)) \<or> Burst (vc_Rate v) \<le> 0) (VenueRate name)
       @ complain (vc_Accounts v = []) (VenueAccounts name)
       @ complain (vc_APIKey v = [] \<or> vc_APISecret v = []) (VenueCredentials name))"

definition Validate :: "Config \<Rightarrow> ConfigErr list" where
  "Validate c =
     complain (lg_Level (c_Log c) \<notin> set validLevels) (BadLevel (lg_Level (c_Log c)))
   @ complain (lg_Format (c_Log c) \<noteq> ''console'' \<and> lg_Format (c_Log c) \<noteq> ''json'') (BadFormat (lg_Format (c_Log c)))
   @ complain (c_HTTP_Addr c = []) NoHTTPAddr
   @ complain (c_Snapshot_Interval c \<le> 0) (SnapshotInterval (c_Snapshot_Interval c))
   @ complain (oc_Interval (c_Outbox c) < 200 * millisecond \<or> oc_Interval (c_Outbox c) > second)
       (OutboxInterval (oc_Interval (c_Outbox c)))
   @ complain (oc_Batch (c_Outbox c) \<le> 0 \<or> oc_Batch (c_Outbox c) > 1000) (OutboxBatch (oc_Batch (c_Outbox c)))
   @ complain (c_Reconcile_Interval c < 5 * second \<or> c_Reconcile_Interval c > 5 * minute)
       (ReconcileInterval (c_Reconcile_Interval c))
   @ complain (c_Order_SubmitBudget c < second \<or> c_Order_SubmitBudget c > minute) (SubmitBudget (c_Order_SubmitBudget c))
   @ complain (c_Postgres_DSN c = []) NoDSN
   @ complain (c_QuestDB_Conf c = []) NoConf
   @ concat (map (\<lambda>(name, v). complain (vc_Trading v \<and> \<not> vc_Enabled v) (TradingDisabledVenue name)
       @ venue_validate v name) (c_Venues c))"

definition EnabledVenues :: "Config \<Rightarrow> string list" where
  "EnabledVenues c = map fst (filter (\<lambda>(name, v). vc_Enabled v) (c_Venues c))"

subsection \<open>Secrets\<close>

text \<open>\<open>filepath.Clean\<close> and \<open>filepath.Join\<close> on Unix: the path without empty, \<open>.\<close> and inner \<open>..\<close> elements.\<close>

fun splitOn :: "char \<Rightarrow> string \<Rightarrow> string list" where
  "splitOn sep [] = [[]]"
| "splitOn sep (c # cs) = (if c = sep then [] # splitOn sep cs
     else (case splitOn sep cs of [] \<Rightarrow> [[c]] | x # xs \<Rightarrow> (c # x) # xs))"

definition cleanStep :: "bool \<Rightarrow> string \<Rightarrow> string list \<Rightarrow> string list" where
  "cleanStep rooted el stack =
    (if el = [] \<or> el = ''.'' then stack
     else if el = ''..'' then
       (case stack of
          parent # below \<Rightarrow> if parent \<noteq> ''..'' then below else el # stack
        | [] \<Rightarrow> if rooted then [] else [el])
     else el # stack)"

fun intercalate :: "string \<Rightarrow> string list \<Rightarrow> string" where
  "intercalate sep [] = []"
| "intercalate sep [x] = x"
| "intercalate sep (x # y # ys) = x @ sep @ intercalate sep (y # ys)"

definition path_Clean :: "string \<Rightarrow> string" where
  "path_Clean path =
    (let rooted = HasPrefix path ''/''; els = rev (fold (cleanStep rooted) (splitOn CHR ''/'' path) []) in
     if rooted then CHR ''/'' # intercalate ''/'' els
     else if els = [] then ''.'' else intercalate ''/'' els)"

definition path_Join :: "string \<Rightarrow> string \<Rightarrow> string" where
  "path_Join a b = (case filter (\<lambda>x. x \<noteq> []) [a, b] of [] \<Rightarrow> [] | els \<Rightarrow> path_Clean (intercalate ''/'' els))"

record OS =
  os_UserHomeDir :: "Err + string"
  os_ReadFile :: "string \<Rightarrow> Err + string"

datatype SecretErr =
    BothValueAndFile
  | NoHome Err
  | ReadSecret Err
  | EmptySecret string

definition resolveSecret :: "OS \<Rightarrow> string \<Rightarrow> string \<Rightarrow> SecretErr + string" where
  "resolveSecret os val path =
    (if path = [] then Inr val
     else if val \<noteq> [] then Inl BothValueAndFile
     else bindR (case CutPrefix path ''~/'' of
         Some home \<Rightarrow> (case os_UserHomeDir os of Inl err \<Rightarrow> Inl (NoHome err) | Inr dir \<Rightarrow> Inr (path_Join dir home))
       | None \<Rightarrow> Inr path)
      (\<lambda>path. case os_ReadFile os path of
         Inl err \<Rightarrow> Inl (ReadSecret err)
       | Inr b \<Rightarrow> (let secret = TrimSpace b in if secret = [] then Inl (EmptySecret path) else Inr secret)))"

datatype LoadErr =
    LoadDefaults Err
  | LoadFile string Err
  | LoadEnv Err
  | Unmarshal Err
  | SecretOf string string SecretErr \<comment> \<open>the venue, the field\<close>
  | Invalid "ConfigErr list"

definition resolveVenue :: "OS \<Rightarrow> string \<times> VenueCfg \<Rightarrow> LoadErr + (string \<times> VenueCfg)" where
  "resolveVenue os nv = (case nv of (name, v) \<Rightarrow>
    if \<not> vc_Enabled v then Inr (name, v)
    else (case resolveSecret os (vc_APIKey v) (vc_APIKeyFile v) of
        Inl err \<Rightarrow> Inl (SecretOf name ''api_key'' err)
      | Inr key \<Rightarrow>
         (case resolveSecret os (vc_APISecret v) (vc_APISecretFile v) of
            Inl err \<Rightarrow> Inl (SecretOf name ''api_secret'' err)
          | Inr secret \<Rightarrow> Inr (name, v\<lparr>vc_APIKey := key, vc_APISecret := secret\<rparr>))))"

fun resolveSecretFiles :: "OS \<Rightarrow> (string \<times> VenueCfg) list \<Rightarrow> LoadErr + (string \<times> VenueCfg) list" where
  "resolveSecretFiles os [] = Inr []"
| "resolveSecretFiles os (nv # nvs) = bindR (resolveVenue os nv) (\<lambda>nv'.
     bindR (resolveSecretFiles os nvs) (\<lambda>nvs'. Inr (nv' # nvs')))"

subsection \<open>Loading\<close>

datatype ConfValue = CString string | CInt int | CStrings "string list"

definition defaults :: "(string \<times> ConfValue) list" where
  "defaults = [(''log.level'', CString ''info''), (''log.format'', CString ''console''), (''http.addr'', CString '':8080''),
     (''snapshot.interval'', CString ''60s''), (''outbox.interval'', CString ''500ms''), (''outbox.batch'', CInt 100),
     (''reconcile.interval'', CString ''30s''), (''order.submit_budget'', CString ''10s'')]"

fun replaceDouble :: "string \<Rightarrow> string" where
  "replaceDouble (c # d # cs) = (if c = CHR ''_'' \<and> d = CHR ''_'' then CHR ''.'' # replaceDouble cs
     else c # replaceDouble (d # cs))"
| "replaceDouble cs = cs"

definition HasSuffix :: "string \<Rightarrow> string \<Rightarrow> bool" where
  "HasSuffix s suf \<longleftrightarrow> HasPrefix (rev s) (rev suf)"

definition TrimPrefix :: "string \<Rightarrow> string \<Rightarrow> string" where
  "TrimPrefix s p = (case CutPrefix s p of Some rest \<Rightarrow> rest | None \<Rightarrow> s)"

text \<open>The function that turns an environment variable into a key and a value.\<close>

definition envTransform :: "string \<Rightarrow> string \<Rightarrow> string \<times> ConfValue" where
  "envTransform key0 val =
    (let key = replaceDouble (ToLower (TrimPrefix key0 EnvPrefix)) in
     if HasSuffix key ''.accounts'' then (key, CStrings (map TrimSpace (splitOn CHR '','' val)))
     else (key, CString val))"

text \<open>What the code uses of koanf, on a store of type \<open>'k\<close>.\<close>

record 'k Koanf =
  ko_New :: 'k
  ko_LoadMap :: "(string \<times> ConfValue) list \<Rightarrow> 'k \<Rightarrow> Err + 'k"
  ko_LoadFile :: "string \<Rightarrow> 'k \<Rightarrow> Err + 'k"
  ko_LoadEnv :: "string \<Rightarrow> (string \<Rightarrow> string \<Rightarrow> string \<times> ConfValue) \<Rightarrow> 'k \<Rightarrow> Err + 'k"
  ko_Unmarshal :: "'k \<Rightarrow> Err + Config"
  ko_String :: "string \<Rightarrow> 'k \<Rightarrow> string"

definition mapErr :: "('e \<Rightarrow> 'f) \<Rightarrow> 'e + 'a \<Rightarrow> 'f + 'a" where
  "mapErr f r = (case r of Inl e \<Rightarrow> Inl (f e) | Inr x \<Rightarrow> Inr x)"

definition Load :: "'k Koanf \<Rightarrow> OS \<Rightarrow> string \<Rightarrow> bool \<Rightarrow> LoadErr + Config" where
  "Load ko os path explicit =
    bindR (mapErr LoadDefaults (ko_LoadMap ko defaults (ko_New ko))) (\<lambda>k1.
    bindR (case ko_LoadFile ko path k1 of
        Inl err \<Rightarrow> if explicit \<or> \<not> errors_Is err FsErrNotExist then Inl (LoadFile path err) else Inr k1
      | Inr k2 \<Rightarrow> Inr k2) (\<lambda>k2.
    bindR (mapErr LoadEnv (ko_LoadEnv ko EnvPrefix envTransform k2)) (\<lambda>k3.
    bindR (mapErr Unmarshal (ko_Unmarshal ko k3)) (\<lambda>cfg.
    bindR (resolveSecretFiles os (c_Venues cfg)) (\<lambda>venues.
    let cfg' = cfg\<lparr>c_Venues := venues\<rparr> in
    if Validate cfg' \<noteq> [] then Inl (Invalid (Validate cfg')) else Inr cfg')))))"

definition APIAddr :: "'k Koanf \<Rightarrow> string \<Rightarrow> LoadErr + string" where
  "APIAddr ko path = (case ko_LoadFile ko path (ko_New ko) of
     Inl err \<Rightarrow> if errors_Is err FsErrNotExist then Inr [] else Inl (LoadFile path err)
   | Inr k \<Rightarrow> Inr (ko_String ko ''api.addr'' k))"

subsection \<open>What a loaded configuration satisfies\<close>

lemma complain_empty [simp]: "complain b e = [] \<longleftrightarrow> \<not> b"
  by (simp add: complain_def)

definition venue_ok :: "VenueCfg \<Rightarrow> bool" where
  "venue_ok v \<longleftrightarrow> (vc_Trading v \<longrightarrow> vc_Enabled v) \<and> (vc_Enabled v \<longrightarrow> \<not> float_le0 (RPS (vc_Rate v)) \<and> 0 < Burst (vc_Rate v)
     \<and> vc_Accounts v \<noteq> [] \<and> vc_APIKey v \<noteq> [] \<and> vc_APISecret v \<noteq> [])"

text \<open>The bounds in nanoseconds.\<close>

definition within_bounds :: "Config \<Rightarrow> bool" where
  "within_bounds c \<longleftrightarrow> 0 < c_Snapshot_Interval c
     \<and> 200000000 \<le> oc_Interval (c_Outbox c) \<and> oc_Interval (c_Outbox c) \<le> 1000000000
     \<and> 1 \<le> oc_Batch (c_Outbox c) \<and> oc_Batch (c_Outbox c) \<le> 1000
     \<and> 5000000000 \<le> c_Reconcile_Interval c \<and> c_Reconcile_Interval c \<le> 300000000000
     \<and> 1000000000 \<le> c_Order_SubmitBudget c \<and> c_Order_SubmitBudget c \<le> 60000000000"

lemma Validate_venues: "concat (map (\<lambda>(name, v). complain (vc_Trading v \<and> \<not> vc_Enabled v) (TradingDisabledVenue name)
       @ venue_validate v name) vs) = [] \<longleftrightarrow> list_all (\<lambda>(name, v). venue_ok v) vs"
  by (induction vs) (auto simp: venue_ok_def venue_validate_def)

lemma Validate_iff: "Validate c = [] \<longleftrightarrow> lg_Level (c_Log c) \<in> set validLevels \<and> lg_Format (c_Log c) \<in> {''console'', ''json''}
     \<and> c_HTTP_Addr c \<noteq> [] \<and> c_Postgres_DSN c \<noteq> [] \<and> c_QuestDB_Conf c \<noteq> [] \<and> within_bounds c
     \<and> list_all (\<lambda>(name, v). venue_ok v) (c_Venues c)"
  unfolding Validate_def within_bounds_def duration_defs append_is_Nil_conv complain_empty Validate_venues by auto

text \<open>
  Where the credentials of a venue come from: a disabled venue is left as it is configured; an enabled
  one has each credential from its value, or trimmed and not empty from its file, never from both.
\<close>

definition secret_from :: "OS \<Rightarrow> string \<Rightarrow> string \<Rightarrow> string \<Rightarrow> bool" where
  "secret_from os val path secret \<longleftrightarrow> path = [] \<and> secret = val
     \<or> path \<noteq> [] \<and> val = [] \<and> secret \<noteq> [] \<and> (\<exists>file content. os_ReadFile os file = Inr content \<and> secret = TrimSpace content
         \<and> (case CutPrefix path ''~/'' of None \<Rightarrow> file = path
            | Some home \<Rightarrow> \<exists>dir. os_UserHomeDir os = Inr dir \<and> file = path_Join dir home))"

lemma resolveSecret_from: "resolveSecret os val path = Inr secret \<Longrightarrow> secret_from os val path secret"
  by (auto simp: resolveSecret_def secret_from_def Let_def split: if_splits option.splits sum.splits)

definition resolved :: "OS \<Rightarrow> string \<times> VenueCfg \<Rightarrow> string \<times> VenueCfg \<Rightarrow> bool" where
  "resolved os nv nv' \<longleftrightarrow> fst nv' = fst nv
     \<and> snd nv' = (snd nv)\<lparr>vc_APIKey := vc_APIKey (snd nv'), vc_APISecret := vc_APISecret (snd nv')\<rparr>
     \<and> (if vc_Enabled (snd nv)
        then secret_from os (vc_APIKey (snd nv)) (vc_APIKeyFile (snd nv)) (vc_APIKey (snd nv'))
          \<and> secret_from os (vc_APISecret (snd nv)) (vc_APISecretFile (snd nv)) (vc_APISecret (snd nv'))
        else snd nv' = snd nv)"

lemma resolveVenue_resolved: "resolveVenue os nv = Inr nv' \<Longrightarrow> resolved os nv nv'"
  by (auto simp: resolveVenue_def resolved_def split: prod.splits if_splits sum.splits dest: resolveSecret_from)

lemma resolveSecretFiles_resolved: "resolveSecretFiles os vs = Inr vs' \<Longrightarrow> list_all2 (resolved os) vs vs'"
  by (induction vs arbitrary: vs') (auto dest: resolveVenue_resolved)

lemma mapErr_Inr_iff [simp]: "mapErr f r = Inr x \<longleftrightarrow> r = Inr x"
  by (simp add: mapErr_def split: sum.split)

lemma Load_Inr:
  assumes "Load ko os path explicit = Inr cfg"
  obtains k cfg0 where "ko_Unmarshal ko k = Inr cfg0" "resolveSecretFiles os (c_Venues cfg0) = Inr (c_Venues cfg)" "Validate cfg = []"
proof -
  from assms obtain k cfg0 venues where "ko_Unmarshal ko k = Inr cfg0" "resolveSecretFiles os (c_Venues cfg0) = Inr venues"
    "(if Validate (cfg0\<lparr>c_Venues := venues\<rparr>) \<noteq> [] then Inl (Invalid (Validate (cfg0\<lparr>c_Venues := venues\<rparr>)))
      else Inr (cfg0\<lparr>c_Venues := venues\<rparr>)) = Inr cfg"
    unfolding Load_def Let_def bindR_Inr_iff mapErr_Inr_iff by blast
  then show thesis by (intro that [of k cfg0]) (auto split: if_splits)
qed

text \<open>
  C29: what starts the daemon is a sane configuration. Whatever the file, the environment and the secret
  files hold, a configuration that \<open>Load\<close> returns has every interval and limit within its bounds, so that
  twice the reconcile interval does not overflow a duration; every venue that trades is enabled; every
  enabled venue has a rate that is not zero or negative, an account and both credentials; and these
  credentials come from exactly one source each, read and trimmed, while a disabled venue is untouched.
\<close>

theorem Load_bounds:
  assumes "Load ko os path explicit = Inr cfg"
  shows "within_bounds cfg \<and> wrap64 (2 * c_Reconcile_Interval cfg) = 2 * c_Reconcile_Interval cfg
    \<and> lg_Level (c_Log cfg) \<in> set validLevels \<and> c_Postgres_DSN cfg \<noteq> [] \<and> c_QuestDB_Conf cfg \<noteq> []
    \<and> list_all (\<lambda>(name, v). venue_ok v) (c_Venues cfg)
    \<and> (\<exists>k cfg0. ko_Unmarshal ko k = Inr cfg0 \<and> list_all2 (resolved os) (c_Venues cfg0) (c_Venues cfg))"
proof -
  from assms obtain k cfg0 where u: "ko_Unmarshal ko k = Inr cfg0"
    and r: "resolveSecretFiles os (c_Venues cfg0) = Inr (c_Venues cfg)" and v: "Validate cfg = []" by (rule Load_Inr)
  from v have b: "within_bounds cfg" by (simp add: Validate_iff)
  then have "wrap64 (2 * c_Reconcile_Interval cfg) = 2 * c_Reconcile_Interval cfg"
    by (intro wrap64_id) (auto simp: within_bounds_def)
  with b v u resolveSecretFiles_resolved [OF r] show ?thesis by (auto simp: Validate_iff)
qed

definition demo_cfg :: Config where
  "demo_cfg = \<lparr>c_Log = \<lparr>lg_Level = ''info'', lg_Format = ''json''\<rparr>, c_HTTP_Addr = '':8080'', c_API_Addr = [],
     c_Postgres_DSN = ''postgres://delta'', c_QuestDB_Conf = ''http::addr=localhost:9000;'', c_Snapshot_Interval = 60 * second,
     c_Outbox = \<lparr>oc_Interval = 500 * millisecond, oc_Batch = 100\<rparr>, c_Reconcile_Interval = 30 * second,
     c_Order_SubmitBudget = 10 * second,
     c_Venues = [(''bybit'', \<lparr>vc_Enabled = True, vc_Trading = True, vc_Accounts = [''spot''], vc_Rate = \<lparr>RPS = Finite 5, Burst = 10\<rparr>,
       vc_APIKey = ''key'', vc_APISecret = [], vc_APIKeyFile = [], vc_APISecretFile = ''~/secret''\<rparr>)]\<rparr>"

definition demo_koanf :: "unit Koanf" where
  "demo_koanf = \<lparr>ko_New = (), ko_LoadMap = (\<lambda>_ _. Inr ()), ko_LoadFile = (\<lambda>_ _. Inl (ESentinel FsErrNotExist)),
     ko_LoadEnv = (\<lambda>_ _ _. Inr ()), ko_Unmarshal = (\<lambda>_. Inr demo_cfg), ko_String = (\<lambda>_ _. [])\<rparr>"

definition demo_os :: OS where
  "demo_os = \<lparr>os_UserHomeDir = Inr ''/home/delta'',
     os_ReadFile = (\<lambda>f. if f = ''/home/delta/secret'' then Inr '' s3cret '' else Inl (ESentinel FsErrNotExist))\<rparr>"

lemma demo_load: "\<exists>cfg. Load demo_koanf demo_os ''config.yaml'' False = Inr cfg \<and> map (vc_APISecret o snd) (c_Venues cfg) = [''s3cret'']"
  by (simp add: Load_def demo_koanf_def demo_os_def demo_cfg_def Let_def mapErr_def resolveVenue_def resolveSecret_def CutPrefix_def
      HasPrefix_def path_Join_def path_Clean_def cleanStep_def TrimSpace_def is_space_def Validate_def complain_def validLevels_def
      venue_validate_def duration_defs)

lemma Load_bounds_witness:
  "\<exists>cfg. Load demo_koanf demo_os ''config.yaml'' False = Inr cfg \<and> map (vc_APISecret o snd) (c_Venues cfg) = [''s3cret'']
     \<and> within_bounds cfg \<and> wrap64 (2 * c_Reconcile_Interval cfg) = 2 * c_Reconcile_Interval cfg"
proof -
  from demo_load obtain cfg where c: "Load demo_koanf demo_os ''config.yaml'' False = Inr cfg
    \<and> map (vc_APISecret o snd) (c_Venues cfg) = [''s3cret'']" by (elim exE)
  from Load_bounds [OF conjunct1 [OF c]] c show ?thesis by (intro exI [of _ cfg]) simp
qed

text \<open>A rate that is not a number passes the check, since no comparison of it holds.\<close>

lemma rate_NaN_accepted: "Validate c = [] \<Longrightarrow> Validate (c\<lparr>c_Venues := map (\<lambda>(name, v). (name, v\<lparr>vc_Rate := \<lparr>RPS = NaN, Burst = 1\<rparr>\<rparr>)) (c_Venues c)\<rparr>) = []"
  by (auto simp: Validate_iff within_bounds_def list_all_iff venue_ok_def)

subsection \<open>Environment variables\<close>

fun no_double :: "string \<Rightarrow> bool" where
  "no_double (c # d # cs) = (\<not> (c = CHR ''_'' \<and> d = CHR ''_'') \<and> no_double (d # cs))"
| "no_double cs = True"

definition segment :: "string \<Rightarrow> bool" where
  "segment s \<longleftrightarrow> no_double s \<and> s \<noteq> [] \<and> last s \<noteq> CHR ''_''"

lemma replaceDouble_id: "no_double s \<Longrightarrow> replaceDouble s = s"
  by (induction s rule: replaceDouble.induct) auto

lemma replaceDouble_segment: "segment s \<Longrightarrow> replaceDouble (s @ ''__'' @ r) = s @ ''.'' @ replaceDouble r"
  unfolding segment_def by (induction s rule: replaceDouble.induct) (auto split: if_splits)

lemma replaceDouble_segments: "list_all segment ss \<Longrightarrow> replaceDouble (intercalate ''__'' ss) = intercalate ''.'' ss"
proof (induction "''__''" ss rule: intercalate.induct)
  case (3 x y ys)
  then show ?case using replaceDouble_segment [of x "intercalate ''__'' (y # ys)"] by simp
qed (auto simp: segment_def replaceDouble_id)

lemma lower_underscore [simp]: "lower_char c = CHR ''_'' \<longleftrightarrow> c = CHR ''_''"
proof -
  have "lower_char c = CHR ''_'' \<longleftrightarrow> (of_char (lower_char c) :: nat) = 95"
    using char_eqI [of "lower_char c" "CHR ''_''"] by auto
  also have "\<dots> \<longleftrightarrow> (of_char c :: nat) = 95" by (auto simp: of_char_lower)
  also have "\<dots> \<longleftrightarrow> c = CHR ''_''" using char_eqI [of c "CHR ''_''"] by auto
  finally show ?thesis .
qed

lemma segment_lower: "segment s \<Longrightarrow> segment (ToLower s)"
proof -
  have "no_double (ToLower s) = no_double s"
    by (induction s rule: no_double.induct) (auto simp: ToLower_def)
  then show "segment s \<Longrightarrow> segment (ToLower s)" by (auto simp: segment_def ToLower_def last_map)
qed

lemma lower_intercalate: "ToLower (intercalate ''__'' ss) = intercalate ''__'' (map ToLower ss)"
  by (induction "''__''" ss rule: intercalate.induct) (auto simp: ToLower_def lower_char_def)

text \<open>
  A variable named after the path of a key, with double underscores between the parts, sets that key: single
  underscores inside a part survive.
\<close>

lemma envTransform_key: "list_all segment ss \<Longrightarrow>
    fst (envTransform (EnvPrefix @ intercalate ''__'' ss) val) = intercalate ''.'' (map ToLower ss)"
  by (simp add: envTransform_def Let_def TrimPrefix_def CutPrefix_def HasPrefix_def EnvPrefix_def lower_intercalate
      replaceDouble_segments list_all_iff segment_lower)

end
