(* ===== verification/Snapshot_World.thy ===== *)
theory Snapshot_World
  imports Snapshot_Service Gct_Adapter Config
begin

section \<open>The snapshot service as it is wired\<close>

text \<open>
  The part of \<open>internal/app/app.go\<close> that builds the venue connections and the snapshot service from the
  configuration, and the service on the Postgres checkpoint store and the QuestDB writer. The world
  has the state of every connection, the database, the line sender and the bus. Before each call of a loop
  the rest of the process may have run: \<open>z_others\<close> gives what it did to the database and to the sender;
  while the loop holds the mutex, it leaves the sender alone.
\<close>

subsection \<open>Connecting the venues\<close>

text \<open>
  What \<open>gct.New\<close> uses of the engine: finding an exchange by name, its default configuration, and its setup.
  The features of a configuration may be missing.
\<close>

record GctFeatures =
  gf_SupportsWebsocket :: bool
  gf_EnabledWebsocket :: bool

record GctConfig =
  gc_AuthenticatedSupport :: bool
  gc_AuthenticatedWebsocketSupport :: bool
  gc_Key :: string
  gc_Secret :: string
  gc_Features :: "GctFeatures option"

record ('x, 'v) Engine =
  en_ByName :: "string \<Rightarrow> Err + 'x"
  en_DefaultConfig :: "'x \<Rightarrow> Err + GctConfig"
  en_Setup :: "'x \<Rightarrow> GctConfig \<Rightarrow> Err + 'v Bot"

definition applyCredentials :: "GctConfig \<Rightarrow> VenueCfg \<Rightarrow> GctConfig" where
  "applyCredentials g cfg = (if vc_APIKey cfg = [] then g
     else g\<lparr>gc_AuthenticatedSupport := True, gc_AuthenticatedWebsocketSupport := True,
       gc_Key := vc_APIKey cfg, gc_Secret := vc_APISecret cfg\<rparr>)"

definition enableWebsocket :: "GctConfig \<Rightarrow> GctConfig" where
  "enableWebsocket g = (case gc_Features g of
     Some f \<Rightarrow> if gf_SupportsWebsocket f then g\<lparr>gc_Features := Some (f\<lparr>gf_EnabledWebsocket := True\<rparr>)\<rparr> else g
   | None \<Rightarrow> g)"

definition wrapR :: "string \<Rightarrow> Err + 'a \<Rightarrow> Err + 'a" where
  "wrapR t r = (case r of Inl e \<Rightarrow> Inl (wrap t e) | Inr x \<Rightarrow> Inr x)"

definition gct_New :: "('x, 'v) Engine \<Rightarrow> string \<Rightarrow> VenueCfg \<Rightarrow> Err + 'v GctExchange" where
  "gct_New en venue cfg =
    bindR (wrapR (''gct: unsupported venue '' @ fmt_q venue) (en_ByName en venue)) (\<lambda>exch.
    bindR (wrapR (''gct: default config for '' @ fmt_q venue) (en_DefaultConfig en exch)) (\<lambda>defaultCfg.
    bindR (wrapR (''gct: setup '' @ fmt_q venue) (en_Setup en exch (enableWebsocket (applyCredentials defaultCfg cfg)))) (\<lambda>b.
    Inr \<lparr>ge_id = NewVenueID venue, ge_exch = b\<rparr>)))"

text \<open>\<open>newExchangeProducts\<close>: the decorated venues, and those of them that trade with their placer and adapter.\<close>

record ('v, 'c) TradingVenue =
  tv_ID :: VenueID
  tv_Placer :: "'c OrderPlacer"
  tv_Streams :: "'v GctExchange"

record ('v, 'l, 'b, 'x) Libraries =
  lb_Engine :: "('x, 'v) Engine"
  lb_NewLimiter :: "Float64 \<Rightarrow> int \<Rightarrow> ('l, unit) op"
  lb_NewCircuitBreaker :: "Settings \<Rightarrow> ('v \<times> 'l, 'b) execute"

type_synonym ('v, 'l, 'b) conn = "('v \<times> 'l) \<times> 'b"

definition venueOrNone :: "Config \<Rightarrow> string \<Rightarrow> VenueCfg" where
  "venueOrNone cfg name = (case map_of (c_Venues cfg) name of Some v \<Rightarrow> v
     | None \<Rightarrow> \<lparr>vc_Enabled = False, vc_Trading = False, vc_Accounts = [], vc_Rate = \<lparr>RPS = Finite 0, Burst = 0\<rparr>,
         vc_APIKey = [], vc_APISecret = [], vc_APIKeyFile = [], vc_APISecretFile = []\<rparr>)"

fun connectVenues :: "('v, 'l, 'b, 'x) Libraries \<Rightarrow> Config \<Rightarrow> string list
    \<Rightarrow> Err + (('v, 'l, 'b) conn Exchange list \<times> ('v, ('v, 'l, 'b) conn) TradingVenue list)" where
  "connectVenues lib cfg [] = Inr ([], [])"
| "connectVenues lib cfg (name # names) =
    (let venueCfg = venueOrNone cfg name in
     bindR (gct_New (lb_Engine lib) name venueCfg) (\<lambda>ex.
     let decorated = Decorate (lb_NewLimiter lib) (lb_NewCircuitBreaker lib) (gctExchange ex) (RPS (vc_Rate venueCfg)) (Burst (vc_Rate venueCfg)) in
     bindR (if \<not> vc_Trading venueCfg then Inr []
       else (case ex_Placer decorated of
          None \<Rightarrow> Inl (EText (''venue '' @ fmt_q name @ '': decorated exchange does not implement order placement''))
        | Some placer \<Rightarrow> Inr [\<lparr>tv_ID = NewVenueID name, tv_Placer = placer, tv_Streams = ex\<rparr>])) (\<lambda>trading.
     bindR (connectVenues lib cfg names) (\<lambda>(exchanges, tradings).
     Inr (decorated # exchanges, trading @ tradings)))))"

definition newExchangeProducts :: "('v, 'l, 'b, 'x) Libraries \<Rightarrow> Config
    \<Rightarrow> Err + (('v, 'l, 'b) conn Exchange list \<times> ('v, ('v, 'l, 'b) conn) TradingVenue list)" where
  "newExchangeProducts lib cfg = connectVenues lib cfg (EnabledVenues cfg)"

text \<open>The targets that \<open>newSnapshotService\<close> builds.\<close>

definition snapshotTargets :: "Config \<Rightarrow> Target list" where
  "snapshotTargets cfg = concat (map (\<lambda>name. map (\<lambda>acct. \<lparr>tg_Venue = NewVenueID name, tg_Account = acct\<rparr>)
     (vc_Accounts (venueOrNone cfg name))) (EnabledVenues cfg))"

subsection \<open>The world\<close>

record ('c, 'q) SnapWorld =
  z_conns :: "VenueID \<Rightarrow> 'c"
  z_db :: DB
  z_sender :: 'q
  z_bus :: "BusPayload InProc"
  z_step :: nat
  z_others :: "nat \<Rightarrow> bool \<Rightarrow> DB \<times> 'q \<Rightarrow> DB \<times> 'q"
  z_time :: "nat \<Rightarrow> Time"
  z_uuid :: "nat \<Rightarrow> string"
  z_said :: "(BusPayload BusEvent \<times> CheckpointRow list) list"
  z_metrics :: "(Target \<times> bool) list"

definition z_ckpts :: "('c, 'q) SnapWorld \<Rightarrow> CheckpointRow list" where
  "z_ckpts w = snapshot_checkpoints (db_durable (z_db w))"

definition elsewhere :: "bool \<Rightarrow> ('c, 'q) SnapWorld \<Rightarrow> ('c, 'q) SnapWorld" where
  "elsewhere locked w = (case z_others w (z_step w) locked (z_db w, z_sender w) of
     (db, q) \<Rightarrow> w\<lparr>z_step := Suc (z_step w), z_db := db, z_sender := q\<rparr>)"

definition onConn :: "VenueID \<Rightarrow> ('c, 'a) op \<Rightarrow> (('c, 'q) SnapWorld, 'a) op" where
  "onConn venue m w = (let w1 = elsewhere False w in
     case m (z_conns w1 venue) of (r, c) \<Rightarrow> (r, w1\<lparr>z_conns := (z_conns w1)(venue := c)\<rparr>))"

definition onSender :: "('q, 'a) op \<Rightarrow> (('c, 'q) SnapWorld, 'a) op" where
  "onSender m w = (let w1 = elsewhere True w in case m (z_sender w1) of (r, q) \<Rightarrow> (r, w1\<lparr>z_sender := q\<rparr>))"

definition onCheckpoints :: "'a dbop \<Rightarrow> (('c, 'q) SnapWorld, 'a) op" where
  "onCheckpoints m w = (let w1 = elsewhere False w in case m (z_db w1) of (r, db) \<Rightarrow> (r, w1\<lparr>z_db := db\<rparr>))"

definition announce :: "BusPayload BusEvent \<Rightarrow> (('c, 'q) SnapWorld, unit) op" where
  "announce e w = (let w1 = elsewhere False w in
     case Publish e (z_bus w1) of (r, b) \<Rightarrow> (r, w1\<lparr>z_bus := b, z_said := z_said w1 @ [(e, z_ckpts w1)]\<rparr>))"

text \<open>A connection used from the world.\<close>

definition worldPlacer :: "VenueID \<Rightarrow> 'c OrderPlacer \<Rightarrow> ('c, 'q) SnapWorld OrderPlacer" where
  "worldPlacer venue p = \<lparr>op_PlaceOrder = (\<lambda>req. onConn venue (op_PlaceOrder p req)),
     op_CancelOrder = (\<lambda>ref. onConn venue (op_CancelOrder p ref)), op_OpenOrders = onConn venue (op_OpenOrders p),
     op_GetOrder = (\<lambda>ref. onConn venue (op_GetOrder p ref))\<rparr>"

definition worldExchange :: "'c Exchange \<Rightarrow> ('c, 'q) SnapWorld Exchange" where
  "worldExchange ex = \<lparr>ex_ID = ex_ID ex, ex_Ticker = (\<lambda>inst. onConn (ex_ID ex) (ex_Ticker ex inst)),
     ex_Instruments = (\<lambda>typ. onConn (ex_ID ex) (ex_Instruments ex typ)),
     ex_Balances = (\<lambda>acct. onConn (ex_ID ex) (ex_Balances ex acct)),
     ex_Placer = map_option (worldPlacer (ex_ID ex)) (ex_Placer ex)\<rparr>"

record ('c, 'q) SnapApp =
  za_exchanges :: "'c Exchange list"
  za_sender :: "'q LineSender"
  za_float :: "Decimal \<Rightarrow> Float64"
  za_buffered :: "'q \<Rightarrow> Line set" \<comment> \<open>what the sender holds back, and what it has stored\<close>
  za_kept :: "'q \<Rightarrow> Line set"
  za_interval :: Duration
  za_targets :: "Target list"
  za_Retry :: "('c, 'q) SnapWorld ctx \<Rightarrow> Duration \<Rightarrow> (('c, 'q) SnapWorld, Balance list) attempt
    \<Rightarrow> (('c, 'q) SnapWorld, Balance list) op"
  za_ended :: "nat \<Rightarrow> bool"

definition snapshotService :: "('c, 'q) SnapApp \<Rightarrow> ('c, 'q) SnapWorld SnapshotSvc" where
  "snapshotService app = \<lparr>
     sn_Get = rg_Get (NewRegistry (map worldExchange (za_exchanges app))),
     sn_series = \<lparr>sw_WriteBalanceSnapshot = (\<lambda>snap. onSender (WriteBalanceSnapshot (za_sender app) (za_float app) snap)),
       sw_Flush = onSender (Flush (za_sender app))\<rparr>,
     sn_recorder = \<lparr>sr_RecordSnapshot = (\<lambda>c. onCheckpoints (RecordSnapshot c))\<rparr>,
     sn_Publish = announce, sn_clk = (\<lambda>w. z_time w (z_step w)), sn_uuid = (\<lambda>w. z_uuid w (z_step w)),
     sn_interval = za_interval app, sn_targets = za_targets app, sn_Retry = za_Retry app,
     sn_Lock = elsewhere False, sn_Unlock = (\<lambda>w. w),
     sn_observeError = (\<lambda>t w. w\<lparr>z_metrics := z_metrics w @ [(t, False)]\<rparr>),
     sn_observeSuccess = (\<lambda>t d takenAt w. w\<lparr>z_metrics := z_metrics w @ [(t, True)]\<rparr>),
     sn_tick = (\<lambda>w. (za_ended app (z_step w), elsewhere False w))\<rparr>"

subsection \<open>The laws hold\<close>

text \<open>
  What a loop assumes of the rest of the process, which are the other loops and the stores: what it
  guarantees itself, and that the holder of the mutex has the sender to itself.
\<close>

definition others_behave :: "('c, 'q) SnapApp \<Rightarrow> ('c, 'q) SnapWorld \<Rightarrow> bool" where
  "others_behave app w \<longleftrightarrow> (\<forall>n locked db q db' q'. z_others w n locked (db, q) = (db', q') \<longrightarrow>
     za_kept app q \<subseteq> za_kept app q' \<and> (locked \<longrightarrow> q' = q)
     \<and> (\<exists>more. snapshot_checkpoints (db_durable db') = snapshot_checkpoints (db_durable db) @ more
         \<and> list_all (anchored (za_float app) (za_kept app q')) more))"

definition snap_good :: "('c, 'q) SnapApp \<Rightarrow> ('c, 'q) SnapWorld \<Rightarrow> bool" where
  "snap_good app w \<longleftrightarrow> sender_laws (za_sender app) (za_buffered app) (za_kept app) \<and> others_behave app w"

abbreviation snap_safe :: "('c, 'q) SnapApp \<Rightarrow> ('c, 'q) SnapWorld \<Rightarrow> ('c, 'q) SnapWorld \<Rightarrow> bool" where
  "snap_safe app \<equiv> safely (snap_good app) (za_float app) (\<lambda>w. za_kept app (z_sender w)) z_ckpts z_said"

lemma others_behave_cong: "z_others w' = z_others w \<Longrightarrow> others_behave app w' = others_behave app w"
  by (simp add: others_behave_def)

lemma elsewhere_safe: "snap_safe app w (elsewhere locked w)"
proof (unfold safely_def, intro impI)
  assume g: "snap_good app w"
  obtain db q where e: "z_others w (z_step w) locked (z_db w, z_sender w) = (db, q)" by (metis surj_pair)
  then have w': "elsewhere locked w = w\<lparr>z_step := Suc (z_step w), z_db := db, z_sender := q\<rparr>" by (simp add: elsewhere_def)
  have "za_kept app (z_sender w) \<subseteq> za_kept app q \<and> (\<exists>more. snapshot_checkpoints (db_durable db)
      = snapshot_checkpoints (db_durable (z_db w)) @ more \<and> list_all (anchored (za_float app) (za_kept app q)) more)"
    using g e unfolding snap_good_def others_behave_def by blast
  moreover have "snap_good app (elsewhere locked w)" using g by (simp add: snap_good_def w' others_behave_def)
  ultimately show "snap_good app (elsewhere locked w) \<and> za_kept app (z_sender w) \<subseteq> za_kept app (z_sender (elsewhere locked w))
      \<and> (\<exists>more. z_ckpts (elsewhere locked w) = z_ckpts w @ more
          \<and> list_all (anchored (za_float app) (za_kept app (z_sender (elsewhere locked w)))) more)
      \<and> (\<exists>more. z_said (elsewhere locked w) = z_said w @ more \<and> list_all announces more)"
    by (simp add: w' z_ckpts_def)
qed

lemma elsewhere_locked: "snap_good app w \<Longrightarrow> z_sender (elsewhere True w) = z_sender w"
  unfolding snap_good_def others_behave_def elsewhere_def by (auto split: prod.splits)

lemma onConn_safe: "onConn venue m w = (r, w') \<Longrightarrow> snap_safe app w w'"
proof -
  assume run: "onConn venue m w = (r, w')"
  then obtain c where w': "w' = (elsewhere False w)\<lparr>z_conns := c\<rparr>" by (auto simp: onConn_def Let_def split: prod.splits)
  have "snap_safe app (elsewhere False w) w'" by (simp add: w' safely_def z_ckpts_def snap_good_def others_behave_def)
  then show ?thesis by (rule safely_trans [OF elsewhere_safe])
qed

lemma onSender_run:
  assumes "onSender m w = (r, w')"
  obtains q where "m (z_sender (elsewhere True w)) = (r, q)" "w' = (elsewhere True w)\<lparr>z_sender := q\<rparr>"
  using assms by (auto simp: onSender_def Let_def split: prod.splits)

lemma onSender_safe:
  assumes "onSender m w = (r, w')" "\<And>q r q'. snap_good app w \<Longrightarrow> m q = (r, q') \<Longrightarrow> za_kept app q \<subseteq> za_kept app q'"
  shows "snap_safe app w w'"
proof -
  from assms(1) obtain q where q: "m (z_sender (elsewhere True w)) = (r, q)" "w' = (elsewhere True w)\<lparr>z_sender := q\<rparr>"
    by (rule onSender_run)
  show ?thesis
  proof (cases "snap_good app w")
    case True
    then have "snap_safe app (elsewhere True w) w'"
      using assms(2) [OF True q(1)] by (simp add: q(2) safely_def z_ckpts_def snap_good_def others_behave_def)
    then show ?thesis by (rule safely_trans [OF elsewhere_safe])
  qed (simp add: safely_def)
qed

lemma RecordSnapshot_rows:
  assumes "RecordSnapshot c db = (r, db')"
  shows "\<exists>rows. snapshot_checkpoints (db_durable db') = snapshot_checkpoints (db_durable db) @ rows
    \<and> list_all (row_of c) rows \<and> (r = Inr () \<longrightarrow> rows \<noteq> [])"
  using assms
  by (auto simp: RecordSnapshot_def autocommit_def exec_def q_RecordSnapshot_def set_work_def rollbackTx_def row_of_def Let_def
      split: option.splits Fault.splits if_splits)

interpretation snap: snapshot_ports "snap_good app" "za_float app" "\<lambda>w. za_kept app (z_sender w)" "\<lambda>w. za_buffered app (z_sender w)"
  z_ckpts z_said "snapshotService app" for app :: "('c, 'q) SnapApp"
proof
  let ?s = "snapshotService app"
  let ?send = "za_sender app"
  fix w w' :: "('c, 'q) SnapWorld"
  show "snap_safe app w w'" if "sn_Get ?s venue = Inr ex" "ex_Balances ex acct w = (r1, w')" for venue ex acct r1
  proof -
    from that(1) obtain x where "ex = worldExchange x"
      using NewRegistry_subset [of "map worldExchange (za_exchanges app)"] by (auto simp: snapshotService_def venues.Get_iff)
    with that(2) show ?thesis by (auto simp: worldExchange_def intro: onConn_safe)
  qed
  show "snap_safe app w (sn_Lock ?s w)" "snap_safe app w (sn_Unlock ?s w)"
    by (simp_all add: snapshotService_def elsewhere_safe)
  show "snap_safe app w w' \<and> (snap_good app w \<longrightarrow> r2 = Inr () \<longrightarrow>
      snapshotLines (za_float app) snap \<subseteq> za_buffered app (z_sender w') \<union> za_kept app (z_sender w'))"
    if "sw_WriteBalanceSnapshot (sn_series ?s) snap w = (r2, w')" for snap r2
  proof -
    from that have run: "onSender (WriteBalanceSnapshot ?send (za_float app) snap) w = (r2, w')" by (simp add: snapshotService_def)
    have "snap_safe app w w'" by (rule onSender_safe [OF run]) (rule Write_lines(1), auto simp: snap_good_def)
    moreover have "snapshotLines (za_float app) snap \<subseteq> za_buffered app (z_sender w') \<union> za_kept app (z_sender w')"
      if "snap_good app w" "r2 = Inr ()"
    proof -
      from run obtain q where q: "WriteBalanceSnapshot ?send (za_float app) snap (z_sender (elsewhere True w)) = (r2, q)" "z_sender w' = q"
        by (auto elim!: onSender_run)
      show ?thesis
        using Write_lines(2) [OF conjunct1 [OF that(1) [unfolded snap_good_def]] q(1) that(2)] by (simp add: q(2))
    qed
    ultimately show ?thesis by blast
  qed
  show "snap_safe app w w' \<and> (snap_good app w \<longrightarrow> r3 = Inr () \<longrightarrow> za_buffered app (z_sender w) \<subseteq> za_kept app (z_sender w'))"
    if "sw_Flush (sn_series ?s) w = (r3, w')" for r3
  proof -
    from that have run: "onSender (Flush ?send) w = (r3, w')" by (simp add: snapshotService_def)
    have "snap_safe app w w'" by (rule onSender_safe [OF run]) (auto dest: Flush_lines simp: snap_good_def)
    moreover have "za_buffered app (z_sender w) \<subseteq> za_kept app (z_sender w')" if "snap_good app w" "r3 = Inr ()"
    proof -
      from run elsewhere_locked [OF that(1)] obtain q where q: "Flush ?send (z_sender w) = (r3, q)" "z_sender w' = q"
        by (auto elim!: onSender_run)
      show ?thesis
        using Flush_lines(2) [OF conjunct1 [OF that(1) [unfolded snap_good_def]] q(1) that(2)] by (simp add: q(2))
    qed
    ultimately show ?thesis by blast
  qed
  show "\<exists>u. snap_safe app w u \<and> snap_good app w' \<and> za_kept app (z_sender w') = za_kept app (z_sender u) \<and> z_said w' = z_said u
      \<and> (\<exists>rows. z_ckpts w' = z_ckpts u @ rows \<and> list_all (row_of c) rows \<and> (r4 = Inr () \<longrightarrow> rows \<noteq> []))"
    if g: "snap_good app w" and "sr_RecordSnapshot (sn_recorder ?s) c w = (r4, w')" for c r4
  proof -
    let ?u = "elsewhere False w"
    from that obtain db where db: "RecordSnapshot c (z_db ?u) = (r4, db)" "w' = ?u\<lparr>z_db := db\<rparr>"
      by (auto simp: snapshotService_def onCheckpoints_def Let_def split: prod.splits)
    have "snap_good app w'" using safely_good [OF elsewhere_safe g] by (simp add: db(2) snap_good_def others_behave_def)
    then show ?thesis using RecordSnapshot_rows [OF db(1)] by (intro exI [of _ ?u]) (simp add: db(2) z_ckpts_def elsewhere_safe)
  qed
  show "\<exists>u. snap_safe app w u \<and> snap_good app w' \<and> za_kept app (z_sender w') = za_kept app (z_sender u) \<and> z_ckpts w' = z_ckpts u
      \<and> z_said w' = z_said u @ [(e, z_ckpts u)]"
    if g: "snap_good app w" and "sn_Publish ?s e w = (r5, w')" for e r5
  proof -
    let ?u = "elsewhere False w"
    from that obtain b where w': "w' = ?u\<lparr>z_bus := b, z_said := z_said ?u @ [(e, z_ckpts ?u)]\<rparr>"
      by (auto simp: snapshotService_def announce_def Let_def split: prod.splits)
    have "snap_good app w'" using safely_good [OF elsewhere_safe g] by (simp add: w' snap_good_def others_behave_def)
    then show ?thesis by (intro exI [of _ ?u]) (simp add: w' z_ckpts_def elsewhere_safe)
  qed
  show "snap_safe app w (sn_observeError ?s t w)" "snap_safe app w (sn_observeSuccess ?s t d takenAt w)" for t d takenAt
    by (simp_all add: snapshotService_def safely_def z_ckpts_def snap_good_def others_behave_def)
  show "snap_safe app w w'" if "sn_tick ?s w = (b, w')" for b
    using that by (auto simp: snapshotService_def elsewhere_safe)
qed

subsection \<open>A concrete process\<close>

lemma world_ids: "ex_ID (worldExchange ex) = ex_ID ex"
  by (simp add: worldExchange_def)

definition demo_engine :: "(unit, unit) Engine" where
  "demo_engine = \<lparr>en_ByName = (\<lambda>_. Inr ()), en_DefaultConfig = (\<lambda>_. Inr \<lparr>gc_AuthenticatedSupport = False,
     gc_AuthenticatedWebsocketSupport = False, gc_Key = [], gc_Secret = [], gc_Features = None\<rparr>), en_Setup = (\<lambda>_ _. Inr demo_bot)\<rparr>"

definition demo_libraries :: "(unit, nat, nat, unit) Libraries" where
  "demo_libraries = \<lparr>lb_Engine = demo_engine, lb_NewLimiter = demo_limiter, lb_NewCircuitBreaker = demo_breaker\<rparr>"

definition demo_sender :: "(Line list \<times> Line list) LineSender" where
  "demo_sender = \<lparr>ls_At = (\<lambda>line (b, k). (Inr (), (b @ [line], k))), ls_Flush = (\<lambda>(b, k). (Inr (), ([], k @ b))),
     ls_Close = (\<lambda>q. (Inr (), q))\<rparr>"

definition retryOnce :: "'w ctx \<Rightarrow> Duration \<Rightarrow> ('w, 'a) attempt \<Rightarrow> ('w, 'a) op" where
  "retryOnce ctx budget f w = (case f w of
     (Inr a, w') \<Rightarrow> (Inr a, w') | (Inl (Permanent e), w') \<Rightarrow> (Inl e, w') | (Inl (Transient e), w') \<Rightarrow> (Inl e, w'))"

definition demo_connected :: "(unit, nat, nat) conn Exchange" where
  "demo_connected = Decorate demo_limiter demo_breaker (gctExchange demo_gct) (Finite 5) 10"

definition demo_snap_app :: "((unit, nat, nat) conn, Line list \<times> Line list) SnapApp" where
  "demo_snap_app = \<lparr>za_exchanges = [demo_connected], za_sender = demo_sender, za_float = Finite,
     za_buffered = (\<lambda>q. set (fst q)), za_kept = (\<lambda>q. set (snd q)), za_interval = 60 * second,
     za_targets = snapshotTargets demo_cfg, za_Retry = retryOnce, za_ended = (\<lambda>_. True)\<rparr>"

definition demo_snap_world :: "(nat \<Rightarrow> Fault option) \<Rightarrow> ((unit, nat, nat) conn, Line list \<times> Line list) SnapWorld" where
  "demo_snap_world faults = \<lparr>z_conns = (\<lambda>_. (((), 3), 0)), z_db = new_db faults (\<lambda>_. Time 1000), z_sender = ([], []), z_bus = NewInProc,
     z_step = 0, z_others = (\<lambda>_ _ x. x), z_time = (\<lambda>n. Time (1000000 * int n + 1000)), z_uuid = (\<lambda>_. ''7c9e''),
     z_said = [], z_metrics = []\<rparr>"

definition demo_target :: Target where
  "demo_target = \<lparr>tg_Venue = ''bybit'', tg_Account = ''spot''\<rparr>"

lemma demo_snap_good: "snap_good demo_snap_app (demo_snap_world faults)"
  by (auto simp: snap_good_def sender_laws_def others_behave_def demo_snap_app_def demo_sender_def demo_snap_world_def)

lemma demo_fetch: "fetch_retries (snapshotService demo_snap_app)"
  unfolding fetch_retries_def
proof (intro allI)
  fix ctx :: "((unit, nat, nat) conn, Line list \<times> Line list) SnapWorld ctx" and budget f w
  show "attempts f w (fst (sn_Retry (snapshotService demo_snap_app) ctx budget f w)) (snd (sn_Retry (snapshotService demo_snap_app) ctx budget f w))"
    by (auto simp: snapshotService_def demo_snap_app_def retryOnce_def split: prod.split sum.split RetryErr.split
        intro: attempts.succeeded attempts.permanent attempts.given_up)
qed

lemma demo_venue: "NewVenueID ''bybit'' = ''bybit''"
  by (simp add: NewVenueID_def ToLower_def lower_char_def TrimSpace_def is_space_def)

lemma demo_wired: "\<exists>tvs. newExchangeProducts demo_libraries demo_cfg = Inr (za_exchanges demo_snap_app, tvs)"
  by (simp add: newExchangeProducts_def EnabledVenues_def demo_cfg_def demo_libraries_def demo_engine_def gct_New_def wrapR_def
      demo_snap_app_def demo_connected_def demo_gct_def venueOrNone_def Let_def demo_venue Decorate_def WithBreaker_def)

lemma demo_targets: "demo_target \<in> set (snapshotTargets demo_cfg)"
  by (simp add: snapshotTargets_def EnabledVenues_def demo_cfg_def venueOrNone_def demo_target_def demo_venue)

lemma demo_connected_ID: "ex_ID demo_connected = ''bybit''"
  by (simp add: demo_connected_def Decorate_fields gctExchange_def demo_gct_def)

lemma demo_balances: "ex_Balances demo_connected ''spot'' (((), 3), 0)
    = (Inr [\<lparr>b_Currency = NewCurrency ''btc'', b_Total = 1, b_Free = 1, b_Locked = 0\<rparr>], (((), 2), 0))"
  by (simp add: demo_connected_def Decorate_def WithBreaker_def WithRateLimit_def gctExchange_def demo_gct_def br_Balances_def
      demo_breaker_def demo_accept_def demo_report_def demo_limiter_def rl_Balances_def afterWait_def boxed_def bindS_def returnS_def
      ge_Balances_def liftR_def toGCTAssetFromAccount_def wrapS_def mapErrS_def demo_bot_def assertType_def AccTypeSpot_def toBalances_def
      addSub_def breakerSettings_def isBreakerSuccess_def err_of_def Let_def)

lemma demo_get: "sn_Get (snapshotService demo_snap_app) ''bybit'' = Inr (worldExchange demo_connected)"
  by (simp add: snapshotService_def demo_snap_app_def rg_Get_def NewRegistry_def register_def world_ids demo_connected_ID)

lemma demo_conn: "ex_Balances (worldExchange demo_connected) ''spot'' (demo_snap_world faults)
    = (Inr [\<lparr>b_Currency = NewCurrency ''btc'', b_Total = 1, b_Free = 1, b_Locked = 0\<rparr>],
       (demo_snap_world faults)\<lparr>z_step := 1, z_conns := (\<lambda>_. (((), 3), 0))(''bybit'' := (((), 2), 0))\<rparr>)"
  by (simp add: worldExchange_def onConn_def elsewhere_def demo_connected_ID demo_snap_world_def demo_balances)

lemmas snap_fields = snapshotService_def demo_snap_app_def retryOnce_def fetchAttempt_def newCheckpoint_def writeSeries_def onSender_def
  WriteBalanceSnapshot_def demo_sender_def Flush_def record_checkpoint_def onCheckpoints_def RecordSnapshot_def announce_def elsewhere_def
  bindS_def returnS_def wrapS_def mapErrS_def

lemma demo_fetched: "sn_Retry (snapshotService demo_snap_app) ctx budget (fetchAttempt (worldExchange demo_connected) ''spot'') (demo_snap_world faults)
    = (Inr [\<lparr>b_Currency = NewCurrency ''btc'', b_Total = 1, b_Free = 1, b_Locked = 0\<rparr>],
       (demo_snap_world faults)\<lparr>z_step := 1, z_conns := (\<lambda>_. (((), 3), 0))(''bybit'' := (((), 2), 0))\<rparr>)"
  by (simp add: snapshotService_def demo_snap_app_def retryOnce_def fetchAttempt_def demo_conn)

lemma demo_takes: "\<exists>c w'. pollLoop (snapshotService demo_snap_app) (\<lambda>_. None) demo_target 0 (demo_snap_world (\<lambda>_. None)) = (None, w')
    \<and> z_ckpts w' = [c] \<and> ck_Status c = StatusOK"
  by (simp add: pollLoop_def snapshot_def demo_target_def demo_get demo_fetched)
    (simp add: snap_fields demo_snap_world_def Let_def NonZero_eq
      autocommit_def exec_def q_RecordSnapshot_def set_work_def new_db_def no_tables_def z_ckpts_def Publish_def NewInProc_def)

lemma demo_stops: "\<exists>e w'. pollLoop (snapshotService demo_snap_app) (\<lambda>_. None) demo_target 0
    (demo_snap_world (\<lambda>_. Some (FailBefore (EText ''connection refused'')))) = (Some (Inl e), w')"
  by (simp add: pollLoop_def snapshot_def demo_target_def demo_get demo_fetched)
    (simp add: snap_fields demo_snap_world_def Let_def NonZero_eq autocommit_def exec_def new_db_def WithTimeout_def ctxWithoutCancel_def)

subsection \<open>What the loops guarantee\<close>



text \<open>The connections have the IDs of the enabled venues, in their order.\<close>

lemma gct_New_id: "gct_New en name vc = Inr g \<Longrightarrow> ge_id g = NewVenueID name"
  by (auto simp: gct_New_def)

lemma connectVenues_ids: "connectVenues lib cfg names = Inr (exs, tvs) \<Longrightarrow> map ex_ID exs = map NewVenueID names"
  by (induction names arbitrary: exs tvs)
    (auto simp: Let_def Decorate_fields gctExchange_def dest: gct_New_id)

lemma connectVenues_placers: "connectVenues lib cfg names = Inr (exs, tvs) \<Longrightarrow>
    \<forall>tv \<in> set tvs. \<exists>ex \<in> set exs. ex_ID ex = tv_ID tv \<and> ex_Placer ex = Some (tv_Placer tv)"
  by (induction names arbitrary: exs tvs)
    (fastforce simp: Let_def Decorate_fields gctExchange_def dest: gct_New_id split: if_splits option.splits)+

lemma wired_targets:
  assumes "newExchangeProducts lib cfg = Inr (za_exchanges app, tvs)" "t \<in> set (snapshotTargets cfg)"
  shows "\<exists>ex. sn_Get (snapshotService app) (tg_Venue t) = Inr ex"
proof -
  from assms(2) have "tg_Venue t \<in> NewVenueID ` set (EnabledVenues cfg)" by (auto simp: snapshotTargets_def)
  also have "\<dots> = ex_ID ` set (map worldExchange (za_exchanges app))"
    using connectVenues_ids [OF assms(1) [unfolded newExchangeProducts_def]]
    by (metis (no_types, lifting) image_comp image_cong list.set_map world_ids comp_def)
  finally show ?thesis by (simp add: snapshotService_def venues.Get_total NewRegistry_ids)
qed

text \<open>
  Only the checkpoint store stops a snapshot loop. In the process that is wired from a configuration, every
  target of the service is a connected venue; a loop of such a target ends with an error only when a
  checkpoint could not be recorded. Venues that fail, series writes and flushes that fail, and full
  subscribers of the bus never stop it.
\<close>

theorem snapshot_loop_stops_only_with_store:
  assumes "newExchangeProducts lib cfg = Inr (za_exchanges app, tvs)" "t \<in> set (snapshotTargets cfg)"
    and "pollLoop (snapshotService app) ctx t n w = (Some (Inl e), w')"
  shows "\<exists>c db db' e0. RecordSnapshot c db = (Inl e0, db') \<and> e = wrap ''checkpoint store'' e0"
proof -
  from pollLoop_error [OF assms(3)] obtain w0 where "snapshot (snapshotService app) ctx t w0 = (Inl e, w')" ..
  from snapshot_error [OF this] wired_targets [OF assms(1,2)] show ?thesis
    by (auto simp: snapshotService_def onCheckpoints_def announce_def Publish_def Let_def split: prod.splits if_splits)
qed

lemma snapshot_loop_stops_only_with_store_witness:
  "\<exists>e w' e0. pollLoop (snapshotService demo_snap_app) (\<lambda>_. None) demo_target 0
      (demo_snap_world (\<lambda>_. Some (FailBefore (EText ''connection refused'')))) = (Some (Inl e), w') \<and> e = wrap ''checkpoint store'' e0"
proof -
  from demo_stops obtain e w' where p: "pollLoop (snapshotService demo_snap_app) (\<lambda>_. None) demo_target 0
      (demo_snap_world (\<lambda>_. Some (FailBefore (EText ''connection refused'')))) = (Some (Inl e), w')" by (elim exE)
  from demo_wired obtain tvs where "newExchangeProducts demo_libraries demo_cfg = Inr (za_exchanges demo_snap_app, tvs)" ..
  from snapshot_loop_stops_only_with_store [OF this demo_targets p] obtain e0 where "e = wrap ''checkpoint store'' e0" by (elim exE conjE)
  with p show ?thesis by (intro exI [of _ e] exI [of _ w'] exI [of _ e0]) simp
qed

end
