(* ===== verification/Lifecycle.thy ===== *)
theory Lifecycle
  imports Prelude
begin

section \<open>Starting and stopping the process\<close>

text \<open>
  The hooks that \<open>internal/app/app.go\<close> appends to the fx lifecycle, and the start of \<open>Run\<close> in
  \<open>internal/service/reconcile/reconcile.go\<close>. fx is not part of the repository: when it calls a hook is the
  parameter \<open>fx\<close>, of which only the documented order of calls is assumed. The bodies of the hooks and the
  goroutines they start are the steps of a relation, and interleave.
\<close>

subsection \<open>Hooks\<close>

datatype Part = Snapshots | Outbox | Reconciler | Orders | Telemetry | Api

text \<open>
  \<open>newBus\<close>, \<open>newPostgres\<close> and \<open>newQuestDB\<close> append a hook with \<open>OnStop\<close> only; \<open>startServiceAfter\<close> one that may wait for
  a channel before it starts its goroutine; \<open>serveHTTP\<close> one that listens and serves.
\<close>

datatype Hook = CloseBus | ClosePool | CloseWriter | Service Part bool | Serve Part

definition resource :: "Hook \<Rightarrow> bool" where
  "resource k \<longleftrightarrow> k = CloseBus \<or> k = ClosePool \<or> k = CloseWriter"

definition startService :: "Part \<Rightarrow> Hook" where "startService p = Service p False"

definition startSnapshotService :: Hook where "startSnapshotService = startService Snapshots"

definition startOutboxService :: Hook where "startOutboxService = startService Outbox"

definition startTelemetryServer :: Hook where "startTelemetryServer = Serve Telemetry"

definition startReconcileService :: "nat \<Rightarrow> Hook list" where
  "startReconcileService venues = (if venues > 0 then [startService Reconciler] else [])"

definition startOrderService :: "nat \<Rightarrow> Hook list" where
  "startOrderService venues = (if venues = 0 then [] else [Service Orders True])"

definition startAPIServer :: "string \<Rightarrow> Hook list" where
  "startAPIServer addr = (if addr = [] then [] else [Serve Api])"

text \<open>The functions given to \<open>fx.Invoke\<close>, in their order.\<close>

definition invoked :: "nat \<Rightarrow> string \<Rightarrow> Hook list" where
  "invoked venues addr = [startSnapshotService, startTelemetryServer, startOutboxService]
     @ startReconcileService venues @ startOrderService venues @ startAPIServer addr"

text \<open>
  The hooks as they end up in the lifecycle. What the first function needs, among it the bus, the pool and the
  series writer, is constructed before it runs, in an order that fx chooses.
\<close>

definition wired :: "nat \<Rightarrow> string \<Rightarrow> Hook list \<Rightarrow> bool" where
  "wired venues addr hs \<longleftrightarrow> (\<exists>rs. hs = rs @ invoked venues addr \<and> distinct rs \<and> set rs = {CloseBus, ClosePool, CloseWriter})"

subsection \<open>The state\<close>

text \<open>How far fx is with a hook: its \<open>OnStart\<close> has been called, has returned, its \<open>OnStop\<close> likewise.\<close>

datatype HookState = Idle | Starting | Started | StartFailed Err | Stopping | Stopped "Err option"

text \<open>A goroutine of a hook; what it returned is \<open>None\<close> also for the \<open>http.ErrServerClosed\<close> of a server.\<close>

datatype Phase = NotStarted | Running | Returned "Err option"

record Life =
  lf_hook :: "nat \<Rightarrow> HookState"
  lf_phase :: "Part \<Rightarrow> Phase"
  lf_canceled :: "Part set"
  lf_subscribed :: bool \<comment> \<open>the reconciler's subscription to reconnects\<close>
  lf_ready :: bool \<comment> \<open>the channel \<open>ready\<close> is closed\<close>
  lf_closed :: "Hook set"
  lf_exit :: "nat list" \<comment> \<open>the exit codes given to \<open>Shutdown\<close>\<close>

definition newLife :: Life where
  "newLife = \<lparr>lf_hook = (\<lambda>_. Idle), lf_phase = (\<lambda>_. NotStarted), lf_canceled = {}, lf_subscribed = False, lf_ready = False,
     lf_closed = {}, lf_exit = []\<rparr>"

definition setHook :: "nat \<Rightarrow> HookState \<Rightarrow> Life \<Rightarrow> Life" where
  "setHook i h st = st\<lparr>lf_hook := (lf_hook st)(i := h)\<rparr>"

text \<open>
  What makes a goroutine end the process: in \<open>startServiceAfter\<close> an error other than the cancellation, in \<open>serveHTTP\<close>
  any error other than \<open>http.ErrServerClosed\<close>.
\<close>

definition served :: "Part \<Rightarrow> bool" where "served p \<longleftrightarrow> p = Telemetry \<or> p = Api"

definition fails :: "Part \<Rightarrow> Err option \<Rightarrow> bool" where
  "fails p r \<longleftrightarrow> (case r of None \<Rightarrow> False | Some e \<Rightarrow> served p \<or> \<not> errors_Is e ContextCanceled)"

definition goroutineReturns :: "Part \<Rightarrow> Err option \<Rightarrow> Life \<Rightarrow> Life" where
  "goroutineReturns p r st = st\<lparr>lf_phase := (lf_phase st)(p := Returned r),
     lf_subscribed := (if p = Reconciler then False else lf_subscribed st),
     lf_exit := (if fails p r then lf_exit st @ [1] else lf_exit st)\<rparr>"

definition goroutineStarts :: "Part \<Rightarrow> Life \<Rightarrow> Life" where
  "goroutineStarts p st = st\<lparr>lf_phase := (lf_phase st)(p := Running)\<rparr>"

subsection \<open>Steps\<close>

text \<open>
  \<open>fx_start fx H i\<close> and \<open>fx_stop fx H i\<close> say when fx may call the hook \<open>i\<close> while the hooks are in the states \<open>H\<close>. Below
  them the bodies of the hooks that \<open>startServiceAfter\<close>, \<open>serveHTTP\<close> and the three constructors append, cut where they
  wait for something; \<open>run\<close> and \<open>Serve\<close> may return at any time.
\<close>

record Fx =
  fx_start :: "(nat \<Rightarrow> HookState) \<Rightarrow> nat \<Rightarrow> bool"
  fx_stop :: "(nat \<Rightarrow> HookState) \<Rightarrow> nat \<Rightarrow> bool"

inductive service_step :: "Part \<Rightarrow> bool \<Rightarrow> nat \<Rightarrow> Life \<Rightarrow> Life \<Rightarrow> bool" for p waits i where
  start: "lf_hook st i = Starting \<Longrightarrow> (waits \<longrightarrow> lf_ready st) \<Longrightarrow> service_step p waits i st (setHook i Started (goroutineStarts p st))"
| deadline: "lf_hook st i = Starting \<Longrightarrow> waits \<Longrightarrow> service_step p waits i st (setHook i (StartFailed e) st)"
| cancel: "lf_hook st i = Stopping \<Longrightarrow> service_step p waits i st (st\<lparr>lf_canceled := insert p (lf_canceled st)\<rparr>)"
| over: "lf_hook st i = Stopping \<Longrightarrow> p \<in> lf_canceled st \<Longrightarrow> lf_phase st p = Returned r \<Longrightarrow>
    service_step p waits i st (setHook i (Stopped None) st)"
| late: "lf_hook st i = Stopping \<Longrightarrow> p \<in> lf_canceled st \<Longrightarrow> service_step p waits i st (setHook i (Stopped (Some e)) st)"

inductive serve_step :: "Part \<Rightarrow> nat \<Rightarrow> Life \<Rightarrow> Life \<Rightarrow> bool" for p i where
  listen: "lf_hook st i = Starting \<Longrightarrow> serve_step p i st (setHook i Started (goroutineStarts p st))"
| refused: "lf_hook st i = Starting \<Longrightarrow> serve_step p i st (setHook i (StartFailed e) st)"
| shutdown: "lf_hook st i = Stopping \<Longrightarrow> serve_step p i st (setHook i (Stopped r) st)"

inductive close_step :: "Hook \<Rightarrow> nat \<Rightarrow> Life \<Rightarrow> Life \<Rightarrow> bool" for k i where
  skip: "lf_hook st i = Starting \<Longrightarrow> close_step k i st (setHook i Started st)"
| close: "lf_hook st i = Stopping \<Longrightarrow> (r \<noteq> None \<longrightarrow> k = CloseWriter) \<Longrightarrow>
    close_step k i st (setHook i (Stopped r) (st\<lparr>lf_closed := insert k (lf_closed st)\<rparr>))"

text \<open>The beginning of the reconciler's \<open>Run\<close>: the subscription, then the channel of \<open>Ready\<close>.\<close>

inductive reconcile_start :: "Life \<Rightarrow> Life \<Rightarrow> bool" where
  subscribe: "lf_phase st Reconciler = Running \<Longrightarrow> \<not> lf_ready st \<Longrightarrow> reconcile_start st (st\<lparr>lf_subscribed := True\<rparr>)"
| ready: "lf_phase st Reconciler = Running \<Longrightarrow> lf_subscribed st \<Longrightarrow> reconcile_start st (st\<lparr>lf_ready := True\<rparr>)"

inductive life_step :: "Fx \<Rightarrow> Hook list \<Rightarrow> Life \<Rightarrow> Life \<Rightarrow> bool" for fx hs where
  call_start: "i < length hs \<Longrightarrow> fx_start fx (lf_hook st) i \<Longrightarrow> life_step fx hs st (setHook i Starting st)"
| call_stop: "i < length hs \<Longrightarrow> fx_stop fx (lf_hook st) i \<Longrightarrow> life_step fx hs st (setHook i Stopping st)"
| service: "i < length hs \<Longrightarrow> hs ! i = Service p waits \<Longrightarrow> service_step p waits i st st' \<Longrightarrow> life_step fx hs st st'"
| serve: "i < length hs \<Longrightarrow> hs ! i = Serve p \<Longrightarrow> serve_step p i st st' \<Longrightarrow> life_step fx hs st st'"
| closer: "i < length hs \<Longrightarrow> resource (hs ! i) \<Longrightarrow> close_step (hs ! i) i st st' \<Longrightarrow> life_step fx hs st st'"
| reconcile: "reconcile_start st st' \<Longrightarrow> life_step fx hs st st'"
| returns: "lf_phase st p = Running \<Longrightarrow> life_step fx hs st (goroutineReturns p r st)"

inductive_cases hook_stepE: "service_step p waits i st st'" "serve_step p i st st'" "close_step k i st st'" "reconcile_start st st'"

text \<open>The steps by what they change.\<close>

lemma life_step_cases:
  assumes "life_step fx hs st st'"
  obtains (call_start) i where "i < length hs" "fx_start fx (lf_hook st) i" "st' = setHook i Starting st"
  | (call_stop) i where "i < length hs" "fx_stop fx (lf_hook st) i" "st' = setHook i Stopping st"
  | (goroutine) i p where "i < length hs" "lf_hook st i = Starting" "hs ! i = Serve p \<or> (\<exists>waits. hs ! i = Service p waits \<and> (waits \<longrightarrow> lf_ready st))"
      "st' = setHook i Started (goroutineStarts p st)"
  | (returns) p r where "lf_phase st p = Running" "st' = goroutineReturns p r st"
  | (subscribe) "lf_phase st Reconciler = Running" "\<not> lf_ready st" "st' = st\<lparr>lf_subscribed := True\<rparr>"
  | (ready) "lf_phase st Reconciler = Running" "lf_subscribed st" "st' = st\<lparr>lf_ready := True\<rparr>"
  | (hook) i h where "i < length hs" "lf_hook st i = Starting \<and> (h = Started \<or> (\<exists>e. h = StartFailed e)) \<or> lf_hook st i = Stopping \<and> (\<exists>r. h = Stopped r)"
      "st' = setHook i h st" "\<And>p waits. hs ! i = Service p waits \<Longrightarrow> h = Stopped None \<Longrightarrow> lf_phase st p \<noteq> Running"
  | (cancel) p where "st' = st\<lparr>lf_canceled := insert p (lf_canceled st)\<rparr>"
  | (close) i r where "i < length hs" "resource (hs ! i)" "lf_hook st i = Stopping"
      "st' = setHook i (Stopped r) (st\<lparr>lf_closed := insert (hs ! i) (lf_closed st)\<rparr>)"
  using assms
proof cases
  case (service i p waits)
  from service(3) show thesis
    by (rule hook_stepE(1)) (use service(1,2) in \<open>auto intro: goroutine hook cancel\<close>)
next
  case (serve i p)
  from serve(3) show thesis
    by (rule hook_stepE(2)) (use serve(1,2) in \<open>auto intro: goroutine hook\<close>)
next
  case (closer i)
  from closer(3) show thesis
    by (rule hook_stepE(3)) (use closer(1,2) in \<open>auto simp: resource_def intro: hook close\<close>)
next
  case reconcile
  then show thesis by (rule hook_stepE(4)) (auto intro: subscribe ready)
qed (blast intro: call_start call_stop returns)+

definition life_run :: "Fx \<Rightarrow> Hook list \<Rightarrow> Life \<Rightarrow> bool" where
  "life_run fx hs st \<longleftrightarrow> (life_step fx hs)\<^sup>*\<^sup>* newLife st"

text \<open>
  What fx documents: \<open>OnStart\<close> hooks are called in the order in which they were appended, each once and after the
  ones before have succeeded, and none after the stopping has begun; \<open>OnStop\<close> hooks in the reverse order, each once
  and only of hooks that have started, after those of the later ones have returned.
\<close>

definition begun_stop :: "HookState \<Rightarrow> bool" where
  "begun_stop h \<longleftrightarrow> h = Stopping \<or> (\<exists>r. h = Stopped r)"

definition fx_law :: "Fx \<Rightarrow> bool" where
  "fx_law fx \<longleftrightarrow>
     (\<forall>H i. fx_start fx H i \<longrightarrow> H i = Idle \<and> (\<forall>j<i. H j = Started) \<and> (\<forall>j. \<not> begun_stop (H j)))
   \<and> (\<forall>H i. fx_stop fx H i \<longrightarrow> H i = Started \<and> (\<forall>j. H j \<noteq> Starting) \<and> (\<forall>j>i. H j \<noteq> Started \<and> H j \<noteq> Stopping))"

subsection \<open>Invariants\<close>

definition hook_of :: "Part \<Rightarrow> Hook \<Rightarrow> bool" where
  "hook_of p k \<longleftrightarrow> k = Serve p \<or> (\<exists>waits. k = Service p waits)"

text \<open>The calls: once the stopping of a hook has begun, none is being started and no later one is still started.\<close>

definition calls_inv :: "Life \<Rightarrow> bool" where
  "calls_inv st \<longleftrightarrow> (\<forall>i. begun_stop (lf_hook st i) \<longrightarrow> (\<forall>j. lf_hook st j \<noteq> Starting)
     \<and> (\<forall>j>i. lf_hook st j \<noteq> Started \<and> lf_hook st j \<noteq> Stopping))"

text \<open>The goroutines: started by their hook, and those of services over when its \<open>OnStop\<close> has returned without an error.\<close>

definition up :: "HookState \<Rightarrow> bool" where
  "up h \<longleftrightarrow> h = Started \<or> begun_stop h"

definition started_inv :: "Hook list \<Rightarrow> Life \<Rightarrow> bool" where
  "started_inv hs st \<longleftrightarrow> (\<forall>p. lf_phase st p \<noteq> NotStarted \<longrightarrow> (\<exists>i<length hs. hook_of p (hs ! i) \<and> up (lf_hook st i)))"

definition stopped_inv :: "Hook list \<Rightarrow> Life \<Rightarrow> bool" where
  "stopped_inv hs st \<longleftrightarrow> (\<forall>i<length hs. \<forall>p waits. lf_hook st i = Stopped None \<longrightarrow> hs ! i = Service p waits \<longrightarrow> lf_phase st p \<noteq> Running)"

definition closed_inv :: "Hook list \<Rightarrow> Life \<Rightarrow> bool" where
  "closed_inv hs st \<longleftrightarrow> (\<forall>k\<in>lf_closed st. \<exists>i<length hs. hs ! i = k \<and> resource k \<and> begun_stop (lf_hook st i))"

text \<open>The subscription comes before the channel is closed and the channel before the order service.\<close>

definition ready_inv :: "Life \<Rightarrow> bool" where
  "ready_inv st \<longleftrightarrow> (lf_phase st Orders \<noteq> NotStarted \<longrightarrow> lf_ready st)
     \<and> (lf_ready st \<longrightarrow> lf_subscribed st \<or> (\<exists>r. lf_phase st Reconciler = Returned r))
     \<and> (1 \<in> set (lf_exit st) \<longleftrightarrow> (\<exists>p r. lf_phase st p = Returned r \<and> fails p r)) \<and> set (lf_exit st) \<subseteq> {1}"

text \<open>Facts about the hooks that are wired: one per part, the resources before the rest.\<close>

lemma invoked_hooks: "set (invoked venues addr) \<subseteq> {Service Snapshots False, Serve Telemetry, Service Outbox False, Service Reconciler False,
    Service Orders True, Serve Api}" "distinct (invoked venues addr)"
  by (simp_all add: invoked_def startService_def startSnapshotService_def startTelemetryServer_def startOutboxService_def startReconcileService_def startOrderService_def startAPIServer_def)

lemma wired_hook:
  assumes "wired venues addr hs" "i < length hs"
  shows "resource (hs ! i) \<or> hs ! i \<in> {Service Snapshots False, Serve Telemetry, Service Outbox False, Service Reconciler False,
    Service Orders True, Serve Api}"
proof -
  from assms(1) obtain rs where rs: "hs = rs @ invoked venues addr" "set rs = {CloseBus, ClosePool, CloseWriter}"
    unfolding wired_def by blast
  from assms(2) have "hs ! i \<in> set rs \<union> set (invoked venues addr)" using rs(1) by (metis nth_mem set_append)
  then show ?thesis using invoked_hooks(1) [of venues addr] unfolding rs(2) by (auto simp: resource_def)
qed

lemma wired_distinct:
  assumes "wired venues addr hs"
  shows "distinct hs"
proof -
  from assms obtain rs where rs: "hs = rs @ invoked venues addr" "distinct rs" "set rs = {CloseBus, ClosePool, CloseWriter}"
    unfolding wired_def by blast
  have "set rs \<inter> set (invoked venues addr) = {}" using invoked_hooks(1) [of venues addr] unfolding rs(3) by auto
  with rs(1,2) invoked_hooks(2) show ?thesis by simp
qed

lemma wired_one_hook:
  assumes "wired venues addr hs" "i < length hs" "j < length hs" "hook_of p (hs ! i)" "hook_of p (hs ! j)"
  shows "i = j"
proof -
  have "hs ! i = hs ! j"
    using wired_hook [OF assms(1,2)] wired_hook [OF assms(1,3)] assms(4,5) by (auto simp: hook_of_def resource_def)
  then show ?thesis using wired_distinct [OF assms(1)] assms(2,3) by (simp add: nth_eq_iff_index_eq)
qed

lemma wired_resources_first:
  assumes "wired venues addr hs" "i < length hs" "resource (hs ! i)" "j < length hs" "\<not> resource (hs ! j)"
  shows "i < j"
proof -
  from assms(1) obtain rs where rs: "hs = rs @ invoked venues addr" "set rs = {CloseBus, ClosePool, CloseWriter}"
    unfolding wired_def by blast
  have "\<not> resource k" if "k \<in> set (invoked venues addr)" for k
    using that invoked_hooks(1) [of venues addr] by (auto simp: resource_def)
  then have "i < length rs" using assms(2,3) rs(1) by (metis add_diff_inverse_nat length_append nat_add_left_cancel_less nth_append nth_mem)
  moreover have "\<not> j < length rs"
  proof
    assume "j < length rs"
    then have "hs ! j \<in> set rs" using rs(1) by (simp add: nth_append)
    with rs(2) assms(5) show False by (simp add: resource_def)
  qed
  ultimately show ?thesis by simp
qed

subsection \<open>Every step keeps them\<close>

lemmas life_defs = setHook_def goroutineReturns_def goroutineStarts_def begun_stop_def

lemma calls_step:
  assumes "life_step fx hs st st'" "fx_law fx" "calls_inv st"
  shows "calls_inv st'"
  using assms(1)
proof (cases rule: life_step_cases)
  case (call_start i)
  with assms(2) have "\<not> begun_stop (lf_hook st j)" for j by (simp add: fx_law_def)
  with call_start show ?thesis by (auto simp: calls_inv_def life_defs)
next
  case (call_stop i)
  with assms(2) have "lf_hook st j \<noteq> Starting" "j > i \<Longrightarrow> lf_hook st j \<noteq> Started \<and> lf_hook st j \<noteq> Stopping" "lf_hook st i = Started" for j
    by (simp_all add: fx_law_def)
  with call_stop assms(3) show ?thesis unfolding calls_inv_def life_defs by (auto; metis)
qed (use assms(3) in \<open>auto simp: calls_inv_def life_defs\<close>)

lemma hook_forward:
  assumes "life_step fx hs st st'" "fx_law fx"
  shows "(up (lf_hook st i) \<longrightarrow> up (lf_hook st' i)) \<and> (begun_stop (lf_hook st i) \<longrightarrow> begun_stop (lf_hook st' i))"
  using assms(1)
proof (cases rule: life_step_cases)
  case (call_start j)
  with assms(2) have "lf_hook st j = Idle" by (simp add: fx_law_def)
  with call_start show ?thesis by (auto simp: up_def life_defs)
next
  case (call_stop j)
  with assms(2) have "lf_hook st j = Started" by (simp add: fx_law_def)
  with call_stop show ?thesis by (auto simp: up_def life_defs)
qed (auto simp: up_def life_defs)

lemma closed_step:
  assumes "life_step fx hs st st'" "fx_law fx" "closed_inv hs st"
  shows "closed_inv hs st'"
proof -
  have old: "\<exists>i<length hs. hs ! i = k \<and> resource k \<and> begun_stop (lf_hook st' i)" if "k \<in> lf_closed st" for k
    using assms(3) that hook_forward [OF assms(1,2)] unfolding closed_inv_def by meson
  from assms(1) have "lf_closed st' = lf_closed st \<or> (\<exists>i<length hs. resource (hs ! i) \<and> lf_closed st' = insert (hs ! i) (lf_closed st)
      \<and> begun_stop (lf_hook st' i))"
    by (cases rule: life_step_cases) (auto simp: life_defs)
  with old show ?thesis unfolding closed_inv_def by auto
qed

lemma started_step:
  assumes "life_step fx hs st st'" "fx_law fx" "started_inv hs st"
  shows "started_inv hs st'"
proof -
  have old: "\<exists>i<length hs. hook_of p (hs ! i) \<and> up (lf_hook st' i)" if "lf_phase st p \<noteq> NotStarted" for p
    using assms(3) that hook_forward [OF assms(1,2)] unfolding started_inv_def by meson
  from assms(1) have "lf_phase st p \<noteq> NotStarted \<or> (\<exists>i<length hs. hook_of p (hs ! i) \<and> up (lf_hook st' i))"
    if "lf_phase st' p \<noteq> NotStarted" for p
    using that by (cases rule: life_step_cases) (auto simp: up_def life_defs hook_of_def split: if_splits)
  with old show ?thesis unfolding started_inv_def by blast
qed

lemma fresh_goroutine:
  assumes "wired venues addr hs" "started_inv hs st" "lf_hook st i = Starting" "i < length hs" "hook_of p (hs ! i)"
  shows "lf_phase st p = NotStarted"
proof (rule ccontr)
  assume "lf_phase st p \<noteq> NotStarted"
  with assms(2) obtain j where j: "j < length hs" "hook_of p (hs ! j)" "up (lf_hook st j)" unfolding started_inv_def by blast
  with wired_one_hook [OF assms(1) j(1) assms(4) j(2) assms(5)] assms(3) show False by (simp add: up_def begun_stop_def)
qed

lemma stopped_step:
  assumes "life_step fx hs st st'" "fx_law fx" "wired venues addr hs" "stopped_inv hs st"
  shows "stopped_inv hs st'"
  unfolding stopped_inv_def
proof (intro allI impI)
  fix j p waits
  assume j: "j < length hs" "lf_hook st' j = Stopped None" "hs ! j = Service p waits"
  have new: "i = j" if "i < length hs" "hook_of p (hs ! i)" for i
    using wired_one_hook [OF assms(3) that(1) j(1) that(2)] j(3) by (simp add: hook_of_def)
  have old: "lf_phase st p \<noteq> Running" if "lf_hook st j = Stopped None" using assms(4) that j unfolding stopped_inv_def by blast
  from assms(1) show "lf_phase st' p \<noteq> Running"
  proof (cases rule: life_step_cases)
    case (goroutine i p')
    have "i \<noteq> j" using goroutine(4) j(2) by (auto simp: life_defs)
    then have "p' \<noteq> p" using goroutine(1,3) new [of i] by (auto simp: hook_of_def)
    with goroutine j old show ?thesis by (auto simp: life_defs split: if_splits)
  qed (use j old in \<open>auto simp: life_defs resource_def split: if_splits\<close>)
qed

lemma fails_update:
  assumes "\<And>r. f p \<noteq> Returned r" "\<And>r. x = Returned r \<Longrightarrow> \<not> fails p r"
  shows "(\<exists>q r. (f(p := x)) q = Returned r \<and> fails q r) \<longleftrightarrow> (\<exists>q r. f q = Returned r \<and> fails q r)"
  using assms by (metis fun_upd_apply)

lemma ready_goroutine:
  assumes "wired venues addr hs" "started_inv hs st" "ready_inv st" "lf_hook st i = Starting" "i < length hs" "hook_of p (hs ! i)"
    and "p = Orders \<Longrightarrow> lf_ready st"
  shows "ready_inv (setHook i Started (goroutineStarts p st))"
proof -
  have fresh: "lf_phase st p = NotStarted" by (rule fresh_goroutine [OF assms(1,2,4-6)])
  have "1 \<in> set (lf_exit st) \<longleftrightarrow> (\<exists>q r. ((lf_phase st)(p := Running)) q = Returned r \<and> fails q r)"
    using fails_update [of "lf_phase st" p Running] assms(3) fresh by (simp add: ready_inv_def)
  with assms(3,7) fresh show ?thesis by (auto simp: ready_inv_def setHook_def goroutineStarts_def)
qed

lemma ready_step:
  assumes "life_step fx hs st st'" "wired venues addr hs" "started_inv hs st" "ready_inv st"
  shows "ready_inv st'"
  using assms(1)
proof (cases rule: life_step_cases)
  case (goroutine i p)
  have "lf_ready st" if "p = Orders" using wired_hook [OF assms(2), of i] goroutine that by (auto simp: resource_def)
  with goroutine ready_goroutine [OF assms(2-4), of i p] show ?thesis by (auto simp: hook_of_def)
next
  case (returns p r)
  have "1 \<in> set (lf_exit st') \<longleftrightarrow> (\<exists>p r. lf_phase st' p = Returned r \<and> fails p r)"
  proof (cases "fails p r")
    case True
    then show ?thesis using returns by (auto simp: goroutineReturns_def)
  next
    case False
    then have "(\<exists>q x. lf_phase st' q = Returned x \<and> fails q x) \<longleftrightarrow> (\<exists>q x. lf_phase st q = Returned x \<and> fails q x)"
      using returns fails_update [of "lf_phase st" p "Returned r"] by (simp add: goroutineReturns_def)
    with False returns assms(4) show ?thesis by (simp add: goroutineReturns_def ready_inv_def)
  qed
  with returns assms(4) show ?thesis by (auto simp: ready_inv_def goroutineReturns_def)
qed (use assms(4) in \<open>auto simp: ready_inv_def setHook_def\<close>)

lemma life_run_inv:
  assumes "life_run fx hs st" "fx_law fx" "wired venues addr hs"
  shows "calls_inv st \<and> closed_inv hs st \<and> started_inv hs st \<and> stopped_inv hs st \<and> ready_inv st"
  using assms(1) unfolding life_run_def
proof (induction rule: rtranclp_induct)
  case base
  show ?case
    by (simp add: newLife_def calls_inv_def closed_inv_def started_inv_def stopped_inv_def ready_inv_def begun_stop_def)
next
  case (step st st')
  with assms(2,3) show ?case
    by (blast intro: calls_step closed_step started_step stopped_step ready_step)
qed

subsection \<open>The order of things\<close>

text \<open>
  C14: the process starts and stops in a safe order. Whatever the order in which fx constructs the resources, and
  in every interleaving of its calls with the goroutines: the order service, whose streams announce reconnects,
  starts only when the reconciler has subscribed to them, and the subscription stays until the reconciler
  returns; the bus, the pool and the series writer are closed only when every background service has returned or
  its time to stop has run out; and the process is told to exit, always with code 1, exactly when a service has
  returned an error that is not a cancellation or a server has failed.
\<close>

theorem process_order:
  assumes "fx_law fx" "wired venues addr hs" "life_run fx hs st"
  shows "(lf_phase st Orders \<noteq> NotStarted \<longrightarrow> lf_ready st \<and> (lf_subscribed st \<or> (\<exists>r. lf_phase st Reconciler = Returned r)))
    \<and> (k \<in> lf_closed st \<and> i < length hs \<and> hs ! i = Service p waits \<and> lf_phase st p = Running \<longrightarrow> (\<exists>e. lf_hook st i = Stopped (Some e)))
    \<and> (lf_exit st \<noteq> [] \<longleftrightarrow> (\<exists>p r. lf_phase st p = Returned r \<and> fails p r)) \<and> set (lf_exit st) \<subseteq> {1}"
proof -
  from life_run_inv [OF assms(3,1,2)] have inv: "calls_inv st" "closed_inv hs st" "started_inv hs st" "stopped_inv hs st" "ready_inv st"
    by blast+
  have "\<exists>e. lf_hook st i = Stopped (Some e)"
    if k: "k \<in> lf_closed st" and i: "i < length hs" "hs ! i = Service p waits" and run: "lf_phase st p = Running"
  proof -
    from bspec [OF inv(2) [unfolded closed_inv_def] k]
    obtain j where j: "j < length hs" "resource (hs ! j)" "begun_stop (lf_hook st j)" by auto
    have "\<not> resource (hs ! i)" using i(2) by (simp add: resource_def)
    from wired_resources_first [OF assms(2) j(1,2) i(1) this] have "j < i" .
    with inv(1) j(3) have gone: "lf_hook st i \<noteq> Started" "lf_hook st i \<noteq> Stopping" unfolding calls_inv_def by blast+
    from inv(3) run obtain i' where i': "i' < length hs" "hook_of p (hs ! i')" "up (lf_hook st i')"
      unfolding started_inv_def by (metis Phase.distinct(1))
    have "i' = i" using wired_one_hook [OF assms(2) i'(1) i(1) i'(2)] i(2) by (simp add: hook_of_def)
    with i'(3) gone obtain x where x: "lf_hook st i = Stopped x" by (auto simp: up_def begun_stop_def)
    with inv(4) [unfolded stopped_inv_def, rule_format, OF i(1) _ i(2)] run have "x \<noteq> None" by auto
    with x show ?thesis by auto
  qed
  moreover have "lf_exit st \<noteq> [] \<longleftrightarrow> 1 \<in> set (lf_exit st)" using inv(5) by (cases "lf_exit st") (auto simp: ready_inv_def)
  ultimately show ?thesis using inv(5) unfolding ready_inv_def by blast
qed

definition demo_fx :: Fx where
  "demo_fx = \<lparr>fx_start = (\<lambda>H i. H i = Idle \<and> (\<forall>j<i. H j = Started) \<and> (\<forall>j. \<not> begun_stop (H j))),
     fx_stop = (\<lambda>H i. H i = Started \<and> (\<forall>j. H j \<noteq> Starting) \<and> (\<forall>j>i. H j \<noteq> Started \<and> H j \<noteq> Stopping))\<rparr>"

definition demo_hooks :: "Hook list" where
  "demo_hooks = [CloseBus, CloseWriter, ClosePool] @ invoked 1 []"

lemma hooks_wired: "wired 1 [] demo_hooks"
  by (auto simp: wired_def demo_hooks_def)

text \<open>The process up to the start of the order service.\<close>

definition demo_up :: "nat \<Rightarrow> Life" where
  "demo_up n = newLife\<lparr>lf_hook := (\<lambda>i. if i < n then Started else Idle),
     lf_phase := (\<lambda>p. if p = Snapshots \<and> 3 < n \<or> p = Telemetry \<and> 4 < n \<or> p = Outbox \<and> 5 < n \<or> p = Reconciler \<and> 6 < n \<or> p = Orders \<and> 7 < n
       then Running else NotStarted), lf_subscribed := 7 < n, lf_ready := 7 < n\<rparr>"

lemma demo_begin:
  assumes "life_run demo_fx demo_hooks (demo_up n)" "n < length demo_hooks"
  shows "life_run demo_fx demo_hooks (setHook n Starting (demo_up n))"
proof -
  have "life_step demo_fx demo_hooks (demo_up n) (setHook n Starting (demo_up n))"
    by (rule life_step.call_start) (use assms(2) in \<open>auto simp: demo_fx_def demo_up_def begun_stop_def\<close>)
  with assms(1) show ?thesis unfolding life_run_def by (rule rtranclp.rtrancl_into_rtrancl)
qed

lemma demo_list: "demo_hooks = [CloseBus, CloseWriter, ClosePool, Service Snapshots False, Serve Telemetry, Service Outbox False,
    Service Reconciler False, Service Orders True]"
  by (simp add: demo_hooks_def invoked_def startService_def startSnapshotService_def startTelemetryServer_def startOutboxService_def startReconcileService_def startOrderService_def startAPIServer_def)

lemma demo_next:
  assumes "life_run demo_fx demo_hooks (demo_up n)" "n < 7"
  shows "life_run demo_fx demo_hooks (demo_up (Suc n))"
proof -
  let ?st = "setHook n Starting (demo_up n)"
  have len: "n < length demo_hooks" using assms(2) by (simp add: demo_list)
  note begun = demo_begin [OF assms(1) len]
  have here: "lf_hook ?st n = Starting" by (simp add: setHook_def)
  have next_up: "demo_up (Suc n) = setHook n Started (goroutineStarts p ?st)"
    if "n = 3 \<and> p = Snapshots \<or> n = 4 \<and> p = Telemetry \<or> n = 5 \<and> p = Outbox \<or> n = 6 \<and> p = Reconciler" for p
    using that by (elim disjE conjE; auto simp: demo_up_def setHook_def goroutineStarts_def newLife_def fun_eq_iff)
  have service: "life_step demo_fx demo_hooks ?st (demo_up (Suc n))"
    if "demo_hooks ! n = Service p False" "n = 3 \<and> p = Snapshots \<or> n = 4 \<and> p = Telemetry \<or> n = 5 \<and> p = Outbox \<or> n = 6 \<and> p = Reconciler" for p
    using life_step.service [OF len that(1) service_step.start [OF here]] next_up [OF that(2)] by simp
  consider "n < 3" | "n = 3" | "n = 4" | "n = 5" | "n = 6" using assms(2) by linarith
  then have "life_step demo_fx demo_hooks ?st (demo_up (Suc n))"
  proof cases
    case 1
    then have "n = 0 \<or> n = 1 \<or> n = 2" by linarith
    then have "demo_up (Suc n) = setHook n Started ?st" "resource (demo_hooks ! n)"
      by (auto simp: demo_up_def setHook_def newLife_def fun_eq_iff demo_list resource_def)
    then show ?thesis using life_step.closer [OF len _ close_step.skip [OF here]] by simp
  next
    case 3
    then have "demo_hooks ! n = Serve Telemetry" by (simp add: demo_list)
    with next_up [of Telemetry] 3 life_step.serve [OF len _ serve_step.listen [OF here], of Telemetry] show ?thesis by simp
  qed (use service [of Snapshots] service [of Outbox] service [of Reconciler] in \<open>simp_all add: demo_list\<close>)
  with begun show ?thesis unfolding life_run_def by (rule rtranclp.rtrancl_into_rtrancl)
qed

lemma demo_started: "n \<le> 7 \<Longrightarrow> life_run demo_fx demo_hooks (demo_up n)"
proof (induction n)
  case 0
  have "demo_up 0 = newLife" by (simp add: demo_up_def newLife_def)
  then show ?case by (simp add: life_run_def)
qed (simp add: demo_next)

lemma demo_orders_up: "\<exists>st. life_run demo_fx demo_hooks st \<and> lf_phase st Orders = Running"
proof -
  let ?s1 = "setHook 7 Starting (demo_up 7)"
  let ?s2 = "?s1\<lparr>lf_subscribed := True\<rparr>"
  let ?s3 = "?s2\<lparr>lf_ready := True\<rparr>"
  have "(life_step demo_fx demo_hooks)\<^sup>*\<^sup>* newLife ?s1"
    using demo_begin [OF demo_started, of 7] by (simp add: demo_list life_run_def)
  moreover have "life_step demo_fx demo_hooks ?s1 ?s2" by (rule life_step.reconcile, rule reconcile_start.subscribe) (simp_all add: demo_up_def setHook_def newLife_def)
  moreover have "life_step demo_fx demo_hooks ?s2 ?s3" by (rule life_step.reconcile, rule reconcile_start.ready) (simp_all add: demo_up_def setHook_def newLife_def)
  moreover have "life_step demo_fx demo_hooks ?s3 (setHook 7 Started (goroutineStarts Orders ?s3))"
    by (rule life_step.service [where i = 7 and waits = True and p = Orders, OF _ _ service_step.start]) (simp_all add: demo_list setHook_def)
  ultimately have "life_run demo_fx demo_hooks (setHook 7 Started (goroutineStarts Orders ?s3))"
    unfolding life_run_def by (meson rtranclp.rtrancl_into_rtrancl)
  moreover have "lf_phase (setHook 7 Started (goroutineStarts Orders ?s3)) Orders = Running" by (simp add: setHook_def goroutineStarts_def)
  ultimately show ?thesis by blast
qed

theorem process_order_witness: "\<exists>st. life_run demo_fx demo_hooks st \<and> lf_phase st Orders = Running \<and> lf_ready st"
proof -
  obtain st where st: "life_run demo_fx demo_hooks st" "lf_phase st Orders = Running" using demo_orders_up by blast
  have "fx_law demo_fx" by (simp add: fx_law_def demo_fx_def)
  from process_order [OF this hooks_wired st(1)] st show ?thesis by auto
qed

end
