(* ===== verification/Api_Paging.thy ===== *)
theory Api_Paging
  imports Api_Orders
begin

section \<open>Paging through the orders\<close>

text \<open>
  The contract of \<open>ports.OrderQueryStore\<close> as a locale, its interpretation on the Postgres store, and what a
  client gets that follows the page tokens of \<open>ListOrders\<close>.
\<close>

subsection \<open>The contract of the query store\<close>

text \<open>The order of the pages, and what a query selects.\<close>

definition pageKey :: "OrderRecord \<Rightarrow> Time \<times> string" where
  "pageKey r = (or_CreatedAt r, or_ClientOrderID r)"

definition matchesQuery :: "Query \<Rightarrow> OrderRecord \<Rightarrow> bool" where
  "matchesQuery q r \<longleftrightarrow> (q_Venue q = None \<or> q_Venue q = Some (i_Venue (or_Instrument r)))
     \<and> (q_Statuses q = [] \<or> or_Status r \<in> set (q_Statuses q)) \<and> (q_BotID q = None \<or> q_BotID q = Some (or_BotID r))"

definition afterCursor :: "Query \<Rightarrow> OrderRecord \<Rightarrow> bool" where
  "afterCursor q r \<longleftrightarrow> (case (q_CursorCreatedAt q, q_CursorID q) of (Some t, Some i) \<Rightarrow> pageKey r < (t, i) | _ \<Rightarrow> True)"

definition newestFirst :: "OrderRecord list \<Rightarrow> bool" where
  "newestFirst rs \<longleftrightarrow> sorted_wrt (\<lambda>x y. pageKey y < pageKey x) rs"

text \<open>A cursor that names an order by both parts of its key, or none.\<close>

definition cursor_of :: "Query \<Rightarrow> OrderRecord option \<Rightarrow> Query" where
  "cursor_of q r = (case r of None \<Rightarrow> q
     | Some r \<Rightarrow> q\<lparr>q_CursorCreatedAt := Some (or_CreatedAt r), q_CursorID := Some (or_ClientOrderID r)\<rparr>)"

text \<open>Text that JSON gives back as it was, whatever the encoder makes of bytes that are not UTF-8.\<close>

definition ascii_text :: "string \<Rightarrow> bool" where
  "ascii_text s \<longleftrightarrow> list_all (\<lambda>c. byte c < 128) s"

locale order_query =
  fixes invar :: "'w \<Rightarrow> bool"
    and listing :: "'w \<Rightarrow> OrderRecord list"
    and s :: "'w OrderServer"
  assumes listing_sorted: "invar w \<Longrightarrow> newestFirst (listing w)"
    and listing_stamped: "invar w \<Longrightarrow> r \<in> set (listing w) \<Longrightarrow>
      \<not> IsZero (or_CreatedAt r) \<and> json_time_ok (or_CreatedAt r) \<and> or_ClientOrderID r \<noteq> [] \<and> ascii_text (or_ClientOrderID r)"
    and list_page: "invar w \<Longrightarrow> 0 \<le> q_Limit q \<Longrightarrow> q_Limit q < 2 ^ 31 \<Longrightarrow>
      q_CursorCreatedAt q = None \<and> q_CursorID q = None \<or>
        (\<exists>c \<in> set (listing w). q_CursorCreatedAt q = Some (or_CreatedAt c) \<and> q_CursorID q = Some (or_ClientOrderID c)) \<Longrightarrow>
      \<exists>w'. os_ListOrders s q w = (Inr (take (Suc (nat (q_Limit q))) (filter (\<lambda>r. matchesQuery q r \<and> afterCursor q r) (listing w))), w')
        \<and> invar w' \<and> listing w' = listing w"

text \<open>
  What the server relies on of the JSON codec: a token of version 1 with an ASCII order ID and a hexadecimal
  digest, created in a year that RFC 3339 can write, is read back as it was written, with nothing after it.
\<close>

definition token_ok :: "PageToken \<Rightarrow> bool" where
  "token_ok tok \<longleftrightarrow> pt_V tok = 1 \<and> json_time_ok (pt_CreatedAt tok) \<and> ascii_text (pt_ClientOrderID tok) \<and> ascii_text (pt_FilterDigest tok)"

definition token_codec :: "'w OrderServer \<Rightarrow> bool" where
  "token_codec s \<longleftrightarrow> (\<forall>tok. token_ok tok \<longrightarrow> (\<exists>body rest. os_MarshalToken s tok = Inr body \<and> body \<noteq> []
     \<and> os_DecodeToken s body = Some (tok, rest) \<and> os_AtEOF s rest))"

lemma hexDigit_ascii: "n < 16 \<Longrightarrow> byte (hexDigit n) < 128"
proof -
  have "list_all (\<lambda>n. byte (hexDigit n) < 128) [0..<16]" by (simp add: hexDigit_def byte_def upt_rec numeral_nat)
  then show "n < 16 \<Longrightarrow> byte (hexDigit n) < 128" by (simp add: list_all_iff)
qed

lemma ascii_hex [simp]: "ascii_text (hex_Encode s)"
proof -
  have "byte c div 16 < 16" for c :: char by (simp add: byte_def less_mult_imp_div_less)
  then show ?thesis by (auto simp: ascii_text_def hex_Encode_def list_all_iff hexDigit_ascii)
qed

lemma Encode_nonempty: "body \<noteq> [] \<Longrightarrow> base64_Encode body \<noteq> []"
  by (cases body rule: base64_Encode.cases) auto

text \<open>
  A token that the server hands out is accepted with the digest it was made with and yields the order it was
  made from.
\<close>

lemma encode_decode:
  assumes "token_codec s" "token_ok tok"
  obtains e where "encodePageToken s tok = Inr e" "e \<noteq> []"
    "\<not> IsZero (pt_CreatedAt tok) \<Longrightarrow> pt_ClientOrderID tok \<noteq> [] \<Longrightarrow> decodePageToken s e (pt_FilterDigest tok) = Inr tok"
proof -
  from assms obtain body rest where b: "os_MarshalToken s tok = Inr body" "body \<noteq> []" "os_DecodeToken s body = Some (tok, rest)" "os_AtEOF s rest"
    unfolding token_codec_def by blast
  show thesis
    by (rule that [of "base64_Encode body"]) (use b assms(2) in \<open>auto simp: token_ok_def encodePageToken_def decodePageToken_def base64_roundtrip Encode_nonempty\<close>)
qed

text \<open>A client that follows the tokens: \<open>None\<close> says that it is not done after so many requests.\<close>

fun fetchPages :: "'w OrderServer \<Rightarrow> ListOrdersRequest \<Rightarrow> nat \<Rightarrow> 'w \<Rightarrow> (RpcErr + ProtoOrder list list) option \<times> 'w" where
  "fetchPages s msg 0 w = (None, w)"
| "fetchPages s msg (Suc n) w =
    (case ListOrders_handler s msg w of
       (Inl e, w1) \<Rightarrow> (Some (Inl e), w1)
     | (Inr resp, w1) \<Rightarrow>
        if lp_NextPageToken resp = [] then (Some (Inr [lp_Orders resp]), w1)
        else (case fetchPages s (msg\<lparr>lr_PageToken := lp_NextPageToken resp\<rparr>) n w1 of
           (Some (Inr pages), w2) \<Rightarrow> (Some (Inr (lp_Orders resp # pages)), w2)
         | (Some (Inl e), w2) \<Rightarrow> (Some (Inl e), w2)
         | (None, w2) \<Rightarrow> (None, w2)))"

lemma filter_after:
  assumes "newestFirst L" "0 < i" "i \<le> length L"
  shows "filter (\<lambda>r. pageKey r < pageKey (L ! (i - 1))) L = drop i L"
proof -
  have ord: "pageKey (L ! k) < pageKey (L ! j)" if "j < k" "k < length L" for j k
    using assms(1) that unfolding newestFirst_def by (simp add: sorted_wrt_iff_nth_less)
  have 1: "filter (\<lambda>r. pageKey r < pageKey (L ! (i - 1))) (take i L) = []"
  proof (rule ccontr)
    assume "\<not> ?thesis"
    then obtain r where "r \<in> set (take i L)" "pageKey r < pageKey (L ! (i - 1))" by (auto simp: filter_empty_conv)
    then obtain k where k: "k < i" "pageKey (L ! k) < pageKey (L ! (i - 1))" using assms(3) by (auto simp: in_set_conv_nth)
    show False
    proof (cases "k = i - 1")
      case False
      with k(1) assms(2,3) have "pageKey (L ! (i - 1)) < pageKey (L ! k)" by (intro ord) auto
      with k(2) show False by simp
    qed (use k in simp)
  qed
  have 2: "filter (\<lambda>r. pageKey r < pageKey (L ! (i - 1))) (drop i L) = drop i L"
    using assms(2) by (intro filter_True) (fastforce simp: in_set_conv_nth intro: ord)
  have "filter P L = filter P (take i L) @ filter P (drop i L)" for P by (metis append_take_drop_id filter_append)
  with 1 2 show ?thesis by simp
qed

lemma newestFirst_filter: "newestFirst L \<Longrightarrow> newestFirst (filter P L)"
  unfolding newestFirst_def by (rule sorted_wrt_filter)

text \<open>The token that points behind an order, and the effective limit of a request.\<close>

definition tokenFor :: "string \<Rightarrow> OrderRecord \<Rightarrow> PageToken" where
  "tokenFor digest r = \<lparr>pt_V = 1, pt_CreatedAt = or_CreatedAt r, pt_ClientOrderID = or_ClientOrderID r, pt_FilterDigest = digest\<rparr>"

definition pageLimit :: "ListOrdersRequest \<Rightarrow> nat" where
  "pageLimit msg = nat (if lr_Limit msg = 0 then defaultOrderLimit else lr_Limit msg)"

lemma pageOf_last: "length xs \<le> n \<Longrightarrow> pageOf s (int n) digest (take (Suc n) xs) = Inr \<lparr>lp_Orders = map (toProtoOrder s) xs, lp_NextPageToken = []\<rparr>"
  by (simp add: pageOf_def)

lemma pageOf_more:
  assumes "n < length xs" "0 < n" "encodePageToken s (tokenFor digest (xs ! (n - 1))) = Inr e"
  shows "pageOf s (int n) digest (take (Suc n) xs) = Inr \<lparr>lp_Orders = map (toProtoOrder s) (take n xs), lp_NextPageToken = e\<rparr>"
proof -
  have ne: "take n xs \<noteq> []" using assms(1,2) by auto
  have "last (take n xs) = xs ! (n - 1)" using assms(1,2) by (simp add: last_conv_nth [OF ne] min_def)
  with ne assms show ?thesis by (simp add: pageOf_def tokenFor_def min_def Let_def)
qed

lemma matches_cursor [simp]: "matchesQuery (q\<lparr>q_CursorCreatedAt := a, q_CursorID := b\<rparr>) r = matchesQuery q r"
  by (simp add: matchesQuery_def)

lemma orderFilter_query: "orderFilter s msg limit = (q, digest) \<Longrightarrow> q_CursorCreatedAt q = None \<and> q_CursorID q = None \<and> q_Limit q = limit \<and> ascii_text digest"
  by (auto simp: orderFilter_def Let_def)

lemma orderFilter_token [simp]: "orderFilter s (msg\<lparr>lr_PageToken := t\<rparr>) limit = orderFilter s msg limit"
  by (simp add: orderFilter_def)

lemma pageLimit_token [simp]: "pageLimit (msg\<lparr>lr_PageToken := t\<rparr>) = pageLimit msg"
  by (simp add: pageLimit_def)

lemma pageLimit_range: "0 \<le> lr_Limit msg \<Longrightarrow> lr_Limit msg \<le> 500 \<Longrightarrow> 0 < pageLimit msg \<and> pageLimit msg \<le> 500
    \<and> int (pageLimit msg) = (if lr_Limit msg = 0 then defaultOrderLimit else lr_Limit msg)"
  by (auto simp: pageLimit_def defaultOrderLimit_def)

context order_query
begin

text \<open>
  The request that asks for the orders from position \<open>i\<close> on: the first one has no token, the others the
  token behind the order before.
\<close>

definition asks_from :: "string \<Rightarrow> OrderRecord list \<Rightarrow> nat \<Rightarrow> ListOrdersRequest \<Rightarrow> bool" where
  "asks_from digest L i msg \<longleftrightarrow> (i = 0 \<and> lr_PageToken msg = [] \<or>
     0 < i \<and> encodePageToken s (tokenFor digest (L ! (i - 1))) = Inr (lr_PageToken msg))"

lemma handler_page:
  assumes "invar w" "token_codec s" "0 \<le> lr_Limit msg" "lr_Limit msg \<le> 500"
    and "orderFilter s msg (int (pageLimit msg)) = (q, digest)"
    and "L = filter (matchesQuery q) (listing w)" "i \<le> length L" "asks_from digest L i msg"
  shows "\<exists>w'. ListOrders_handler s msg w = (pageOf s (int (pageLimit msg)) digest (take (Suc (pageLimit msg)) (drop i L)), w')
    \<and> invar w' \<and> listing w' = listing w"
proof -
  note q = orderFilter_query [OF assms(5)]
  note lim = pageLimit_range [OF assms(3,4)]
  have bounds: "0 \<le> int (pageLimit msg)" "int (pageLimit msg) < 2 ^ 31" using lim by simp_all
  show ?thesis
  proof (cases "i = 0")
    case True
    with assms(8) have tok: "lr_PageToken msg = []" by (simp add: asks_from_def)
    from list_page [OF assms(1), of q] q bounds obtain w' where
      "os_ListOrders s q w = (Inr (take (Suc (pageLimit msg)) (filter (\<lambda>r. matchesQuery q r \<and> afterCursor q r) (listing w))), w')"
      "invar w'" "listing w' = listing w" by auto
    moreover have "filter (\<lambda>r. matchesQuery q r \<and> afterCursor q r) (listing w) = L"
      using q by (simp add: afterCursor_def assms(6))
    ultimately show ?thesis using True tok lim assms(5) by (simp add: ListOrders_handler_def)
  next
    case False
    let ?c = "L ! (i - 1)"
    from False assms(8) have enc: "encodePageToken s (tokenFor digest ?c) = Inr (lr_PageToken msg)" by (simp add: asks_from_def)
    from False assms(7) have c: "?c \<in> set L" by simp
    then have cl: "?c \<in> set (listing w)" by (simp add: assms(6))
    note st = listing_stamped [OF assms(1) cl]
    have js: "token_ok (tokenFor digest ?c)" using st q by (simp add: tokenFor_def token_ok_def)
    obtain e where e: "encodePageToken s (tokenFor digest ?c) = Inr e" "e \<noteq> []"
      "decodePageToken s e digest = Inr (tokenFor digest ?c)"
      using encode_decode [OF assms(2) js] st by (metis (no_types, lifting) PageToken.select_convs tokenFor_def)
    with enc have tok: "lr_PageToken msg \<noteq> []" "decodePageToken s (lr_PageToken msg) digest = Inr (tokenFor digest ?c)" by simp_all
    let ?q = "q\<lparr>q_CursorCreatedAt := Some (or_CreatedAt ?c), q_CursorID := Some (or_ClientOrderID ?c)\<rparr>"
    from list_page [OF assms(1), of ?q] q bounds cl obtain w' where w':
      "os_ListOrders s ?q w = (Inr (take (Suc (pageLimit msg)) (filter (\<lambda>r. matchesQuery ?q r \<and> afterCursor ?q r) (listing w))), w')"
      "invar w'" "listing w' = listing w" by auto
    have "filter (\<lambda>r. matchesQuery ?q r \<and> afterCursor ?q r) (listing w) = filter (\<lambda>r. pageKey r < pageKey ?c) L"
      by (simp add: assms(6) afterCursor_def pageKey_def conj_commute)
    also have "\<dots> = drop i L"
      using newestFirst_filter [OF listing_sorted [OF assms(1)]] False assms(7) by (intro filter_after) (auto simp: assms(6))
    finally show ?thesis using w' tok lim assms(5) by (simp add: ListOrders_handler_def tokenFor_def)
  qed
qed

lemma pages_from:
  assumes "invar w" "token_codec s" "0 \<le> lr_Limit msg" "lr_Limit msg \<le> 500"
    and "orderFilter s msg (int (pageLimit msg)) = (q, digest)"
    and "L = filter (matchesQuery q) (listing w)" "i \<le> length L" "asks_from digest L i msg" "length L - i < n"
  shows "\<exists>pages w'. fetchPages s msg n w = (Some (Inr pages), w') \<and> concat pages = map (toProtoOrder s) (drop i L)
    \<and> list_all (\<lambda>p. length p \<le> pageLimit msg) pages \<and> invar w' \<and> listing w' = listing w"
  using assms
proof (induction n arbitrary: msg i w)
  case 0
  then show ?case by simp
next
  case (Suc n)
  note lim = pageLimit_range [OF Suc.prems(3,4)]
  from handler_page [OF Suc.prems(1-8)] obtain w1 where h:
    "ListOrders_handler s msg w = (pageOf s (int (pageLimit msg)) digest (take (Suc (pageLimit msg)) (drop i L)), w1)"
    "invar w1" "listing w1 = listing w" by blast
  show ?case
  proof (cases "length (drop i L) \<le> pageLimit msg")
    case True
    from h(1) [unfolded pageOf_last [OF True]] h(2,3) True show ?thesis by simp
  next
    case False
    let ?p = "pageLimit msg"
    let ?r = "L ! (i + ?p - 1)"
    from False lim have last: "drop i L ! (?p - 1) = ?r" by (simp add: add.commute)
    have "?r \<in> set L" using False lim by simp
    then have "?r \<in> set (listing w)" by (simp add: Suc.prems(6))
    then have js: "token_ok (tokenFor digest ?r)"
      using listing_stamped [OF Suc.prems(1)] orderFilter_query [OF Suc.prems(5)] by (simp add: tokenFor_def token_ok_def)
    obtain e where e: "encodePageToken s (tokenFor digest ?r) = Inr e" "e \<noteq> []"
      using encode_decode [OF Suc.prems(2) js] by metis
    have pg: "pageOf s (int ?p) digest (take (Suc ?p) (drop i L)) = Inr \<lparr>lp_Orders = map (toProtoOrder s) (take ?p (drop i L)), lp_NextPageToken = e\<rparr>"
      using False lim e(1) by (intro pageOf_more) (simp_all add: last)
    have next_req: "asks_from digest L (i + ?p) (msg\<lparr>lr_PageToken := e\<rparr>)" using lim e(1) by (simp add: asks_from_def)
    have le: "i + ?p \<le> length L" "length L - (i + ?p) < n" using False conjunct1 [OF lim] Suc.prems(9) by auto
    from Suc.IH [of w1 "msg\<lparr>lr_PageToken := e\<rparr>" "i + ?p"] h(2,3) Suc.prems(2-6) le next_req obtain pages w2 where rest:
      "fetchPages s (msg\<lparr>lr_PageToken := e\<rparr>) n w1 = (Some (Inr pages), w2)" "concat pages = map (toProtoOrder s) (drop (i + ?p) L)"
      "list_all (\<lambda>p. length p \<le> ?p) pages" "invar w2" "listing w2 = listing w1" by auto
    have "map (toProtoOrder s) (take ?p (drop i L)) @ map (toProtoOrder s) (drop (i + ?p) L) = map (toProtoOrder s) (drop i L)"
      by (metis append_take_drop_id drop_drop map_append add.commute)
    with h rest e(2) pg show ?thesis by simp
  qed
qed

end

subsection \<open>The Postgres store keeps the contract\<close>

text \<open>
  The conditions on the database: no connection faults while the client pages, one row for each ID, and
  creation times that are those of a \<open>timestamptz\<close> column in the years a JSON time can have, and ASCII IDs
  (the API accepts only ULIDs).
\<close>

definition pageable :: "DB \<Rightarrow> bool" where
  "pageable db \<longleftrightarrow> db_faults db = (\<lambda>_. None) \<and> orders_inv (db_durable db)
     \<and> list_all (\<lambda>r. pg_time (o_CreatedAt r) = o_CreatedAt r \<and> \<not> IsZero (o_CreatedAt r) \<and> json_time_ok (o_CreatedAt r)
         \<and> o_ClientOrderID r \<noteq> [] \<and> ascii_text (o_ClientOrderID r)) (orders (db_durable db))"

definition rowKey :: "OrderRow \<Rightarrow> Time \<times> string" where
  "rowKey r = (o_CreatedAt r, o_ClientOrderID r)"

definition db_listing :: "DB \<Rightarrow> OrderRecord list" where
  "db_listing db = map orderRecord (rev (sort_key rowKey (orders (db_durable db))))"

lemma rowKey_record [simp]: "pageKey (orderRecord r) = rowKey r"
  by (simp add: pageKey_def rowKey_def orderRecord_def)

lemma db_listing_sorted:
  assumes "pageable db"
  shows "newestFirst (db_listing db)"
proof -
  let ?xs = "sort_key rowKey (orders (db_durable db))"
  have "distinct (map rowKey (orders (db_durable db)))"
    using assms by (auto simp: pageable_def orders_inv_def rowKey_def distinct_map inj_on_def)
  then have "distinct (map rowKey ?xs)" by (simp add: distinct_sort_key_map)
  then have "sorted_wrt (<) (map rowKey ?xs)" by (simp add: strict_sorted_iff)
  then show ?thesis by (simp add: newestFirst_def db_listing_def sorted_wrt_rev sorted_wrt_map)
qed

text \<open>The statement selects what the query selects.\<close>

definition row_selected :: "Query \<Rightarrow> OrderRow \<Rightarrow> bool" where
  "row_selected q w \<longleftrightarrow> (q_Venue q = None \<or> q_Venue q = Some (o_Venue w))
     \<and> (case (if q_Statuses q = [] then None else Some (q_Statuses q)) of None \<Rightarrow> True | Some ss \<Rightarrow> o_Status w \<in> set ss)
     \<and> (q_BotID q = None \<or> q_BotID q = Some (o_BotID w)) \<and> before_cursor (map_option pg_time (q_CursorCreatedAt q)) (q_CursorID q) w"

lemma row_selected_iff:
  assumes "q_CursorCreatedAt q = None \<and> q_CursorID q = None \<or>
    (\<exists>c. q_CursorCreatedAt q = Some (or_CreatedAt c) \<and> q_CursorID q = Some (or_ClientOrderID c) \<and> pg_time (or_CreatedAt c) = or_CreatedAt c)"
  shows "row_selected q w \<longleftrightarrow> matchesQuery q (orderRecord w) \<and> afterCursor q (orderRecord w)"
  using assms by (auto simp: row_selected_def matchesQuery_def afterCursor_def before_cursor_def rowKey_def less_prod_simp orderRecord_def
      pageKey_def)

lemma ListOrders_run:
  assumes "pageable db" "0 \<le> q_Limit q" "q_Limit q < 2 ^ 31"
  shows "\<exists>db'. ListOrders q db = (Inr (map orderRecord (take (Suc (nat (q_Limit q))) (rev (sort_key rowKey
      (filter (row_selected q) (orders (db_durable db))))))), db')
    \<and> db_durable db' = db_durable db \<and> db_faults db' = db_faults db"
proof -
  have "wrap64 (q_Limit q + 1) = q_Limit q + 1" using assms(2,3) by (intro wrap64_id) simp_all
  then have "autocommit (q_ListOrders (q_Venue q) (if q_Statuses q = [] then None else Some (q_Statuses q)) (q_BotID q)
      (map_option pg_time (q_CursorCreatedAt q)) (q_CursorID q) (wrap64 (q_Limit q + 1))) db
    = (Inr (take (Suc (nat (q_Limit q))) (rev (sort_key rowKey (filter (row_selected q) (orders (db_durable db)))))),
       db\<lparr>db_stmt := Suc (db_stmt db), db_work := db_durable db, db_tx := Suc (db_tx db)\<rparr>)"
    using assms by (simp add: autocommit_def exec_def pageable_def q_ListOrders_def rowKey_def [abs_def] row_selected_def [abs_def] nat_add_distrib)
  then show ?thesis by (simp add: ListOrders_def bindS_def wrapS_def mapErrS_def returnS_def)
qed

interpretation pg_query: order_query pageable db_listing "p\<lparr>os_ListOrders := ListOrders\<rparr>" for p :: "DB OrderServer"
proof
  fix db and q :: Query
  assume g: "pageable db"
  then show "newestFirst (db_listing db)" by (rule db_listing_sorted)
  show "\<not> IsZero (or_CreatedAt r) \<and> json_time_ok (or_CreatedAt r) \<and> or_ClientOrderID r \<noteq> [] \<and> ascii_text (or_ClientOrderID r)" if "r \<in> set (db_listing db)" for r
    using that g by (auto simp: db_listing_def pageable_def list_all_iff orderRecord_def)
  assume l: "0 \<le> q_Limit q" "q_Limit q < 2 ^ 31" and c: "q_CursorCreatedAt q = None \<and> q_CursorID q = None \<or>
        (\<exists>c \<in> set (db_listing db). q_CursorCreatedAt q = Some (or_CreatedAt c) \<and> q_CursorID q = Some (or_ClientOrderID c))"
  have stamp: "pg_time (or_CreatedAt r) = or_CreatedAt r" if "r \<in> set (db_listing db)" for r
    using that g by (auto simp: db_listing_def pageable_def list_all_iff orderRecord_def)
  have sel: "row_selected q w \<longleftrightarrow> matchesQuery q (orderRecord w) \<and> afterCursor q (orderRecord w)" for w
    by (rule row_selected_iff) (use c stamp in blast)
  have "map orderRecord (rev (sort_key rowKey (filter (row_selected q) (orders (db_durable db)))))
    = filter (\<lambda>r. matchesQuery q r \<and> afterCursor q r) (db_listing db)"
    by (simp add: db_listing_def filter_map comp_def sel [symmetric] rev_filter [symmetric] filter_sort)
  with ListOrders_run [OF g l] obtain db' where
    "ListOrders q db = (Inr (take (Suc (nat (q_Limit q))) (filter (\<lambda>r. matchesQuery q r \<and> afterCursor q r) (db_listing db))), db')"
    "db_durable db' = db_durable db" "db_faults db' = db_faults db" by (auto simp: take_map [symmetric])
  then show "\<exists>w'. os_ListOrders (p\<lparr>os_ListOrders := ListOrders\<rparr>) q db =
      (Inr (take (Suc (nat (q_Limit q))) (filter (\<lambda>r. matchesQuery q r \<and> afterCursor q r) (db_listing db))), w')
    \<and> pageable w' \<and> db_listing w' = db_listing db"
    using g by (auto simp: pageable_def db_listing_def)
qed

text \<open>
  C10: following the page tokens ends, and lists every order once. For a request that passes the validation of
  its limit, a client that sends it without a token and then with each token it gets is done after at most
  one request more than there are orders; the pages, none longer than the limit, are together exactly the
  stored orders that match the request's filter, newest first, each once.
\<close>

theorem pages_list_every_order:
  assumes "pageable db" "token_codec p" "0 \<le> lr_Limit msg" "lr_Limit msg \<le> 500" "lr_PageToken msg = []"
    and "s = p\<lparr>os_ListOrders := ListOrders\<rparr>" "orderFilter s msg (int (pageLimit msg)) = (q, digest)"
    and "length (orders (db_durable db)) < n"
  shows "\<exists>pages db'. fetchPages s msg n db = (Some (Inr pages), db')
    \<and> concat pages = map (toProtoOrder s \<circ> orderRecord) (filter (\<lambda>w. matchesQuery q (orderRecord w))
        (rev (sort_key (\<lambda>w. (o_CreatedAt w, o_ClientOrderID w)) (orders (db_durable db)))))
    \<and> list_all (\<lambda>page. length page \<le> pageLimit msg) pages"
proof -
  let ?L = "filter (matchesQuery q) (db_listing db)"
  have codec: "token_codec (p\<lparr>os_ListOrders := ListOrders\<rparr>)" using assms(2) by (simp add: token_codec_def)
  have "length ?L \<le> length (orders (db_durable db))" by (simp add: db_listing_def order_trans [OF length_filter_le])
  with assms(8) have len: "length ?L - 0 < n" by simp
  have start: "pg_query.asks_from p digest ?L 0 msg" using assms(5) by (simp add: pg_query.asks_from_def)
  from pg_query.pages_from [of db p msg q digest ?L 0 n, OF assms(1) codec assms(3,4) assms(7) [unfolded assms(6)] refl _ start len]
  show ?thesis unfolding assms(6) by (auto simp: db_listing_def filter_map comp_def rowKey_def [abs_def])
qed

subsection \<open>A codec, and paging on a concrete database\<close>

text \<open>A codec that meets the law: numbers in unary, texts with their length before them.\<close>

fun tally :: "nat \<Rightarrow> string" where
  "tally 0 = ''.''"
| "tally (Suc n) = CHR ''i'' # tally n"

fun untally :: "string \<Rightarrow> (nat \<times> string) option" where
  "untally [] = None"
| "untally (c # cs) = (if c = CHR ''.'' then Some (0, cs) else map_option (\<lambda>(n, rest). (Suc n, rest)) (untally cs))"

lemma untally_tally: "untally (tally n @ rest) = Some (n, rest)"
  by (induction n) auto

definition demo_marshal :: "PageToken \<Rightarrow> Err + string" where
  "demo_marshal tok = Inr (tally (nat (pt_V tok)) @ tally (nat (nanos (pt_CreatedAt tok) + 366 * 24 * hour))
     @ tally (length (pt_ClientOrderID tok)) @ pt_ClientOrderID tok @ pt_FilterDigest tok)"

definition demo_unmarshal :: "string \<Rightarrow> (PageToken \<times> string) option" where
  "demo_unmarshal body =
    (case untally body of None \<Rightarrow> None | Some (v, body) \<Rightarrow>
     case untally body of None \<Rightarrow> None | Some (t, body) \<Rightarrow>
     case untally body of None \<Rightarrow> None | Some (n, body) \<Rightarrow>
       Some (\<lparr>pt_V = int v, pt_CreatedAt = Time (int t - 366 * 24 * hour), pt_ClientOrderID = take n body,
         pt_FilterDigest = drop n body\<rparr>, []))"

definition demo_service :: "DB OrderSvc" where
  "demo_service = \<lparr>sv_venues = (\<lambda>_. None),
     sv_commands = \<lparr>cs_CreatePending = CreatePending, cs_GetOrder = Order_Store.GetOrder, cs_MarkCancelRequested = MarkCancelRequested\<rparr>,
     sv_events = \<lparr>es_ApplyEvent = ApplyEvent demo_store\<rparr>, sv_clk = (\<lambda>_. Time 1000), sv_newID = (\<lambda>_. ''01JG5''),
     sv_Retry = (\<lambda>_ _ _ db. (Inl (ESentinel ContextDeadlineExceeded), db)), sv_submitBudget = 0, sv_wait = (\<lambda>_ db. (True, db)),
     sv_observeDropped = (\<lambda>_ _ db. db), sv_observeUnmatched = (\<lambda>_ db. db)\<rparr>"

definition demo_server :: "DB OrderServer" where
  "demo_server = \<lparr>os_service = demo_service, os_ListOrders = ListOrders, os_NewFromString = (\<lambda>_. None), os_String = (\<lambda>_. ''0''),
     os_sha256 = id, os_MarshalToken = demo_marshal, os_DecodeToken = demo_unmarshal, os_AtEOF = (\<lambda>rest. rest = []),
     os_MarshalFilter = (\<lambda>venue statuses bot_id. venue @ concat statuses @ bot_id)\<rparr>"

lemma demo_codec: "token_codec demo_server"
proof -
  have "demo_unmarshal (projr (demo_marshal tok)) = Some (tok, [])" if "token_ok tok" for tok
    using that by (cases tok) (auto simp: demo_unmarshal_def demo_marshal_def untally_tally token_ok_def json_time_ok_def)
  moreover have "demo_marshal tok = Inr (projr (demo_marshal tok)) \<and> projr (demo_marshal tok) \<noteq> []" for tok
    by (cases "nat (pt_V tok)") (auto simp: demo_marshal_def)
  ultimately show ?thesis unfolding token_codec_def by (auto simp: demo_server_def)
qed

definition demo_list_request :: ListOrdersRequest where
  "demo_list_request = \<lparr>lr_Venue = [], lr_Statuses = [], lr_BotId = [], lr_Limit = 0, lr_PageToken = []\<rparr>"

lemma demo_orders: "\<exists>row. orders (db_durable (demo_db Buy (\<lambda>_. None))) = [row] \<and> o_CreatedAt row = Time 1000 \<and> o_ClientOrderID row = ''01JG3''"
  by (simp add: demo_defs run_defs eval_defs Let_def pg_time_def)

lemma demo_pageable: "pageable (demo_db Buy (\<lambda>_. None))"
proof -
  have "orders_inv (db_durable (demo_db Buy (\<lambda>_. None)))"
    using store_reach_inv [OF demo_reach(1)] by (simp add: store_inv_def)
  moreover have "db_faults (demo_db Buy (\<lambda>_. None)) = (\<lambda>_. None)" by (simp add: demo_db_def)
  ultimately show ?thesis
    using demo_orders by (auto simp: pageable_def IsZero_def json_time_ok_def pg_time_def hour_def minute_def second_def ascii_text_def byte_def)
qed

theorem pages_list_every_order_witness:
  "\<exists>pages db'. fetchPages demo_server demo_list_request 2 (demo_db Buy (\<lambda>_. None)) = (Some (Inr pages), db')
     \<and> map px_ClientOrderId (concat pages) = [''01JG3'']"
proof -
  have same: "demo_server = demo_server\<lparr>os_ListOrders := ListOrders\<rparr>" by (simp add: demo_server_def)
  obtain row where row: "orders (db_durable (demo_db Buy (\<lambda>_. None))) = [row]" "o_ClientOrderID row = ''01JG3''" using demo_orders by blast
  obtain q digest where q: "orderFilter demo_server demo_list_request (int (pageLimit demo_list_request)) = (q, digest)" by (meson prod.exhaust)
  then have "matchesQuery q r" for r by (auto simp: orderFilter_def demo_list_request_def Let_def matchesQuery_def TrimSpace_def)
  with pages_list_every_order [OF demo_pageable demo_codec _ _ _ same q, of 2] row show ?thesis
    by (auto simp: demo_list_request_def toProtoOrder_def orderRecord_def)
qed

end
