(* ===== verification/Ctl_Orders.thy ===== *)
theory Ctl_Orders
  imports Api_Paging
begin

section \<open>The order commands of the command line client\<close>

text \<open>
  \<open>cmd/ctl/order.go\<close> over the order service. The flags are taken as the \<open>flag\<close> package has parsed them, and a
  call of the client is the call of the handler behind it. What a command prints is the list of its lines.
\<close>

subsection \<open>Names of enumeration values\<close>

text \<open>The tables of the generated \<open>orders.pb.go\<close>; a number without a name prints as itself.\<close>

definition Side_name :: "(proto_enum \<times> string) list" where
  "Side_name = [(0, ''SIDE_UNSPECIFIED''), (1, ''SIDE_BUY''), (2, ''SIDE_SELL'')]"

definition OrderStatus_name :: "(proto_enum \<times> string) list" where
  "OrderStatus_name = [(0, ''ORDER_STATUS_UNSPECIFIED''), (1, ''ORDER_STATUS_PENDING''), (2, ''ORDER_STATUS_OPEN''),
     (3, ''ORDER_STATUS_PARTIALLY_FILLED''), (4, ''ORDER_STATUS_FILLED''), (5, ''ORDER_STATUS_CANCELED''),
     (6, ''ORDER_STATUS_REJECTED''), (7, ''ORDER_STATUS_EXPIRED'')]"

definition OrderStatus_value :: "(string \<times> proto_enum) list" where
  "OrderStatus_value = map (\<lambda>(n, name). (name, n)) OrderStatus_name"

definition enumString :: "(proto_enum \<times> string) list \<Rightarrow> proto_enum \<Rightarrow> string" where
  "enumString names n = (case map_of names n of Some name \<Rightarrow> name | None \<Rightarrow> fmt_d n)"

definition TrimPrefix :: "string \<Rightarrow> string \<Rightarrow> string" where
  "TrimPrefix s p = (if HasPrefix s p then drop (length p) s else s)"

definition EqualFold :: "string \<Rightarrow> string \<Rightarrow> bool" where
  "EqualFold a b \<longleftrightarrow> ToLower a = ToLower b"

definition parseSide :: "string \<Rightarrow> proto_enum" where
  "parseSide v = (if EqualFold v ''buy'' then SIDE_BUY else if EqualFold v ''sell'' then SIDE_SELL else UNSPECIFIED)"

definition parseOrderType :: "string \<Rightarrow> proto_enum" where
  "parseOrderType v = (if EqualFold v ''limit'' then ORDER_TYPE_LIMIT else if EqualFold v ''market'' then ORDER_TYPE_MARKET else UNSPECIFIED)"

definition parseOrderStatus :: "string \<Rightarrow> proto_enum" where
  "parseOrderStatus v =
    (let normalized = ''ORDER_STATUS_'' @ ToUpper (map (\<lambda>c. if c = CHR ''-'' then CHR ''_'' else c) v) in
     case map_of OrderStatus_value normalized of Some n \<Rightarrow> n | None \<Rightarrow> 0)"

definition orderStatusText :: "proto_enum \<Rightarrow> string" where
  "orderStatusText status = ToLower (TrimPrefix (enumString OrderStatus_name status) ''ORDER_STATUS_'')"

text \<open>A status that is printed can be given as a filter, with either separator and in either case.\<close>

lemma parseOrderStatus_case: "parseOrderStatus (ToLower v) = parseOrderStatus v"
proof -
  have "upper_char (if lower_char c = CHR ''-'' then CHR ''_'' else lower_char c) = upper_char (if c = CHR ''-'' then CHR ''_'' else c)" for c
  proof -
    have "lower_char c = CHR ''-'' \<longleftrightarrow> c = CHR ''-''"
    proof
      assume "lower_char c = CHR ''-''"
      then have "of_char (lower_char c) = (45 :: nat)" by simp
      then have "of_char c = (45 :: nat)" by (simp add: of_char_lower split: if_splits)
      then show "c = CHR ''-''" by (intro char_eqI) simp
    qed (simp add: lower_char_def)
    moreover have "upper_char (lower_char c) = upper_char c"
      by (rule char_eqI) (simp add: of_char_upper of_char_lower)
    ultimately show ?thesis by simp
  qed
  then show ?thesis by (simp add: parseOrderStatus_def ToUpper_def ToLower_def comp_def)
qed

lemma status_text_roundtrip: "status \<in> {1..7} \<Longrightarrow> parseOrderStatus (orderStatusText status) = status"
proof -
  assume "status \<in> {1..7}"
  then consider "status = 1" | "status = 2" | "status = 3" | "status = 4" | "status = 5" | "status = 6" | "status = 7" by fastforce
  then show ?thesis unfolding orderStatusText_def parseOrderStatus_case
    by cases (simp_all add: enumString_def OrderStatus_name_def TrimPrefix_def HasPrefix_def
        parseOrderStatus_def OrderStatus_value_def ToUpper_def upper_char_def)
qed

subsection \<open>Placing and cancelling\<close>

datatype CtlErr = CtlErr Err | CallErr RpcErr

record PlaceFlags =
  pf_venue :: string
  pf_base :: string
  pf_quote :: string
  pf_side :: string
  pf_type :: string
  pf_qty :: string
  pf_price :: string
  pf_clientID :: string

definition placeRequest :: "PlaceFlags \<Rightarrow> PlaceOrderRequest" where
  "placeRequest f = \<lparr>po_Venue = pf_venue f, po_Base = ToUpper (pf_base f), po_Quote = ToUpper (pf_quote f), po_Side = parseSide (pf_side f),
     po_Type = parseOrderType (pf_type f), po_Qty = pf_qty f, po_Price = pf_price f, po_ClientOrderId = pf_clientID f\<rparr>"

definition unsettledWarning :: string where
  "unsettledWarning = ''WARNING: venue submission is unsettled; reconciliation will determine the final state''"

definition runOrderPlace :: "(PlaceOrderRequest \<Rightarrow> 'w \<Rightarrow> (RpcErr + PlaceOrderResponse) \<times> 'w) \<Rightarrow> PlaceFlags \<Rightarrow> 'w
    \<Rightarrow> (string list \<times> CtlErr option) \<times> 'w" where
  "runOrderPlace place f w =
    (case place (placeRequest f) w of
       (Inl e, w1) \<Rightarrow> (([], Some (CallErr e)), w1)
     | (Inr resp, w1) \<Rightarrow> (((ps_ClientOrderId resp @ ''  '' @ orderStatusText (ps_Status resp))
         # (if ps_SubmitUnsettled resp then [unsettledWarning] else []), None), w1))"

definition runOrderCancel :: "string \<Rightarrow> (string \<Rightarrow> 'w \<Rightarrow> (RpcErr + proto_enum) \<times> 'w) \<Rightarrow> string list \<Rightarrow> 'w
    \<Rightarrow> (string list \<times> CtlErr option) \<times> 'w" where
  "runOrderCancel prog cancel args w =
    (case args of
       [cid] \<Rightarrow> (case cancel cid w of
          (Inl e, w1) \<Rightarrow> (([], Some (CallErr e)), w1)
        | (Inr status, w1) \<Rightarrow> (([cid @ ''  '' @ orderStatusText status], None), w1))
     | _ \<Rightarrow> (([], Some (CtlErr (EText (''usage: '' @ prog @ '' order cancel <client-order-id>'')))), w))"

subsection \<open>Listing\<close>

record ListFlags =
  lf_venue :: string
  lf_bot :: string
  lf_limit :: int
  lf_statuses :: "string list"

fun parseStatuses :: "string list \<Rightarrow> Err + proto_enum list" where
  "parseStatuses [] = Inr []"
| "parseStatuses (v # vs) =
    (if parseOrderStatus v = UNSPECIFIED then Inl (EText (''invalid order status '' @ fmt_q v))
     else bindR (parseStatuses vs) (\<lambda>ns. Inr (parseOrderStatus v # ns)))"

definition orderLine :: "ProtoOrder \<Rightarrow> string" where
  "orderLine ord = px_ClientOrderId ord @ ''  '' @ px_Venue ord @ ''  '' @ px_Base ord @ ''/'' @ px_Quote ord @ ''  ''
     @ ToLower (TrimPrefix (enumString Side_name (px_Side ord)) ''SIDE_'') @ '' '' @ px_Qty ord @ '' @ '' @ px_Price ord @ ''  ''
     @ orderStatusText (px_Status ord)"

definition listRequest :: "ListFlags \<Rightarrow> proto_enum list \<Rightarrow> int \<Rightarrow> string \<Rightarrow> ListOrdersRequest" where
  "listRequest f statuses sz pageToken = \<lparr>lr_Venue = lf_venue f, lr_Statuses = statuses, lr_BotId = lf_bot f,
     lr_Limit = sz, lr_PageToken = pageToken\<rparr>"

text \<open>
  The loop of \<open>runOrderList\<close>. It ends for every server: a page that does not end it takes at least one from the
  number of orders that remain to be printed.
\<close>

function listLoop :: "(ListOrdersRequest \<Rightarrow> 'w \<Rightarrow> (RpcErr + ListOrdersResponse) \<times> 'w) \<Rightarrow> (int \<Rightarrow> string \<Rightarrow> ListOrdersRequest)
    \<Rightarrow> string \<Rightarrow> int \<Rightarrow> 'w \<Rightarrow> (string list \<times> CtlErr option) \<times> 'w" where
  "listLoop lister request pageToken remaining w =
    (if remaining > 0 then
       (case lister (request (min remaining 500) pageToken) w of
          (Inl e, w1) \<Rightarrow> (([], Some (CallErr e)), w1)
        | (Inr resp, w1) \<Rightarrow>
           (let page = map orderLine (lp_Orders resp) in
            if lp_NextPageToken resp = [] \<or> lp_Orders resp = [] then ((page, None), w1)
            else (case listLoop lister request (lp_NextPageToken resp) (remaining - int (length (lp_Orders resp))) w1 of
              ((rest, err), w2) \<Rightarrow> ((page @ rest, err), w2))))
     else (([], None), w))"
  by pat_completeness auto

termination by (relation "measure (\<lambda>(lister, request, pageToken, remaining, w). nat remaining)") auto

declare listLoop.simps [simp del]

definition runOrderList :: "(ListOrdersRequest \<Rightarrow> 'w \<Rightarrow> (RpcErr + ListOrdersResponse) \<times> 'w) \<Rightarrow> ListFlags \<Rightarrow> 'w
    \<Rightarrow> (string list \<times> CtlErr option) \<times> 'w" where
  "runOrderList lister f w =
    (if lf_limit f < 1 then (([], Some (CtlErr (EText ''limit must be positive''))), w)
     else (case parseStatuses (lf_statuses f) of
         Inl err \<Rightarrow> (([], Some (CtlErr err)), w)
       | Inr statuses \<Rightarrow> listLoop lister (listRequest f statuses) [] (lf_limit f) w))"


text \<open>Requests that differ in the limit and the token only ask for the same orders.\<close>

lemma orderFilter_listRequest:
  assumes "orderFilter s (listRequest f statuses 1 []) 1 = (q, digest)"
  shows "orderFilter s (listRequest f statuses sz tok) n = (q\<lparr>q_Limit := n\<rparr>, digest)"
  using assms by (auto simp: orderFilter_def listRequest_def Let_def)

lemma matches_limit [simp]: "matchesQuery (q\<lparr>q_Limit := n\<rparr>) = matchesQuery q"
  by (simp add: matchesQuery_def fun_eq_iff)

context order_query
begin

lemma loop_prints:
  assumes "invar w" "token_codec s" "orderFilter s (listRequest f statuses 1 []) 1 = (q, digest)"
    and "L = filter (matchesQuery q) (listing w)" "i \<le> length L"
    and "\<And>sz. asks_from digest L i (listRequest f statuses sz tok)"
  shows "\<exists>w'. listLoop (ListOrders_handler s) (listRequest f statuses) tok r w
    = ((map (orderLine \<circ> toProtoOrder s) (take (nat r) (drop i L)), None), w')"
  using assms(1,4-6)
proof (induction "nat r" arbitrary: tok r i w rule: less_induct)
  case less
  show ?case
  proof (cases "r > 0")
    case False
    then show ?thesis by (simp add: listLoop.simps)
  next
    case True
    let ?n = "nat (min r 500)"
    let ?msg = "listRequest f statuses (min r 500) tok"
    have lim: "0 \<le> lr_Limit ?msg" "lr_Limit ?msg \<le> 500" "pageLimit ?msg = ?n" "0 < ?n" "int ?n = min r 500"
      using True by (simp_all add: listRequest_def pageLimit_def)
    have L: "L = filter (matchesQuery (q\<lparr>q_Limit := int ?n\<rparr>)) (listing w)" using less.prems(2) by simp
    from handler_page [OF less.prems(1) assms(2) lim(1,2) _ L less.prems(3,4), unfolded lim(3), OF orderFilter_listRequest [OF assms(3)]]
    obtain w1 where h: "ListOrders_handler s ?msg w = (pageOf s (int ?n) digest (take (Suc ?n) (drop i L)), w1)"
      "invar w1" "listing w1 = listing w" by blast
    show ?thesis
    proof (cases "length (drop i L) \<le> ?n")
      case le: True
      then have "take (nat r) (drop i L) = drop i L" using True by simp
      with h(1) [unfolded pageOf_last [OF le]] True show ?thesis by (simp add: listLoop.simps [of _ _ _ r] Let_def)
    next
      case gt: False
      let ?o = "L ! (i + ?n - 1)"
      have last: "drop i L ! (?n - 1) = ?o" using gt lim(4) by (simp add: add.commute)
      have "?o \<in> set L" using gt lim(4) by simp
      then have "?o \<in> set (listing w)" by (simp add: less.prems(2))
      then have ok: "token_ok (tokenFor digest ?o)"
        using listing_stamped [OF less.prems(1)] orderFilter_query [OF assms(3)] by (simp add: tokenFor_def token_ok_def)
      obtain e where e: "encodePageToken s (tokenFor digest ?o) = Inr e" "e \<noteq> []" using encode_decode [OF assms(2) ok] by metis
      have pg: "pageOf s (int ?n) digest (take (Suc ?n) (drop i L)) = Inr \<lparr>lp_Orders = map (toProtoOrder s) (take ?n (drop i L)), lp_NextPageToken = e\<rparr>"
        using gt lim(4) e(1) by (intro pageOf_more) (simp_all add: last)
      have page: "length (take ?n (drop i L)) = ?n" "take ?n (drop i L) \<noteq> []" using gt lim(4) by auto
      have "nat (r - int ?n) < nat r" "i + ?n \<le> length L" using True gt lim(4) by auto
      moreover have "asks_from digest L (i + ?n) (listRequest f statuses sz e)" for sz
        using lim(4) e(1) by (simp add: asks_from_def listRequest_def)
      ultimately obtain w2 where rest: "listLoop (ListOrders_handler s) (listRequest f statuses) e (r - int ?n) w1
          = ((map (orderLine \<circ> toProtoOrder s) (take (nat (r - int ?n)) (drop (i + ?n) L)), None), w2)"
        using less.hyps [of "r - int ?n" w1 "i + ?n" e] h(2,3) less.prems(2) by auto
      have "nat r = ?n + nat (r - int ?n)" using lim(5) True by simp
      then have "take (nat r) (drop i L) = take ?n (drop i L) @ take (nat (r - int ?n)) (drop (i + ?n) L)"
        by (metis add.commute drop_drop take_add)
      with h(1) pg e(2) page rest True show ?thesis by (simp add: listLoop.simps [of _ _ _ r] Let_def)
    qed
  qed
qed

end


subsection \<open>What the command prints\<close>


definition demo_list_flags :: ListFlags where
  "demo_list_flags = \<lparr>lf_venue = [], lf_bot = [], lf_limit = 700, lf_statuses = [''pending'', ''partially-filled'']\<rparr>"

lemma demo_statuses: "parseStatuses (lf_statuses demo_list_flags) = Inr [1, 3]"
  by code_simp

lemma demo_listed_status: "\<exists>row. orders (db_durable (demo_db Buy (\<lambda>_. None))) = [row] \<and> o_Status row = StatusPending"
  by (simp add: demo_defs run_defs eval_defs Let_def)


end
