(* ===== verification/Api_Events.thy ===== *)
theory Api_Events
  imports Api_Orders Snapshot_Service
begin

section \<open>The event stream and the snapshot query\<close>

text \<open>
  \<open>internal/api/events.go\<close> and \<open>internal/api/snapshot.go\<close>. \<open>StreamEvents\<close> subscribes to the bus with a handler
  that puts the events into a channel of its own, and forwards from there what has a message type. Decoding a
  JSON payload and printing a decimal are parameters.
\<close>

subsection \<open>Messages\<close>

record ProtoUpdated =
  xu_ClientOrderId :: string
  xu_Venue :: string
  xu_Base :: string
  xu_Quote :: string
  xu_Status :: proto_enum
  xu_FilledQty :: string

record ProtoFilled = ProtoUpdated +
  xf_Qty :: string
  xf_Price :: string

definition RECONCILE_DIFF_KIND_ORPHAN :: proto_enum where "RECONCILE_DIFF_KIND_ORPHAN = 1"

record ProtoDiff =
  xd_Kind :: proto_enum
  xd_Venue :: string
  xd_VenueOrderId :: string
  xd_ClientOrderId :: string
  xd_Base :: string
  xd_Quote :: string

record ProtoBalance =
  xb_Currency :: string
  xb_Total :: string
  xb_Free :: string
  xb_Locked :: string

record ProtoSnapshot =
  xs_Venue :: string
  xs_Account :: string
  xs_TakenAt :: Time
  xs_Balances :: "ProtoBalance list"

datatype ProtoPayload = Event_OrderUpdated ProtoUpdated | Event_OrderFilled ProtoFilled
  | Event_ReconcileDiff ProtoDiff | Event_SnapshotTaken ProtoSnapshot

record ProtoEvent =
  xe_Subject :: string
  xe_At :: Time
  xe_Payload :: ProtoPayload

subsection \<open>Translating an event\<close>

record EventServer =
  ev_String :: "Decimal \<Rightarrow> string"
  ev_UnmarshalUpdated :: "Payload \<Rightarrow> OrderUpdatedPayload option"
  ev_UnmarshalFilled :: "Payload \<Rightarrow> OrderFilledPayload option"

definition toProtoSnapshot :: "EventServer \<Rightarrow> AccountSnapshot \<Rightarrow> ProtoSnapshot" where
  "toProtoSnapshot s snap = \<lparr>xs_Venue = a_Venue (s_Account snap), xs_Account = a_Type (s_Account snap), xs_TakenAt = s_TakenAt snap,
     xs_Balances = map (\<lambda>b. \<lparr>xb_Currency = b_Currency b, xb_Total = ev_String s (b_Total b), xb_Free = ev_String s (b_Free b),
       xb_Locked = ev_String s (b_Locked b)\<rparr>) (s_Balances snap)\<rparr>"

text \<open>What \<open>decodeOrderPayload\<close> yields: only a payload that is raw JSON can be decoded.\<close>

definition decodeOrderPayload :: "(Payload \<Rightarrow> 'a option) \<Rightarrow> BusPayload BusEvent \<Rightarrow> 'a option" where
  "decodeOrderPayload unmarshal e = (case be_Payload e of OutboxPayload raw \<Rightarrow> unmarshal raw | _ \<Rightarrow> None)"

definition protoUpdated :: "EventServer \<Rightarrow> OrderUpdatedPayload \<Rightarrow> ProtoUpdated" where
  "protoUpdated s p = \<lparr>xu_ClientOrderId = ou_ClientOrderID p, xu_Venue = ou_Venue p, xu_Base = ou_Base p, xu_Quote = ou_Quote p,
     xu_Status = toProtoOrderStatus (ou_Status p), xu_FilledQty = ev_String s (ou_FilledQty p)\<rparr>"

definition protoFilled :: "EventServer \<Rightarrow> OrderFilledPayload \<Rightarrow> ProtoFilled" where
  "protoFilled s p = \<lparr>xu_ClientOrderId = of_ClientOrderID p, xu_Venue = of_Venue p, xu_Base = of_Base p, xu_Quote = of_Quote p,
     xu_Status = toProtoOrderStatus (of_Status p), xu_FilledQty = ev_String s (of_FilledQty p),
     xf_Qty = ev_String s (of_Qty p), xf_Price = ev_String s (of_Price p)\<rparr>"

definition protoDiff :: "ReconcileOrphanPayload \<Rightarrow> ProtoDiff" where
  "protoDiff p = \<lparr>xd_Kind = RECONCILE_DIFF_KIND_ORPHAN, xd_Venue = op_Venue p, xd_VenueOrderId = op_VenueOrderID p,
     xd_ClientOrderId = op_ClientOrderID p, xd_Base = op_Base p, xd_Quote = op_Quote p\<rparr>"

text \<open>The second component is the subjects that \<open>recordMalformed\<close> has counted.\<close>

definition toProtoEvent :: "EventServer \<Rightarrow> BusPayload BusEvent \<Rightarrow> string list \<Rightarrow> ProtoEvent option \<times> string list" where
  "toProtoEvent s e malformed =
    (let event = (\<lambda>payload. \<lparr>xe_Subject = be_Subject e, xe_At = be_At e, xe_Payload = payload\<rparr>);
         payload = (if be_Subject e = SubjectOrderUpdated
             then map_option (\<lambda>p. Event_OrderUpdated (protoUpdated s p)) (decodeOrderPayload (ev_UnmarshalUpdated s) e)
           else if be_Subject e = SubjectOrderFilled
             then map_option (\<lambda>p. Event_OrderFilled (protoFilled s p)) (decodeOrderPayload (ev_UnmarshalFilled s) e)
           else if be_Subject e = SubjectReconcileOrphan
             then (case be_Payload e of OrphanPayload p \<Rightarrow> Some (Event_ReconcileDiff (protoDiff p)) | _ \<Rightarrow> None)
           else (case be_Payload e of SnapshotPayload p \<Rightarrow> Some (Event_SnapshotTaken (toProtoSnapshot s p)) | _ \<Rightarrow> None))
     in case payload of
          None \<Rightarrow> (None, malformed @ [be_Subject e])
        | Some p \<Rightarrow> (Some (event p), malformed))"

subsection \<open>Streaming\<close>

definition streamBuffer :: nat where "streamBuffer = 64"

record StreamState =
  ss_events :: "BusPayload BusEvent list"
  ss_sent :: "ProtoEvent list"
  ss_malformed :: "string list"

text \<open>The handler that \<open>StreamEvents\<close> registers on the bus, and the branch of its loop that takes an event.\<close>

definition enqueue :: "BusPayload BusEvent \<Rightarrow> StreamState \<Rightarrow> StreamState" where
  "enqueue e st = (if length (ss_events st) < streamBuffer then st\<lparr>ss_events := ss_events st @ [e]\<rparr> else st)"

definition forward :: "EventServer \<Rightarrow> (ProtoEvent \<Rightarrow> Err + unit) \<Rightarrow> StreamState \<Rightarrow> Err option \<times> StreamState" where
  "forward s send st =
    (case ss_events st of
       [] \<Rightarrow> (None, st)
     | e # rest \<Rightarrow>
        (case toProtoEvent s e (ss_malformed st) of
           (None, malformed) \<Rightarrow> (None, st\<lparr>ss_events := rest, ss_malformed := malformed\<rparr>)
         | (Some msg, malformed) \<Rightarrow>
            (case send msg of
               Inl err \<Rightarrow> (Some err, st\<lparr>ss_events := rest, ss_malformed := malformed\<rparr>)
             | Inr _ \<Rightarrow> (None, st\<lparr>ss_events := rest, ss_malformed := malformed, ss_sent := ss_sent st @ [msg]\<rparr>))))"

text \<open>
  A stream that has been handed the given events by the bus. It ends with the error of a failing send or with
  that of its context; \<open>None\<close> while it goes on. The handler runs in the bus's goroutine, so its calls come
  between any two turns of the loop, and also after the loop has ended.
\<close>

inductive stream_run :: "EventServer \<Rightarrow> BusPayload BusEvent list \<Rightarrow> StreamState \<Rightarrow> Err option \<Rightarrow> bool" for s where
  opened: "stream_run s [] \<lparr>ss_events = [], ss_sent = [], ss_malformed = []\<rparr> None"
| handed: "stream_run s es st r \<Longrightarrow> stream_run s (es @ [e]) (enqueue e st) r"
| forwarded: "stream_run s es st None \<Longrightarrow> forward s send st = (r, st') \<Longrightarrow> stream_run s es st' r"
| canceled: "stream_run s es st None \<Longrightarrow> stream_run s es st (Some err)"

definition encodes :: "EventServer \<Rightarrow> BusPayload BusEvent \<Rightarrow> ProtoEvent option" where
  "encodes s e = fst (toProtoEvent s e [])"

lemma toProtoEvent_fst: "fst (toProtoEvent s e ms) = encodes s e"
  by (simp add: encodes_def toProtoEvent_def Let_def split: option.split)

lemma subseq_map_filter: "subseq xs ys \<Longrightarrow> subseq (List.map_filter f xs) (List.map_filter f ys)"
  by (induction rule: list_emb.induct) (auto simp: map_filter_simps split: option.split)

lemma map_filter_snoc: "List.map_filter f (xs @ [x]) = List.map_filter f xs @ (case f x of None \<Rightarrow> [] | Some y \<Rightarrow> [y])"
  by (induction xs) (auto simp: map_filter_simps split: option.split)

lemma stream_run_sent:
  assumes "stream_run s es st r"
  shows "subseq (ss_sent st @ List.map_filter (encodes s) (ss_events st)) (List.map_filter (encodes s) es)
    \<and> length (ss_events st) \<le> streamBuffer"
  using assms
proof induction
  case (handed es st r e)
  then show ?case
    by (auto simp: enqueue_def map_filter_snoc simp flip: append_assoc split: option.split
        intro: list_emb_append_mono subseq_rev_drop_many)
next
  case (forwarded es st send r st')
  show ?case
  proof (cases "ss_events st")
    case Nil
    with forwarded show ?thesis by (simp add: forward_def)
  next
    case (Cons e rest)
    obtain m ms where m: "toProtoEvent s e (ss_malformed st) = (m, ms)" by (rule prod.exhaust)
    with toProtoEvent_fst have enc: "encodes s e = m" by (metis fst_conv)
    have sub: "subseq (ss_sent st @ xs) (List.map_filter (encodes s) es)"
      if "subseq xs (List.map_filter (encodes s) (e # rest))" for xs
      using forwarded.IH Cons that by (metis subseq_order.order_trans subseq_append')
    have tail: "subseq (List.map_filter (encodes s) rest) (List.map_filter (encodes s) (e # rest))"
      by (auto simp: map_filter_simps split: option.split)
    show ?thesis
    proof (cases "ss_sent st' = ss_sent st")
      case True
      with forwarded m Cons sub [OF tail] show ?thesis
        by (auto simp: forward_def split: option.splits sum.splits)
    next
      case False
      with forwarded.hyps m Cons obtain msg where "m = Some msg" "st' = st\<lparr>ss_events := rest, ss_malformed := ms, ss_sent := ss_sent st @ [msg]\<rparr>"
        by (auto simp: forward_def split: option.splits sum.splits)
      with forwarded.IH Cons enc show ?thesis by (auto simp: map_filter_simps)
    qed
  qed
qed (auto simp: map_filter_simps streamBuffer_def)

subsection \<open>What the services publish\<close>

text \<open>
  The events that the daemon publishes for clients: the outbox rows of \<open>ApplyEvent\<close>, the orphans of the
  reconciler and the snapshots, each under its subject. The JSON codec reads a payload back as it was written.
\<close>

definition json_decodes :: "EventServer \<Rightarrow> bool" where
  "json_decodes s \<longleftrightarrow> (\<forall>p. ev_UnmarshalUpdated s (OrderUpdated p) = Some p) \<and> (\<forall>p. ev_UnmarshalFilled s (OrderFilled p) = Some p)"

fun announced :: "EventServer \<Rightarrow> string \<Rightarrow> BusPayload \<Rightarrow> ProtoPayload option" where
  "announced s subject (OutboxPayload (OrderUpdated p)) = (if subject = SubjectOrderUpdated then Some (Event_OrderUpdated (protoUpdated s p)) else None)"
| "announced s subject (OutboxPayload (OrderFilled p)) = (if subject = SubjectOrderFilled then Some (Event_OrderFilled (protoFilled s p)) else None)"
| "announced s subject (OutboxPayload (UnmatchedSell p)) = None"
| "announced s subject (OrphanPayload p) = (if subject = SubjectReconcileOrphan then Some (Event_ReconcileDiff (protoDiff p)) else None)"
| "announced s subject (SnapshotPayload p) = (if subject = SubjectTaken then Some (Event_SnapshotTaken (toProtoSnapshot s p)) else None)"
| "announced s subject (VenueIDPayload v) = None"

lemmas subject_defs = SubjectOrderUpdated_def SubjectOrderFilled_def SubjectReconcileOrphan_def SubjectTaken_def subjectUnmatchedSell_def

lemma encodes_announced:
  assumes "json_decodes s" "announced s (be_Subject e) (be_Payload e) = Some x"
  shows "encodes s e = Some \<lparr>xe_Subject = be_Subject e, xe_At = be_At e, xe_Payload = x\<rparr>"
  using assms(2,1)
  by (cases "(s, be_Subject e, be_Payload e)" rule: announced.cases)
    (auto simp: encodes_def toProtoEvent_def decodeOrderPayload_def json_decodes_def Let_def subject_defs split: if_splits)

text \<open>
  The event that the ledger publishes for a sell without lots has no message: every stream skips it and counts
  it as malformed.
\<close>

lemma unmatched_sell_counted_malformed:
  "be_Subject e = subjectUnmatchedSell \<Longrightarrow> be_Payload e = OutboxPayload p \<Longrightarrow> toProtoEvent s e ms = (None, ms @ [subjectUnmatchedSell])"
  by (simp add: toProtoEvent_def Let_def subject_defs)


definition demo_event_server :: EventServer where
  "demo_event_server = \<lparr>ev_String = (\<lambda>_. ''1''), ev_UnmarshalUpdated = (\<lambda>p. case p of OrderUpdated u \<Rightarrow> Some u | _ \<Rightarrow> None),
     ev_UnmarshalFilled = (\<lambda>p. case p of OrderFilled f \<Rightarrow> Some f | _ \<Rightarrow> None)\<rparr>"

definition demo_updated :: "BusPayload BusEvent" where
  "demo_updated = \<lparr>be_Subject = SubjectOrderUpdated, be_At = Time 5, be_Payload = OutboxPayload (OrderUpdated
     \<lparr>ou_ClientOrderID = ''01JG3'', ou_Venue = ''bybit'', ou_Base = ''BTC'', ou_Quote = ''USDT'', ou_Status = StatusOpen,
      ou_FilledQty = 0, ou_Source = SourceStream, ou_At = Time 4\<rparr>)\<rparr>"

text \<open>One subscriber to \<open>order.\<close>, one event published to it, received and forwarded.\<close>

lemma demo_bus_received: "\<exists>b h p. bus_run b h p \<and> h 0 = [demo_updated]"
proof -
  let ?b1 = "snd (Subscribe ''order.'' NewInProc :: int \<times> BusPayload InProc)"
  let ?b2 = "snd (Publish demo_updated ?b1)"
  let ?p = "\<lambda>i. if matched demo_updated ?b1 i then [demo_updated] else []"
  have "bus_run ?b1 (\<lambda>_. []) (\<lambda>_. [])" by (rule bus_run.subscribe [OF bus_run.start]) (simp add: Subscribe_def)
  then have b2: "bus_run ?b2 (\<lambda>_. []) ?p"
    using bus_run.publish [of ?b1 "\<lambda>_. []" "\<lambda>_. []" demo_updated "fst (Publish demo_updated ?b1)" ?b2, unfolded append_Nil] by simp
  have "receive 0 ?b2 = Some (demo_updated, ?b2\<lparr>chans := (chans ?b2)(0 := [])\<rparr>)"
    by (simp add: receive_def Publish_def Subscribe_def NewInProc_def offer_def demo_updated_def subject_defs HasPrefix_def subscriberBuffer_def)
  from bus_run.receive [OF b2 this] have "bus_run (?b2\<lparr>chans := (chans ?b2)(0 := [])\<rparr>) ((\<lambda>_. [])(0 := [demo_updated])) ?p" by simp
  then show ?thesis by (metis fun_upd_same)
qed

lemma demo_streamed: "\<exists>st. stream_run demo_event_server [demo_updated] st None \<and> map xe_Subject (ss_sent st) = [''order.updated'']"
proof -
  let ?st = "enqueue demo_updated \<lparr>ss_events = [], ss_sent = [], ss_malformed = []\<rparr>"
  have "stream_run demo_event_server [demo_updated] ?st None" using stream_run.handed [OF stream_run.opened, of demo_event_server demo_updated] by simp
  then have "stream_run demo_event_server [demo_updated] (snd (forward demo_event_server (\<lambda>_. Inr ()) ?st)) None"
    by (rule stream_run.forwarded [where send = "\<lambda>_. Inr ()"]) (simp add: forward_def enqueue_def streamBuffer_def toProtoEvent_def Let_def decodeOrderPayload_def
        demo_updated_def demo_event_server_def subject_defs)
  moreover have "map xe_Subject (ss_sent (snd (forward demo_event_server (\<lambda>_. Inr ()) ?st))) = [''order.updated'']"
    by (simp add: forward_def enqueue_def streamBuffer_def toProtoEvent_def Let_def decodeOrderPayload_def
        demo_updated_def demo_event_server_def subject_defs)
  ultimately show ?thesis by (intro exI conjI)
qed


subsection \<open>The last snapshot\<close>

record ProtoCheckpoint =
  xc_Id :: string
  xc_Venue :: string
  xc_Account :: string
  xc_TakenAt :: Time
  xc_BalanceCount :: int
  xc_Status :: proto_enum
  xc_Error :: string

definition CHECKPOINT_STATUS_OK :: proto_enum where "CHECKPOINT_STATUS_OK = 1"
definition CHECKPOINT_STATUS_FAILED :: proto_enum where "CHECKPOINT_STATUS_FAILED = 2"

definition checkpointStatus :: "string \<Rightarrow> proto_enum" where
  "checkpointStatus s = (if s = StatusOK then CHECKPOINT_STATUS_OK else if s = StatusFailed then CHECKPOINT_STATUS_FAILED else UNSPECIFIED)"

definition toProtoCheckpoint :: "Checkpoint \<Rightarrow> ProtoCheckpoint" where
  "toProtoCheckpoint c = \<lparr>xc_Id = cp_ID c, xc_Venue = a_Venue (cp_Account c), xc_Account = a_Type (cp_Account c),
     xc_TakenAt = cp_TakenAt c, xc_BalanceCount = wrap32 (cp_BalanceCount c), xc_Status = checkpointStatus (cp_Status c),
     xc_Error = cp_Error c\<rparr>"

definition GetLastSnapshot :: "(AccountRef \<Rightarrow> ('w, Checkpoint) op) \<Rightarrow> string \<Rightarrow> string \<Rightarrow> 'w \<Rightarrow> (RpcErr + ProtoCheckpoint) \<times> 'w" where
  "GetLastSnapshot lastSnapshot venue accountType w =
    (if \<not> Valid accountType then (Inl (ConnectError CodeInvalidArgument (EText (''unknown account type '' @ fmt_q accountType))), w)
     else (case lastSnapshot \<lparr>a_Venue = NewVenueID venue, a_Type = accountType\<rparr> w of
         (Inl err, w1) \<Rightarrow> (Inl (ConnectError (if errors_Is err ErrNotFound then CodeNotFound else CodeInternal) err), w1)
       | (Inr c, w1) \<Rightarrow> (Inr (toProtoCheckpoint c), w1)))"

text \<open>
  Over the checkpoint store, on a connection that does not fail: an account without a checkpoint is not found,
  and otherwise the answer is a checkpoint of that account that none of its others is later than.
\<close>

lemma GetLastSnapshot_answers:
  assumes "Valid accountType" "db_faults db = (\<lambda>_. None)"
    and "mine = filter (\<lambda>c. ck_Venue c = NewVenueID venue \<and> ck_AccountType c = accountType) (snapshot_checkpoints (db_durable db))"
  shows "(mine = [] \<longrightarrow> fst (GetLastSnapshot LastSnapshot venue accountType db) = Inl (ConnectError CodeNotFound (ESentinel ErrNotFound)))
    \<and> (mine \<noteq> [] \<longrightarrow> (\<exists>c\<in>set mine. fst (GetLastSnapshot LastSnapshot venue accountType db) = Inr (toProtoCheckpoint (checkpointOf c))
        \<and> (\<forall>c'\<in>set mine. (ck_TakenAt c', ck_CreatedAt c') \<le> (ck_TakenAt c, ck_CreatedAt c))))"
proof -
  let ?cs = "sort_key (\<lambda>c. (ck_TakenAt c, ck_CreatedAt c)) mine"
  have run: "fst (autocommit (q_LastSnapshot (NewVenueID venue) accountType) db) = Inr (case rev ?cs of [] \<Rightarrow> None | c # _ \<Rightarrow> Some c)"
    using assms(2,3) by (simp add: autocommit_def exec_def q_LastSnapshot_def Let_def)
  show ?thesis
  proof (cases "rev ?cs")
    case Nil
    with run assms(1) show ?thesis
      by (auto simp: GetLastSnapshot_def LastSnapshot_def split: prod.splits)
  next
    case (Cons c cs)
    have "sorted (map (\<lambda>c. (ck_TakenAt c, ck_CreatedAt c)) (rev cs @ [c]))"
      using Cons by (metis rev.simps(2) rev_swap sorted_sort_key)
    then have "\<forall>c'\<in>set cs. (ck_TakenAt c', ck_CreatedAt c') \<le> (ck_TakenAt c, ck_CreatedAt c)" by (auto simp: sorted_append)
    moreover have mine: "set mine = insert c (set cs)" by (metis Cons list.simps(15) set_rev set_sort)
    moreover have "fst (GetLastSnapshot LastSnapshot venue accountType db) = Inr (toProtoCheckpoint (checkpointOf c))"
      using run Cons assms(1) by (auto simp: GetLastSnapshot_def LastSnapshot_def split: prod.splits)
    ultimately show ?thesis by auto
  qed
qed

end
