(* ===== verification/Ctl_Watch.thy ===== *)
theory Ctl_Watch
  imports Api_Events "HOL-Library.AList"
begin

section \<open>The watch view of the command line client\<close>

text \<open>
  \<open>cmd/ctl/watch.go\<close>: the model that the messages of the terminal and of the event stream update, the rows of
  the balance table and the text of the view. The terminal library's styles, its table and the local time are
  parameters.
\<close>

record watchModel =
  wm_snapshots :: "(string \<times> ProtoSnapshot) list" \<comment> \<open>the map from accounts to snapshots\<close>
  wm_events :: int
  wm_lastAt :: Time
  wm_height :: int
  wm_err :: "Err option"

definition newWatchModel :: watchModel where
  "newWatchModel = \<lparr>wm_snapshots = [], wm_events = 0, wm_lastAt = zeroTime, wm_height = 0, wm_err = None\<rparr>"

datatype Msg = WindowSizeMsg int | KeyPressMsg string | EventMsg ProtoEvent | StreamErrMsg Err

definition GetSnapshotTaken :: "ProtoEvent \<Rightarrow> ProtoSnapshot option" where
  "GetSnapshotTaken e = (case xe_Payload e of Event_SnapshotTaken p \<Rightarrow> Some p | _ \<Rightarrow> None)"

text \<open>The second component says whether the command \<open>tea.Quit\<close> is returned.\<close>

definition Update :: "Msg \<Rightarrow> watchModel \<Rightarrow> watchModel \<times> bool" where
  "Update msg m =
    (case msg of
       WindowSizeMsg h \<Rightarrow> (m\<lparr>wm_height := h\<rparr>, False)
     | KeyPressMsg k \<Rightarrow> (m, k = ''q'' \<or> k = ''ctrl+c'')
     | EventMsg e \<Rightarrow>
        (let m1 = m\<lparr>wm_events := wm_events m + 1, wm_lastAt := xe_At e\<rparr> in
         (case GetSnapshotTaken e of
            None \<Rightarrow> m1
          | Some snap \<Rightarrow> m1\<lparr>wm_snapshots := AList.update (xs_Venue snap @ ''/'' @ xs_Account snap) snap (wm_snapshots m1)\<rparr>, False))
     | StreamErrMsg err \<Rightarrow> (m\<lparr>wm_err := Some err\<rparr>, True))"

subsection \<open>The table\<close>

text \<open>Balances without a total of zero come first, each part by currency; equal ones keep their order.\<close>

definition balanceKey :: "ProtoBalance \<Rightarrow> bool \<times> string" where
  "balanceKey b = (xb_Total b = ''0'', xb_Currency b)"

definition balanceRows :: "(string \<times> ProtoSnapshot) list \<Rightarrow> string list list" where
  "balanceRows snapshots = concat (map (\<lambda>k. case map_of snapshots k of
       None \<Rightarrow> []
     | Some snap \<Rightarrow> map (\<lambda>b. [k, xb_Currency b, xb_Total b, xb_Free b, xb_Locked b]) (sort_key balanceKey (xs_Balances snap)))
     (sort (map fst snapshots)))"

subsection \<open>The view\<close>

record Styles =
  sy_title :: "string \<Rightarrow> string"
  sy_subtle :: "string \<Rightarrow> string"
  sy_status :: "string \<Rightarrow> string"
  sy_table :: "string list list \<Rightarrow> string"
  sy_localClock :: "Time \<Rightarrow> string"

definition newline :: char where "newline = CHR 0x0A"

definition middot :: string where "middot = [CHR 0x20, CHR 0xC2, CHR 0xB7, CHR 0x20]"
definition ellipsis :: string where "ellipsis = [CHR 0xE2, CHR 0x80, CHR 0xA6]"

fun splitLines :: "string \<Rightarrow> string list" where
  "splitLines [] = [[]]"
| "splitLines (c # cs) = (if c = newline then [] # splitLines cs
     else (case splitLines cs of [] \<Rightarrow> [[c]] | l # ls \<Rightarrow> (c # l) # ls))"

fun joinLines :: "string list \<Rightarrow> string" where
  "joinLines [] = []"
| "joinLines [l] = l"
| "joinLines (l # ls) = l @ newline # joinLines ls"

definition statusLine :: "Styles \<Rightarrow> watchModel \<Rightarrow> string" where
  "statusLine sy m = fmt_d (int (length (wm_snapshots m))) @ '' accounts'' @ middot @ fmt_d (wm_events m) @ '' events''
     @ (if IsZero (wm_lastAt m) then [] else middot @ ''updated '' @ sy_localClock sy (wm_lastAt m))"

text \<open>\<open>lines[:budget-1]\<close> panics when the budget is 0.\<close>

definition fitLines :: "Styles \<Rightarrow> int \<Rightarrow> string list \<Rightarrow> RpcErr + string list" where
  "fitLines sy height ls =
    (let budget = height - 1 in
     if int (length ls) > budget then
       (if budget - 1 < 0 then Inl Panicked else Inr (take (nat (budget - 1)) ls @ [sy_subtle sy ellipsis]))
     else if int (length ls) < budget then Inr (ls @ replicate (nat (budget - int (length ls))) [])
     else Inr ls)"

definition View :: "Styles \<Rightarrow> watchModel \<Rightarrow> RpcErr + string" where
  "View sy m =
    (case wm_err m of
       Some err \<Rightarrow> Inr (''stream error: '' @ err_Error err @ [newline])
     | None \<Rightarrow>
        (let body = (if wm_snapshots m = [] then sy_subtle sy (''waiting for the first snapshot event'' @ ellipsis)
               else sy_table sy (balanceRows (wm_snapshots m)));
             content = sy_title sy ''balances'' @ [newline, newline] @ body in
         bindR (if wm_height m > 0 then bindR (fitLines sy (wm_height m) (splitLines content)) (\<lambda>ls. Inr (joinLines ls)) else Inr content)
           (\<lambda>content. Inr (content @ newline # sy_status sy (statusLine sy m @ middot @ ''q to quit'')))))"

subsection \<open>What is shown\<close>

lemma splitLines_nonempty [simp]: "splitLines s \<noteq> []"
  by (induction s) (auto split: list.split)

lemma splitLines_append: "length (splitLines (a @ newline # b)) = length (splitLines a) + length (splitLines b)"
  by (induction a) (auto split: list.splits)

lemma splitLines_none: "newline \<notin> set s \<Longrightarrow> splitLines s = [s]"
  by (induction s) auto

lemma splitLines_lines: "l \<in> set (splitLines s) \<Longrightarrow> newline \<notin> set l"
  by (induction s arbitrary: l) (fastforce split: list.splits if_splits)+

lemma splitLines_join: "ls \<noteq> [] \<Longrightarrow> (\<And>l. l \<in> set ls \<Longrightarrow> newline \<notin> set l) \<Longrightarrow> length (splitLines (joinLines ls)) = length ls"
  by (induction ls rule: joinLines.induct) (auto simp: splitLines_append splitLines_none)

text \<open>
  On a terminal of at least two lines the view fills it exactly, whatever is shown, when the styles of the
  ellipsis and of the status keep them on one line. On a terminal of one line the client panics.
\<close>

lemma fitLines_length:
  assumes "2 \<le> height"
  shows "\<exists>ls'. fitLines sy height ls = Inr ls' \<and> int (length ls') = height - 1 \<and> set ls' \<subseteq> set ls \<union> {sy_subtle sy ellipsis, []}"
  using assms by (auto simp: fitLines_def Let_def dest: in_set_takeD)

lemma View_fills_terminal:
  assumes "2 \<le> wm_height m" "wm_err m = None" "newline \<notin> set (sy_subtle sy ellipsis)" "\<And>t. newline \<notin> set (sy_status sy t)"
  shows "\<exists>v. View sy m = Inr v \<and> int (length (splitLines v)) = wm_height m"
proof -
  let ?content = "sy_title sy ''balances'' @ [newline, newline] @ (if wm_snapshots m = [] then sy_subtle sy (''waiting for the first snapshot event'' @ ellipsis)
      else sy_table sy (balanceRows (wm_snapshots m)))"
  from fitLines_length [OF assms(1), of sy "splitLines ?content"] obtain ls where ls: "fitLines sy (wm_height m) (splitLines ?content) = Inr ls"
    "int (length ls) = wm_height m - 1" "set ls \<subseteq> set (splitLines ?content) \<union> {sy_subtle sy ellipsis, []}" by blast
  have "ls \<noteq> []" using ls(2) assms(1) by auto
  moreover have "newline \<notin> set l" if "l \<in> set ls" for l using ls(3) that assms(3) splitLines_lines by fastforce
  ultimately have "length (splitLines (joinLines ls)) = length ls" by (rule splitLines_join)
  then show ?thesis using assms ls(1,2) by (simp add: View_def Let_def splitLines_append splitLines_none)
qed

lemma View_panics_on_one_line: "wm_height m = 1 \<Longrightarrow> wm_err m = None \<Longrightarrow> View sy m = Inl Panicked"
  by (simp add: View_def fitLines_def Let_def)

text \<open>The table lists every balance of the latest snapshot of every account, and nothing else.\<close>

lemma balanceRows_iff:
  "row \<in> set (balanceRows snapshots) \<longleftrightarrow> (\<exists>k snap b. map_of snapshots k = Some snap \<and> b \<in> set (xs_Balances snap)
     \<and> row = [k, xb_Currency b, xb_Total b, xb_Free b, xb_Locked b])"
proof -
  have "row \<in> set (balanceRows snapshots) \<longleftrightarrow> (\<exists>k \<in> dom (map_of snapshots). row \<in> set (case map_of snapshots k of
       None \<Rightarrow> []
     | Some snap \<Rightarrow> map (\<lambda>b. [k, xb_Currency b, xb_Total b, xb_Free b, xb_Locked b]) (sort_key balanceKey (xs_Balances snap))))"
    by (simp add: balanceRows_def dom_map_of_conv_image_fst)
  also have "\<dots> \<longleftrightarrow> (\<exists>k snap b. map_of snapshots k = Some snap \<and> b \<in> set (xs_Balances snap)
     \<and> row = [k, xb_Currency b, xb_Total b, xb_Free b, xb_Locked b])" by (fastforce simp: dom_def)
  finally show ?thesis .
qed

lemma Update_latest:
  assumes "GetSnapshotTaken e = Some snap"
  shows "map_of (wm_snapshots (fst (Update (EventMsg e) m))) = (map_of (wm_snapshots m))(xs_Venue snap @ ''/'' @ xs_Account snap \<mapsto> snap)"
  using assms by (simp add: Update_def Let_def update_conv')

end
