(* ===== verification/Control_Addr.thy ===== *)
theory Control_Addr
  imports Config
begin

section \<open>The control address\<close>

text \<open>
  \<open>internal/api/listen.go\<close>, \<open>internal/api/client.go\<close> and \<open>run\<close> of \<open>cmd/ctl/main.go\<close>: where the daemon listens for the
  control plane, and how the client finds it. The directory entries are an explicit store; what can go wrong in
  a system call beyond their state (permissions, a context that is over, a name that is too long) is a parameter.
\<close>

subsection \<open>Directory entries\<close>

text \<open>An entry is a socket, with its permission bits and whether a process accepts on it, a symbolic link, or anything else.\<close>

datatype Node = Sock nat bool | Link string | OtherFile

type_synonym Fs = "string \<rightharpoonup> Node"

record Host =
  h_stat :: "string \<Rightarrow> Err option"
  h_dial :: "string \<Rightarrow> Err option"
  h_remove :: "string \<Rightarrow> Err option"
  h_listen :: "string \<Rightarrow> Err option"
  h_chmod :: "string \<Rightarrow> Err option"
  h_umode :: nat \<comment> \<open>the permissions of a new socket under the umask\<close>
  h_tcp :: "string \<Rightarrow> Err option"

definition unlessFault :: "Err option \<Rightarrow> Err + 'a \<Rightarrow> Err + 'a" where
  "unlessFault f r = (case f of Some e \<Rightarrow> Inl e | None \<Rightarrow> r)"

text \<open>Links are followed, at most forty of them; \<open>Remove\<close> removes the link itself.\<close>

primrec follow :: "nat \<Rightarrow> Fs \<Rightarrow> string \<Rightarrow> Err + string" where
  "follow 0 fs p = Inl (EText ''too many levels of symbolic links'')"
| "follow (Suc n) fs p = (case fs p of Some (Link q) \<Rightarrow> follow n fs q | _ \<Rightarrow> Inr p)"

definition os_Stat :: "Host \<Rightarrow> Fs \<Rightarrow> string \<Rightarrow> Err + Node" where
  "os_Stat h fs p = unlessFault (h_stat h p) (bindR (follow 41 fs p) (\<lambda>q.
     case fs q of None \<Rightarrow> Inl (ESentinel FsErrNotExist) | Some node \<Rightarrow> Inr node))"

definition dialUnix :: "Host \<Rightarrow> Fs \<Rightarrow> string \<Rightarrow> Err + string" where
  "dialUnix h fs p = unlessFault (h_dial h p) (bindR (follow 41 fs p) (\<lambda>q.
     case fs q of Some (Sock m True) \<Rightarrow> Inr q | _ \<Rightarrow> Inl (EText ''connection refused'')))"

definition os_Remove :: "Host \<Rightarrow> string \<Rightarrow> (Fs, unit) op" where
  "os_Remove h p fs = (case unlessFault (h_remove h p) (if fs p = None then Inl (ESentinel FsErrNotExist) else Inr ()) of
     Inl e \<Rightarrow> (Inl e, fs) | Inr u \<Rightarrow> (Inr u, fs(p := None)))"

definition listenUnix :: "Host \<Rightarrow> string \<Rightarrow> (Fs, unit) op" where
  "listenUnix h p fs = (case unlessFault (h_listen h p) (if fs p \<noteq> None then Inl (EText ''address already in use'') else Inr ()) of
     Inl e \<Rightarrow> (Inl e, fs) | Inr u \<Rightarrow> (Inr u, fs(p \<mapsto> Sock (h_umode h) True)))"

definition os_Chmod :: "Host \<Rightarrow> string \<Rightarrow> nat \<Rightarrow> (Fs, unit) op" where
  "os_Chmod h p m fs = (case h_chmod h p of
     Some e \<Rightarrow> (Inl e, fs)
   | None \<Rightarrow> (case fs p of Some (Sock _ live) \<Rightarrow> (Inr (), fs(p \<mapsto> Sock m live)) | _ \<Rightarrow> (Inl (ESentinel FsErrNotExist), fs)))"

text \<open>Closing a listener that has created its socket removes the entry.\<close>

definition closeUnix :: "string \<Rightarrow> Fs \<Rightarrow> Fs" where
  "closeUnix p fs = fs(p := None)"

subsection \<open>Listening\<close>

datatype NetListener = TcpListener string | UnixListener string

definition unixPrefix :: string where "unixPrefix = ''unix://''"

text \<open>The permissions \<open>0o600\<close>.\<close>

definition ownerOnly :: nat where "ownerOnly = 384"

text \<open>A socket that a process has left behind is removed; a file that is no socket, or a socket that answers, is not.\<close>

definition clearStale :: "Host \<Rightarrow> string \<Rightarrow> (Fs, unit) op" where
  "clearStale h path fs = (case os_Stat h fs path of
     Inr (Sock m live) \<Rightarrow>
       (case dialUnix h fs path of
          Inr conn \<Rightarrow> (Inl (EText (''socket '' @ path @ '' is in use by a live process'')), fs)
        | Inl err \<Rightarrow> wrapS (''remove stale socket '' @ path) (os_Remove h path) fs)
   | Inr node \<Rightarrow> (Inl (EText (''refusing to replace non-socket file '' @ path)), fs)
   | Inl err \<Rightarrow> if \<not> errors_Is err FsErrNotExist then (Inl (wrap (''stat socket path '' @ path) err), fs) else (Inr (), fs))"

definition restrictSocket :: "Host \<Rightarrow> string \<Rightarrow> (Fs, unit) op" where
  "restrictSocket h path fs = (case os_Chmod h path ownerOnly fs of
     (Inl err, fs') \<Rightarrow> (Inl (wrap (''restrict socket '' @ path) err), closeUnix path fs')
   | (Inr u, fs') \<Rightarrow> (Inr u, fs'))"

definition Listen :: "Host \<Rightarrow> string \<Rightarrow> (Fs, NetListener) op" where
  "Listen h addr = (case CutPrefix addr unixPrefix of
     None \<Rightarrow> (\<lambda>fs. (unlessFault (h_tcp h addr) (Inr (TcpListener addr)), fs))
   | Some path \<Rightarrow>
       if path = [] then failS (EText ''empty unix socket path'')
       else bindS (clearStale h path) (\<lambda>_. bindS (listenUnix h path) (\<lambda>_. bindS (restrictSocket h path) (\<lambda>_. returnS (UnixListener path)))))"

subsection \<open>The client\<close>

datatype HttpClient = DefaultClient | UnixClient string

definition NewHTTPClient :: "string \<Rightarrow> HttpClient \<times> string" where
  "NewHTTPClient addr = (case CutPrefix addr unixPrefix of
     None \<Rightarrow> (DefaultClient, ''http://'' @ (if HasPrefix addr '':'' then ''localhost'' @ addr else addr))
   | Some path \<Rightarrow> (UnixClient path, ''http://localhost''))"

text \<open>\<open>DialContext\<close> of the transport.\<close>

definition dialClient :: "Host \<Rightarrow> Fs \<Rightarrow> string \<Rightarrow> Err + string" where
  "dialClient h fs path = (if path = [] then Inl (EText ''empty unix socket path'') else dialUnix h fs path)"

datatype Command = RunSnapshot | RunEvents | RunWatch | RunOrder

datatype AddrErr = MissingCommand | FromConfig LoadErr | NoAddress string | UnknownCommand string

definition addrEnv :: string where "addrEnv = EnvPrefix @ ''API__ADDR''"

definition os_Getenv :: "(string \<times> string) list \<Rightarrow> string \<Rightarrow> string" where
  "os_Getenv env name = (case map_of env name of None \<Rightarrow> [] | Some v \<Rightarrow> v)"

definition resolveAddr :: "'k Koanf \<Rightarrow> (string \<times> string) list \<Rightarrow> string \<Rightarrow> string \<Rightarrow> AddrErr + string" where
  "resolveAddr ko env flag configPath =
    (let addr = (if flag = [] then os_Getenv env addrEnv else flag) in
     bindR (if addr = [] then mapErr FromConfig (APIAddr ko configPath) else Inr addr) (\<lambda>addr.
     if addr = [] then Inl (NoAddress configPath) else Inr addr))"

text \<open>
  \<open>run\<close>, from the flags it has parsed and the arguments after them: the client, and the command with its
  arguments.
\<close>

definition ctl_run :: "'k Koanf \<Rightarrow> (string \<times> string) list \<Rightarrow> string \<Rightarrow> string \<Rightarrow> string list
    \<Rightarrow> AddrErr + (HttpClient \<times> string) \<times> Command \<times> string list" where
  "ctl_run ko env flag configPath args = (case args of
     [] \<Rightarrow> Inl MissingCommand
   | cmd # rest \<Rightarrow> bindR (resolveAddr ko env flag configPath) (\<lambda>addr.
       let c = NewHTTPClient addr in
       if cmd = ''snapshot'' then Inr (c, RunSnapshot, rest)
       else if cmd = ''events'' then Inr (c, RunEvents, rest)
       else if cmd = ''watch'' then Inr (c, RunWatch, rest)
       else if cmd = ''order'' then Inr (c, RunOrder, rest)
       else Inl (UnknownCommand cmd)))"

subsection \<open>What listening changes\<close>

definition unanswered :: "Host \<Rightarrow> Fs \<Rightarrow> string \<Rightarrow> bool" where
  "unanswered h fs p \<longleftrightarrow> (\<exists>m live. os_Stat h fs p = Inr (Sock m live)) \<and> (\<exists>e. dialUnix h fs p = Inl e)"

lemma clearStale_cases:
  assumes "clearStale h p fs = (r, fs')"
  shows "fs' = fs \<or> fs' = fs(p := None) \<and> unanswered h fs p"
  using assms
  by (auto simp: clearStale_def unanswered_def os_Remove_def wrapS_def mapErrS_def split: sum.splits Node.splits if_splits)

lemma listenUnix_cases:
  assumes "listenUnix h p fs = (r, fs')"
  shows "fs' = fs \<and> (\<exists>e. r = Inl e) \<or> fs p = None \<and> fs' = fs(p \<mapsto> Sock (h_umode h) True) \<and> r = Inr ()"
  using assms by (auto simp: listenUnix_def unlessFault_def split: sum.splits option.splits if_splits)

lemma restrictSocket_cases:
  assumes "restrictSocket h p (fs(p \<mapsto> Sock m True)) = (r, fs')"
  shows "fs' = fs(p := None) \<and> (\<exists>e. r = Inl e) \<or> fs' = fs(p \<mapsto> Sock ownerOnly True) \<and> r = Inr ()"
  using assms by (auto simp: restrictSocket_def os_Chmod_def closeUnix_def split: sum.splits option.splits if_splits)

lemma Listen_unix:
  assumes "Listen h addr fs = (r, fs')" "CutPrefix addr unixPrefix = Some p"
  shows "(fs' = fs \<or> fs' = fs(p := None) \<and> unanswered h fs p) \<and> (\<exists>e. r = Inl e)
    \<or> fs' = fs(p := None) \<and> fs p = None \<and> (\<exists>e. r = Inl e)
    \<or> (fs p = None \<or> unanswered h fs p) \<and> fs' = fs(p \<mapsto> Sock ownerOnly True) \<and> r = Inr (UnixListener p) \<and> p \<noteq> []"
proof (cases "p = []")
  case True
  with assms show ?thesis by (simp add: Listen_def)
next
  case False
  with assms have run: "bindS (clearStale h p) (\<lambda>_. bindS (listenUnix h p) (\<lambda>_. bindS (restrictSocket h p) (\<lambda>_. returnS (UnixListener p)))) fs
      = (r, fs')" by (simp add: Listen_def)
  obtain r1 fs1 where c: "clearStale h p fs = (r1, fs1)" by (cases "clearStale h p fs")
  obtain r2 fs2 where l: "listenUnix h p fs1 = (r2, fs2)" by (cases "listenUnix h p fs1")
  obtain r3 fs3 where s: "restrictSocket h p fs2 = (r3, fs3)" by (cases "restrictSocket h p fs2")
  show ?thesis
    using run c l s clearStale_cases [OF c] listenUnix_cases [OF l] restrictSocket_cases [of h p fs1 "h_umode h" r3 fs3] False
    by (auto simp: bindS_def returnS_def split: sum.splits)
qed

lemma cut_unix: "CutPrefix addr unixPrefix = Some p \<longleftrightarrow> addr = ''unix://'' @ p"
proof
  assume "CutPrefix addr unixPrefix = Some p"
  then have "take (length unixPrefix) addr = unixPrefix" "drop (length unixPrefix) addr = p"
    by (auto simp: CutPrefix_def HasPrefix_def split: if_splits)
  then have "addr = unixPrefix @ p" by (metis append_take_drop_id)
  then show "addr = ''unix://'' @ p" by (simp only: unixPrefix_def)
qed (simp add: CutPrefix_def HasPrefix_def unixPrefix_def)

lemma follow_node: "fs p = Some node \<Longrightarrow> (\<And>q. node \<noteq> Link q) \<Longrightarrow> follow (Suc n) fs p = Inr p"
  by (cases node) auto

lemma unanswered_entry:
  assumes "unanswered h fs p"
  shows "fs p \<noteq> Some OtherFile" and "fs p = Some (Sock m True) \<Longrightarrow> h_dial h p \<noteq> None"
proof -
  show "fs p \<noteq> Some OtherFile"
  proof
    assume f: "fs p = Some OtherFile"
    have "follow 41 fs p = Inr p" using follow_node [where n = 40, of fs p, OF f] by simp
    with assms f show False by (auto simp: unanswered_def os_Stat_def unlessFault_def split: option.splits)
  qed
  assume f: "fs p = Some (Sock m True)"
  have "follow 41 fs p = Inr p" using follow_node [where n = 40, of fs p, OF f] by simp
  with assms f show "h_dial h p \<noteq> None" by (auto simp: unanswered_def dialUnix_def unlessFault_def split: option.splits)
qed

text \<open>
  C23: opening the control socket never takes anything away. Whatever fails on the way, \<open>Listen\<close> changes no
  directory entry but the one it was given, and that one only where there was nothing or a socket on which a
  connection attempt failed: a file of another kind and a socket that answers stay, and the call then fails. A
  listener that it returns is on a socket that only the owner can use, and when it fails no entry of its own
  stays behind.
\<close>

theorem Listen_safe:
  assumes "Listen h addr fs = (r, fs')"
  shows "(\<forall>q. fs' q \<noteq> fs q \<longrightarrow> addr = ''unix://'' @ q \<and> (fs q = None \<or> unanswered h fs q))
    \<and> (fs q = Some (Sock m True) \<and> h_dial h q = None \<longrightarrow> fs' q = fs q)
    \<and> (fs q = Some OtherFile \<longrightarrow> fs' q = fs q)
    \<and> (case r of Inl e \<Rightarrow> (\<forall>q. fs' q = fs q \<or> fs' q = None)
       | Inr (UnixListener p) \<Rightarrow> addr = ''unix://'' @ p \<and> fs' p = Some (Sock 384 True) \<and> fs p \<noteq> Some OtherFile
       | Inr (TcpListener a) \<Rightarrow> a = addr \<and> fs' = fs)"
proof (cases "CutPrefix addr unixPrefix")
  case None
  with assms show ?thesis by (auto simp: Listen_def unlessFault_def split: option.splits)
next
  case (Some p)
  then have addr: "addr = ''unix://'' @ p" by (simp only: cut_unix)
  from Listen_unix [OF assms Some] show ?thesis
  proof (elim disjE conjE exE)
    fix e assume "fs' = fs(p := None)" and u: "unanswered h fs p" and "r = Inl e"
    with unanswered_entry [OF u] show ?thesis by (cases "q = p") (auto simp: addr)
  next
    assume u: "unanswered h fs p" and new: "fs' = fs(p \<mapsto> Sock ownerOnly True)" "r = Inr (UnixListener p)"
    with unanswered_entry [OF u] show ?thesis by (cases "q = p") (auto simp: addr ownerOnly_def)
  qed (auto simp: addr ownerOnly_def)
qed

definition demo_host :: Host where
  "demo_host = \<lparr>h_stat = (\<lambda>_. None), h_dial = (\<lambda>_. None), h_remove = (\<lambda>_. None), h_listen = (\<lambda>_. None), h_chmod = (\<lambda>_. None),
     h_umode = 493, h_tcp = (\<lambda>_. None)\<rparr>"

text \<open>A socket left behind is replaced, one that is in use is not.\<close>

definition demo_fs :: Fs where
  "demo_fs = [''/run/d.sock'' \<mapsto> Sock 384 False, ''/run/live'' \<mapsto> Sock 384 True]"

lemmas listen_defs = Listen_def CutPrefix_def HasPrefix_def unixPrefix_def bindS_def returnS_def clearStale_def os_Stat_def dialUnix_def
  unlessFault_def os_Remove_def wrapS_def mapErrS_def listenUnix_def restrictSocket_def os_Chmod_def ownerOnly_def eval_nat_numeral

lemma demo_listen: "Listen demo_host ''unix:///run/d.sock'' demo_fs = (Inr (UnixListener ''/run/d.sock''), demo_fs(''/run/d.sock'' \<mapsto> Sock 384 True))"
  by (simp add: listen_defs demo_host_def demo_fs_def)

lemma Listen_safe_witness:
  "\<exists>r fs'. Listen demo_host ''unix:///run/d.sock'' demo_fs = (r, fs') \<and> r = Inr (UnixListener ''/run/d.sock'')
     \<and> fs' ''/run/live'' = Some (Sock 384 True) \<and> fs' ''/run/d.sock'' = Some (Sock 384 True)"
proof -
  have live: "demo_fs ''/run/live'' = Some (Sock 384 True)" "h_dial demo_host ''/run/live'' = None"
    by (simp_all add: demo_fs_def demo_host_def)
  from Listen_safe [OF demo_listen, of "''/run/live''" 384] live
  show ?thesis unfolding demo_listen by (intro exI conjI) (rule refl, auto)
qed

subsection \<open>The client finds the daemon\<close>

text \<open>
  What koanf documents, as far as the control address is concerned: the path \<open>api.addr\<close> has no value in an empty
  store, nor after the defaults, which do not have it; a file gives it the same value over any store that had
  none, and is read and parsed independently of the store; a single variable of the environment that sets it
  gives its value, and variables of other paths leave it alone; \<open>Unmarshal\<close> fills the field with its value.
\<close>

definition related :: "string \<Rightarrow> string \<Rightarrow> bool" where
  "related a b \<longleftrightarrow> HasPrefix (a @ ''.'') (b @ ''.'') \<or> HasPrefix (b @ ''.'') (a @ ''.'')"

definition touching :: "(string \<times> string) list \<Rightarrow> string \<Rightarrow> (string \<Rightarrow> string \<Rightarrow> string \<times> ConfValue) \<Rightarrow> (string \<times> string) list" where
  "touching env pre f = filter (\<lambda>(n, v). HasPrefix n pre \<and> related (fst (f n v)) ''api.addr'') env"

definition koanf_law :: "'k Koanf \<Rightarrow> (string \<times> string) list \<Rightarrow> bool" where
  "koanf_law ko env \<longleftrightarrow>
     (let addr = ko_String ko ''api.addr'' in
      addr (ko_New ko) = []
      \<and> (\<forall>k. ko_LoadMap ko defaults (ko_New ko) = Inr k \<longrightarrow> addr k = [])
      \<and> (\<forall>path k k'. addr k = [] \<longrightarrow> ko_LoadFile ko path k = Inr k' \<longrightarrow>
           (\<exists>k0. ko_LoadFile ko path (ko_New ko) = Inr k0 \<and> addr k' = addr k0))
      \<and> (\<forall>path k e. ko_LoadFile ko path k = Inl e \<longrightarrow> ko_LoadFile ko path (ko_New ko) = Inl e)
      \<and> (\<forall>pre f k k'. ko_LoadEnv ko pre f k = Inr k' \<longrightarrow>
           (touching env pre f = [] \<longrightarrow> addr k' = addr k)
         \<and> (\<forall>n v s. touching env pre f = [(n, v)] \<longrightarrow> f n v = (''api.addr'', CString s) \<longrightarrow> addr k' = s))
      \<and> (\<forall>k cfg. ko_Unmarshal ko k = Inr cfg \<longrightarrow> c_API_Addr cfg = addr k))"


definition only_variable :: "(string \<times> string) list \<Rightarrow> bool" where
  "only_variable env \<longleftrightarrow> distinct (map fst env)
     \<and> (\<forall>(n, v)\<in>set env. HasPrefix n EnvPrefix \<and> related (fst (envTransform n v)) ''api.addr'' \<longrightarrow> n = addrEnv)"

lemma envTransform_addr: "envTransform addrEnv v = (''api.addr'', CString v)"
proof -
  have "replaceDouble (ToLower (TrimPrefix addrEnv EnvPrefix)) = ''api.addr''" "\<not> HasSuffix ''api.addr'' ''.accounts''"
    by code_simp+
  then show ?thesis by (simp add: envTransform_def)
qed

lemma filter_key:
  assumes "distinct (map fst env)"
  shows "filter (\<lambda>(n, v). n = a) env = (case map_of env a of None \<Rightarrow> [] | Some v \<Rightarrow> [(a, v)])"
  using assms
proof (induction env)
  case (Cons nv env)
  show ?case
  proof (cases "fst nv = a")
    case True
    with Cons.prems have "map_of env a = None" by (simp add: map_of_eq_None_iff)
    with Cons True show ?thesis by (cases nv) simp
  next
    case False
    with Cons show ?thesis by (cases nv) simp
  qed
qed simp

lemma touching_only:
  assumes "only_variable env"
  shows "touching env EnvPrefix envTransform = (case map_of env addrEnv of None \<Rightarrow> [] | Some v \<Rightarrow> [(addrEnv, v)])"
proof -
  have "HasPrefix addrEnv EnvPrefix" "related ''api.addr'' ''api.addr''"
    by (simp_all add: HasPrefix_def addrEnv_def related_def)
  then have "touching env EnvPrefix envTransform = filter (\<lambda>(n, v). n = addrEnv) env"
    unfolding touching_def using assms by (intro filter_cong) (auto simp: only_variable_def envTransform_addr)
  then show ?thesis using filter_key [of env addrEnv] assms by (simp only: only_variable_def)
qed

lemma APIAddr_file:
  assumes "koanf_law ko env" "ko_String ko ''api.addr'' k1 = []"
    "(case ko_LoadFile ko path k1 of
        Inl err \<Rightarrow> if explicit \<or> \<not> errors_Is err FsErrNotExist then Inl (LoadFile path err) else Inr k1
      | Inr k2 \<Rightarrow> Inr k2) = Inr k2"
  shows "APIAddr ko path = Inr (ko_String ko ''api.addr'' k2)"
proof (cases "ko_LoadFile ko path k1")
  case (Inl err)
  with assms(1) have "ko_LoadFile ko path (ko_New ko) = Inl err" unfolding koanf_law_def Let_def by blast
  with Inl assms(2,3) show ?thesis by (simp add: APIAddr_def split: if_splits)
next
  case (Inr k)
  with assms(1,2) obtain k0 where "ko_LoadFile ko path (ko_New ko) = Inr k0" "ko_String ko ''api.addr'' k = ko_String ko ''api.addr'' k0"
    unfolding koanf_law_def Let_def by blast
  with Inr assms(3) show ?thesis by (simp add: APIAddr_def)
qed

lemma resolveAddr_loaded:
  assumes "koanf_law ko env" "only_variable env" "Load ko os path explicit = Inr cfg" "c_API_Addr cfg \<noteq> []"
  shows "resolveAddr ko env [] path = Inr (c_API_Addr cfg)"
proof -
  let ?addr = "ko_String ko ''api.addr''"
  from assms(3) obtain k1 k2 k3 cfg0 where load: "ko_LoadMap ko defaults (ko_New ko) = Inr k1"
    "(case ko_LoadFile ko path k1 of
        Inl err \<Rightarrow> if explicit \<or> \<not> errors_Is err FsErrNotExist then Inl (LoadFile path err) else Inr k1
      | Inr k2 \<Rightarrow> Inr k2) = Inr k2"
    "ko_LoadEnv ko EnvPrefix envTransform k2 = Inr k3" "ko_Unmarshal ko k3 = Inr cfg0" "c_API_Addr cfg = c_API_Addr cfg0"
    unfolding Load_def Let_def bindR_Inr_iff mapErr_Inr_iff by (auto split: if_splits)
  from assms(1) load(1,4,5) have k1: "?addr k1 = []" and k3: "c_API_Addr cfg = ?addr k3" unfolding koanf_law_def Let_def by auto
  note from_file = APIAddr_file [OF assms(1) k1 load(2)]
  from assms(1) load(3) have env: "touching env EnvPrefix envTransform = [] \<Longrightarrow> ?addr k3 = ?addr k2"
    "\<And>n v s. touching env EnvPrefix envTransform = [(n, v)] \<Longrightarrow> envTransform n v = (''api.addr'', CString s) \<Longrightarrow> ?addr k3 = s"
    unfolding koanf_law_def Let_def by blast+
  show ?thesis
  proof (cases "map_of env addrEnv")
    case None
    with env(1) touching_only [OF assms(2)] k3 from_file assms(4) show ?thesis by (simp add: resolveAddr_def os_Getenv_def mapErr_def)
  next
    case (Some v)
    with env(2) [OF _ envTransform_addr] touching_only [OF assms(2)] k3 assms(4) show ?thesis by (simp add: resolveAddr_def os_Getenv_def)
  qed
qed


text \<open>A store that holds the address only, loaded from a file that sets it.\<close>

definition addr_koanf :: "string Koanf" where
  "addr_koanf = \<lparr>ko_New = [], ko_LoadMap = (\<lambda>_ k. Inr k), ko_LoadFile = (\<lambda>_ _. Inr ''unix:///run/d.sock''),
     ko_LoadEnv = (\<lambda>_ _ k. Inr k), ko_Unmarshal = (\<lambda>k. Inr (demo_cfg\<lparr>c_API_Addr := k\<rparr>)), ko_String = (\<lambda>_ k. k)\<rparr>"

lemma addr_koanf_law: "koanf_law addr_koanf []"
  by (simp add: koanf_law_def addr_koanf_def touching_def)

lemma addr_load: "\<exists>cfg. Load addr_koanf demo_os ''config.yaml'' False = Inr cfg \<and> c_API_Addr cfg = ''unix:///run/d.sock''"
  by (simp add: Load_def addr_koanf_def demo_os_def demo_cfg_def Let_def mapErr_def resolveVenue_def resolveSecret_def CutPrefix_def
      HasPrefix_def path_Join_def path_Clean_def cleanStep_def TrimSpace_def is_space_def Validate_def complain_def validLevels_def
      venue_validate_def duration_defs)


end
