(* ===== verification/Ctl_Main.thy ===== *)
theory Ctl_Main
  imports Ctl_Orders Ctl_Watch Control_Addr
begin

section \<open>The commands of the client\<close>

text \<open>
  The rest of \<open>cmd/ctl\<close>: the flags of the commands as Go's package \<open>flag\<close> parses them, the dispatch of
  \<open>runOrder\<close> in \<open>order.go\<close>, \<open>runSnapshot\<close> in \<open>snapshot.go\<close>, \<open>runEvents\<close> in \<open>events.go\<close> and \<open>runWatch\<close> in
  \<open>watch.go\<close>. What a command prints is a list of lines. The calls of the control API, the JSON encoding, the
  parsing of integers, the local time and the terminal program are parameters.
\<close>

subsection \<open>Flags\<close>

text \<open>The name and the value of an argument \<open>-name=value\<close>; the first character is not looked at.\<close>

fun cutEquals :: "string \<Rightarrow> string \<times> string option" where
  "cutEquals [] = ([], None)"
| "cutEquals (c # cs) = (if c = CHR ''='' then ([], Some cs) else (case cutEquals cs of (n, v) \<Rightarrow> (c # n, v)))"

definition splitFlag :: "string \<Rightarrow> string \<times> string option" where
  "splitFlag name = (case name of [] \<Rightarrow> ([], None) | c # cs \<Rightarrow> (case cutEquals cs of (n, v) \<Rightarrow> (c # n, v)))"

text \<open>
  \<open>FlagSet.Parse\<close>, with \<open>formal name\<close> for \<open>Value.Set\<close> of a flag that is defined. All flags of the client take a
  value. The result is the values and the arguments after the flags.
\<close>

fun flagParse :: "(string \<Rightarrow> (string \<Rightarrow> 's \<Rightarrow> Err + 's) option) \<Rightarrow> string list \<Rightarrow> 's \<Rightarrow> Err + 's \<times> string list" where
  "flagParse formal [] st = Inr (st, [])"
| "flagParse formal (a # rest) st =
    (if length a < 2 \<or> hd a \<noteq> CHR ''-'' then Inr (st, a # rest)
     else if a = ''--'' then Inr (st, rest)
     else let name = drop (if a ! 1 = CHR ''-'' then 2 else 1) a in
       if name = [] \<or> hd name = CHR ''-'' \<or> hd name = CHR ''='' then Inl (EText (''bad flag syntax: '' @ a))
       else (case splitFlag name of (n, inline) \<Rightarrow>
         (case formal n of
            None \<Rightarrow> Inl (EText (if n = ''help'' \<or> n = ''h'' then ''flag: help requested'' else ''flag provided but not defined: -'' @ n))
          | Some assign \<Rightarrow>
             (case inline of
                Some v \<Rightarrow> (case assign v st of
                    Inl err \<Rightarrow> Inl (Errorf [Lit (''invalid value '' @ fmt_q v @ '' for flag -'' @ n @ '': ''), Cause err])
                  | Inr st' \<Rightarrow> flagParse formal rest st')
              | None \<Rightarrow> (case rest of
                    [] \<Rightarrow> Inl (EText (''flag needs an argument: -'' @ n))
                  | v # rest' \<Rightarrow> (case assign v st of
                      Inl err \<Rightarrow> Inl (Errorf [Lit (''invalid value '' @ fmt_q v @ '' for flag -'' @ n @ '': ''), Cause err])
                    | Inr st' \<Rightarrow> flagParse formal rest' st'))))))"

text \<open>Flags given as two arguments each set their values in order, so a later one replaces an earlier one.\<close>

definition plainFlag :: "string \<Rightarrow> bool" where
  "plainFlag n \<longleftrightarrow> n \<noteq> [] \<and> hd n \<noteq> CHR ''-'' \<and> CHR ''='' \<notin> set n"

lemma cutEquals_plain: "CHR ''='' \<notin> set s \<Longrightarrow> cutEquals s = (s, None)"
  by (induction s) auto

lemma splitFlag_plain: "plainFlag n \<Longrightarrow> splitFlag n = (n, None)"
  by (cases n) (auto simp: plainFlag_def splitFlag_def cutEquals_plain)

lemma flagParse_step:
  assumes "plainFlag n" "formal n = Some assign" "assign v st = Inr st'"
  shows "flagParse formal ((CHR ''-'' # n) # v # rest) st = flagParse formal rest st'"
proof -
  from assms(1) obtain c cs where n: "n = c # cs" "c \<noteq> CHR ''-''" "c \<noteq> CHR ''=''" by (cases n) (auto simp: plainFlag_def)
  with assms splitFlag_plain [OF assms(1)] show ?thesis by simp
qed

lemma flagParse_pairs:
  assumes "list_all (\<lambda>(n, v). plainFlag n) nvs"
    and "foldR (\<lambda>(n, v) st. case formal n of None \<Rightarrow> Inl (EText []) | Some assign \<Rightarrow> assign v st) nvs st = Inr st'"
  shows "flagParse formal (concat (map (\<lambda>(n, v). [CHR ''-'' # n, v]) nvs)) st = Inr (st', [])"
  using assms
proof (induction nvs arbitrary: st)
  case (Cons nv nvs)
  obtain n v where nv: "nv = (n, v)" by (cases nv)
  with Cons.prems(2) obtain assign st1 where "formal n = Some assign" "assign v st = Inr st1"
    "foldR (\<lambda>(n, v) st. case formal n of None \<Rightarrow> Inl (EText []) | Some assign \<Rightarrow> assign v st) nvs st1 = Inr st'"
    by (auto split: option.splits)
  with Cons nv flagParse_step [of n formal assign v st st1] show ?case by simp
qed simp

subsection \<open>Order commands\<close>

text \<open>The flags of \<open>order place\<close> and \<open>order list\<close>; \<open>-status\<close> may be repeated. Reading an integer is \<open>parseInt\<close>.\<close>

definition stringFlag :: "(string \<Rightarrow> 's \<Rightarrow> 's) \<Rightarrow> (string \<Rightarrow> 's \<Rightarrow> Err + 's) option" where
  "stringFlag f = Some (\<lambda>v st. Inr (f v st))"

definition placeFlag :: "string \<Rightarrow> (string \<Rightarrow> PlaceFlags \<Rightarrow> Err + PlaceFlags) option" where
  "placeFlag n =
    (if n = ''venue'' then stringFlag (\<lambda>v f. f\<lparr>pf_venue := v\<rparr>)
     else if n = ''base'' then stringFlag (\<lambda>v f. f\<lparr>pf_base := v\<rparr>)
     else if n = ''quote'' then stringFlag (\<lambda>v f. f\<lparr>pf_quote := v\<rparr>)
     else if n = ''side'' then stringFlag (\<lambda>v f. f\<lparr>pf_side := v\<rparr>)
     else if n = ''type'' then stringFlag (\<lambda>v f. f\<lparr>pf_type := v\<rparr>)
     else if n = ''qty'' then stringFlag (\<lambda>v f. f\<lparr>pf_qty := v\<rparr>)
     else if n = ''price'' then stringFlag (\<lambda>v f. f\<lparr>pf_price := v\<rparr>)
     else if n = ''client-order-id'' then stringFlag (\<lambda>v f. f\<lparr>pf_clientID := v\<rparr>)
     else None)"

definition noPlaceFlags :: PlaceFlags where
  "noPlaceFlags = \<lparr>pf_venue = [], pf_base = [], pf_quote = [], pf_side = [], pf_type = [], pf_qty = [], pf_price = [], pf_clientID = []\<rparr>"

definition listFlag :: "(string \<Rightarrow> Err + int) \<Rightarrow> string \<Rightarrow> (string \<Rightarrow> ListFlags \<Rightarrow> Err + ListFlags) option" where
  "listFlag parseInt n =
    (if n = ''venue'' then stringFlag (\<lambda>v f. f\<lparr>lf_venue := v\<rparr>)
     else if n = ''bot'' then stringFlag (\<lambda>v f. f\<lparr>lf_bot := v\<rparr>)
     else if n = ''limit'' then Some (\<lambda>v f. bindR (parseInt v) (\<lambda>i. Inr (f\<lparr>lf_limit := i\<rparr>)))
     else if n = ''status'' then stringFlag (\<lambda>v f. f\<lparr>lf_statuses := lf_statuses f @ [v]\<rparr>)
     else None)"

definition noListFlags :: ListFlags where
  "noListFlags = \<lparr>lf_venue = [], lf_bot = [], lf_limit = 50, lf_statuses = []\<rparr>"

text \<open>The calls of the control API, over the state \<open>'w\<close> of the daemon; a stream gives the events received and how it ended.\<close>

record 'w Clients =
  cl_PlaceOrder :: "PlaceOrderRequest \<Rightarrow> 'w \<Rightarrow> (RpcErr + PlaceOrderResponse) \<times> 'w"
  cl_CancelOrder :: "string \<Rightarrow> 'w \<Rightarrow> (RpcErr + proto_enum) \<times> 'w"
  cl_ListOrders :: "ListOrdersRequest \<Rightarrow> 'w \<Rightarrow> (RpcErr + ListOrdersResponse) \<times> 'w"
  cl_GetLastSnapshot :: "string \<Rightarrow> string \<Rightarrow> 'w \<Rightarrow> (RpcErr + ProtoCheckpoint) \<times> 'w"
  cl_StreamEvents :: "string \<Rightarrow> 'w \<Rightarrow> (Err + ProtoEvent list \<times> Err option) \<times> 'w"

type_synonym 'w command = "'w \<Rightarrow> (string list \<times> CtlErr option) \<times> 'w"

definition failsWith :: "Err \<Rightarrow> 'w command" where
  "failsWith e w = (([], Some (CtlErr e)), w)"

definition orderPlace :: "'w Clients \<Rightarrow> string list \<Rightarrow> 'w command" where
  "orderPlace c args = (case flagParse placeFlag args noPlaceFlags of
     Inl err \<Rightarrow> failsWith err | Inr (f, rest) \<Rightarrow> runOrderPlace (cl_PlaceOrder c) f)"

definition orderList :: "(string \<Rightarrow> Err + int) \<Rightarrow> 'w Clients \<Rightarrow> string list \<Rightarrow> 'w command" where
  "orderList parseInt c args = (case flagParse (listFlag parseInt) args noListFlags of
     Inl err \<Rightarrow> failsWith err | Inr (f, rest) \<Rightarrow> runOrderList (cl_ListOrders c) f)"

definition runOrder :: "string \<Rightarrow> (string \<Rightarrow> Err + int) \<Rightarrow> 'w Clients \<Rightarrow> string list \<Rightarrow> 'w command" where
  "runOrder prog parseInt c args = (case args of
     [] \<Rightarrow> failsWith (EText (''usage: '' @ prog @ '' order <place|cancel|list>''))
   | cmd # rest \<Rightarrow>
      if cmd = ''place'' then orderPlace c rest
      else if cmd = ''cancel'' then runOrderCancel prog (cl_CancelOrder c) rest
      else if cmd = ''list'' then orderList parseInt c rest
      else failsWith (EText (''unknown order command '' @ fmt_q cmd)))"

subsection \<open>Snapshots and events\<close>

definition statusText :: "proto_enum \<Rightarrow> string" where
  "statusText s = (if s = CHECKPOINT_STATUS_OK then ''ok'' else if s = CHECKPOINT_STATUS_FAILED then ''failed'' else ''unknown'')"

definition snapshotLine :: "(Time \<Rightarrow> string) \<Rightarrow> ProtoCheckpoint \<Rightarrow> string" where
  "snapshotLine local cp = xc_Venue cp @ ''/'' @ xc_Account cp @ ''  '' @ local (xc_TakenAt cp) @ ''  balances='' @ fmt_d (xc_BalanceCount cp)
     @ ''  status='' @ statusText (xc_Status cp) @ (if xc_Error cp \<noteq> [] then ''  error='' @ fmt_q (xc_Error cp) else [])"

definition runSnapshot :: "string \<Rightarrow> (Time \<Rightarrow> string) \<Rightarrow> 'w Clients \<Rightarrow> string list \<Rightarrow> 'w command" where
  "runSnapshot prog local c args w = (case args of
     [venue, account] \<Rightarrow>
       (case cl_GetLastSnapshot c venue account w of
          (Inl err, w') \<Rightarrow> (([], Some (CallErr err)), w')
        | (Inr cp, w') \<Rightarrow> (([snapshotLine local cp], None), w'))
   | _ \<Rightarrow> failsWith (EText (''usage: '' @ prog @ '' snapshot <venue> <account>'')) w)"

fun printEvents :: "(ProtoEvent \<Rightarrow> Err + string) \<Rightarrow> ProtoEvent list \<Rightarrow> Err option \<Rightarrow> string list \<times> CtlErr option" where
  "printEvents marshal [] end_err = ([], map_option CtlErr end_err)"
| "printEvents marshal (e # es) end_err = (case marshal e of
     Inl err \<Rightarrow> ([], Some (CtlErr err))
   | Inr line \<Rightarrow> (case printEvents marshal es end_err of (rest, err) \<Rightarrow> (line # rest, err)))"

text \<open>From the prefix that the flags give.\<close>

definition runEvents :: "(ProtoEvent \<Rightarrow> Err + string) \<Rightarrow> 'w Clients \<Rightarrow> string \<Rightarrow> 'w command" where
  "runEvents marshal c pre w = (case cl_StreamEvents c pre w of
     (Inl err, w') \<Rightarrow> (([], Some (CtlErr err)), w')
   | (Inr (events, end_err), w') \<Rightarrow> (printEvents marshal events end_err, w'))"

text \<open>
  What the goroutine of \<open>runWatch\<close> sends to the terminal program, and what \<open>runWatch\<close> returns when the program
  has ended with an error or a final model. \<open>canceled\<close> is whether the context was over when the stream ended.
\<close>

definition watchFeed :: "Err + ProtoEvent list \<times> Err option \<Rightarrow> bool \<Rightarrow> Msg list" where
  "watchFeed stream canceled = (case stream of
     Inl err \<Rightarrow> [StreamErrMsg err]
   | Inr (events, end_err) \<Rightarrow> map EventMsg events
       @ (case end_err of Some err \<Rightarrow> if canceled then [] else [StreamErrMsg err] | None \<Rightarrow> []))"

definition runWatch :: "(watchModel \<Rightarrow> Err + watchModel) \<Rightarrow> Err option" where
  "runWatch program = (case program newWatchModel of Inl err \<Rightarrow> Some err | Inr m \<Rightarrow> wm_err m)"

subsection \<open>What the commands do\<close>

text \<open>The order that is requested is the one the flags describe.\<close>

lemma orderPlace_flags:
  "orderPlace c [''-venue'', v, ''-base'', b, ''-quote'', q, ''-side'', s, ''-type'', t, ''-qty'', n, ''-price'', p, ''-client-order-id'', i]
     = runOrderPlace (cl_PlaceOrder c) \<lparr>pf_venue = v, pf_base = b, pf_quote = q, pf_side = s, pf_type = t, pf_qty = n, pf_price = p, pf_clientID = i\<rparr>"
proof -
  let ?nvs = "[(''venue'', v), (''base'', b), (''quote'', q), (''side'', s), (''type'', t), (''qty'', n), (''price'', p), (''client-order-id'', i)]"
  have "list_all (\<lambda>(n, v). plainFlag n) ?nvs" by (simp add: plainFlag_def)
  moreover have "foldR (\<lambda>(n, v) st. case placeFlag n of None \<Rightarrow> Inl (EText []) | Some assign \<Rightarrow> assign v st) ?nvs noPlaceFlags
      = Inr \<lparr>pf_venue = v, pf_base = b, pf_quote = q, pf_side = s, pf_type = t, pf_qty = n, pf_price = p, pf_clientID = i\<rparr>"
    by (simp add: placeFlag_def stringFlag_def noPlaceFlags_def)
  ultimately have "flagParse placeFlag (concat (map (\<lambda>(n, v). [CHR ''-'' # n, v]) ?nvs)) noPlaceFlags
      = Inr (\<lparr>pf_venue = v, pf_base = b, pf_quote = q, pf_side = s, pf_type = t, pf_qty = n, pf_price = p, pf_clientID = i\<rparr>, [])"
    by (rule flagParse_pairs)
  then show ?thesis by (simp add: orderPlace_def del: flagParse.simps)
qed

text \<open>A repeated status adds to the filter.\<close>

lemma orderList_statuses:
  "orderList parseInt c (concat (map (\<lambda>s. [''-status'', s]) ss)) = runOrderList (cl_ListOrders c) (noListFlags\<lparr>lf_statuses := ss\<rparr>)"
proof -
  have "foldR (\<lambda>(n, v) st. case listFlag parseInt n of None \<Rightarrow> Inl (EText []) | Some assign \<Rightarrow> assign v st) (map (\<lambda>s. (''status'', s)) ss) f
      = Inr (f\<lparr>lf_statuses := lf_statuses f @ ss\<rparr>)" for f
    by (induction ss arbitrary: f) (simp_all add: listFlag_def stringFlag_def)
  from this [of noListFlags] have "flagParse (listFlag parseInt) (concat (map (\<lambda>(n, v). [CHR ''-'' # n, v]) (map (\<lambda>s. (''status'', s)) ss))) noListFlags
      = Inr (noListFlags\<lparr>lf_statuses := ss\<rparr>, [])"
    by (intro flagParse_pairs) (auto simp: list_all_iff plainFlag_def noListFlags_def)
  then show ?thesis by (simp add: orderList_def comp_def del: flagParse.simps)
qed

text \<open>Every event that was received before an encoding error is printed, in order, and how the stream ended is returned.\<close>

lemma printEvents_all: "(\<And>e. e \<in> set es \<Longrightarrow> marshal e = Inr (enc e)) \<Longrightarrow> printEvents marshal es end_err = (map enc es, map_option CtlErr end_err)"
  by (induction es) auto

text \<open>The status of a checkpoint is printed as it is stored.\<close>

lemma statusText_stored: "s \<in> {StatusOK, StatusFailed} \<Longrightarrow> statusText (checkpointStatus s) = s"
  by (auto simp: statusText_def checkpointStatus_def CHECKPOINT_STATUS_OK_def CHECKPOINT_STATUS_FAILED_def StatusOK_def StatusFailed_def)

lemma runSnapshot_prints:
  assumes "cl_GetLastSnapshot c = GetLastSnapshot LastSnapshot" "fst (GetLastSnapshot LastSnapshot venue account db) = Inr (toProtoCheckpoint cp)"
    and "cp_Status cp = StatusFailed"
  shows "\<exists>line. fst (runSnapshot prog local c [venue, account] db) = ([line], None)
    \<and> line = a_Venue (cp_Account cp) @ ''/'' @ a_Type (cp_Account cp) @ ''  '' @ local (cp_TakenAt cp) @ ''  balances=''
        @ fmt_d (wrap32 (cp_BalanceCount cp)) @ ''  status=failed'' @ (if cp_Error cp \<noteq> [] then ''  error='' @ fmt_q (cp_Error cp) else [])"
proof -
  have "statusText (checkpointStatus (cp_Status cp)) = ''failed''" using statusText_stored [of StatusFailed] assms(3) by (simp add: StatusFailed_def)
  with assms(1,2) show ?thesis
    by (cases "GetLastSnapshot LastSnapshot venue account db") (simp add: runSnapshot_def snapshotLine_def toProtoCheckpoint_def)
qed

text \<open>
  The terminal program applies \<open>Update\<close> to the messages it gets until one quits. What \<open>runWatch\<close> returns is then
  an error of the stream that was sent to it, or none when the user has quit.
\<close>

fun process :: "Msg list \<Rightarrow> watchModel \<Rightarrow> watchModel" where
  "process [] m = m"
| "process (msg # msgs) m = (case Update msg m of (m', quit) \<Rightarrow> if quit then m' else process msgs m')"

lemma process_err: "wm_err (process msgs m) = Some err \<Longrightarrow> wm_err m = Some err \<or> StreamErrMsg err \<in> set msgs"
proof (induction msgs arbitrary: m)
  case (Cons msg msgs)
  obtain m' quit where u: "Update msg m = (m', quit)" by (cases "Update msg m")
  then have "wm_err m' = wm_err m \<or> (\<exists>e. msg = StreamErrMsg e \<and> wm_err m' = Some e)"
    by (cases msg) (auto simp: Update_def Let_def split: option.splits)
  moreover have "wm_err m' = Some err \<or> StreamErrMsg err \<in> set msgs" using Cons u by (cases quit) auto
  ultimately show ?case by auto
qed simp

lemma runWatch_err:
  assumes "program newWatchModel = Inr (process msgs newWatchModel)" "runWatch program = Some err"
    and "\<And>e. StreamErrMsg e \<in> set msgs \<Longrightarrow> StreamErrMsg e \<in> set (watchFeed stream canceled)"
  shows "stream = Inl err \<or> (\<exists>events. stream = Inr (events, Some err) \<and> \<not> canceled)"
proof -
  from assms(1,2) process_err [of msgs newWatchModel err] have "StreamErrMsg err \<in> set msgs" by (auto simp: runWatch_def newWatchModel_def)
  then have "StreamErrMsg err \<in> set (watchFeed stream canceled)" by (rule assms(3))
  then show ?thesis by (auto simp: watchFeed_def split: sum.splits option.splits if_splits)
qed

subsection \<open>The program\<close>

record CtlFlags =
  cf_addr :: string
  cf_config :: string

definition ctlFlag :: "string \<Rightarrow> (string \<Rightarrow> CtlFlags \<Rightarrow> Err + CtlFlags) option" where
  "ctlFlag n = (if n = ''addr'' then stringFlag (\<lambda>v f. f\<lparr>cf_addr := v\<rparr>)
     else if n = ''config'' then stringFlag (\<lambda>v f. f\<lparr>cf_config := v\<rparr>) else None)"

definition noCtlFlags :: CtlFlags where "noCtlFlags = \<lparr>cf_addr = [], cf_config = ''config.yaml''\<rparr>"

text \<open>\<open>run\<close>; flags that do not parse end the process at once, which is \<open>None\<close>.\<close>

definition ctl_main :: "'k Koanf \<Rightarrow> (string \<times> string) list \<Rightarrow> string list \<Rightarrow> (AddrErr + (HttpClient \<times> string) \<times> Command \<times> string list) option" where
  "ctl_main ko env args = (case flagParse ctlFlag args noCtlFlags of
     Inl err \<Rightarrow> None | Inr (f, rest) \<Rightarrow> Some (ctl_run ko env (cf_addr f) (cf_config f) rest))"

text \<open>An address that is given wins over the environment and the file, which is then not read.\<close>

lemma ctl_main_addr:
  assumes "addr \<noteq> []" "cmd \<noteq> []" "hd cmd \<noteq> CHR ''-''"
  shows "ctl_main ko env (''-addr'' # addr # cmd # rest) = Some (ctl_run ko' [] addr [] (cmd # rest))"
proof -
  have "flagParse ctlFlag (''-addr'' # addr # cmd # rest) noCtlFlags = flagParse ctlFlag (cmd # rest) (noCtlFlags\<lparr>cf_addr := addr\<rparr>)"
    using flagParse_step [of "''addr''" ctlFlag "\<lambda>v f. Inr (f\<lparr>cf_addr := v\<rparr>)" addr noCtlFlags]
    by (simp add: plainFlag_def ctlFlag_def stringFlag_def del: flagParse.simps)
  also have "\<dots> = Inr (noCtlFlags\<lparr>cf_addr := addr\<rparr>, cmd # rest)" using assms(2,3) by (cases cmd) auto
  finally show ?thesis using assms(1) by (simp add: ctl_main_def ctl_run_def resolveAddr_def)
qed

end
