(* ===== verification/Api_Server.thy ===== *)
theory Api_Server
  imports Ctl_Main
begin

section \<open>The control server and its clients\<close>

text \<open>
  \<open>internal/api/server.go\<close> and the code that connect generates under \<open>internal/api/gen\<close>: the paths of the
  procedures, the handlers that dispatch on them, the multiplexer they are mounted on, the clients that call
  them, and what \<open>Shutdown\<close> does to the requests that are open. The health and reflection services are those of
  libraries: the paths they are mounted on are a parameter, as are the validation of requests and the error
  that a client makes of an HTTP status.
\<close>

subsection \<open>Procedures\<close>

datatype Rpc = RpcPlaceOrder | RpcCancelOrder | RpcListOrders | RpcStreamEvents | RpcGetLastSnapshot

definition OrderServiceName :: string where "OrderServiceName = ''control.v1.OrderService''"
definition EventServiceName :: string where "EventServiceName = ''control.v1.EventService''"
definition SnapshotServiceName :: string where "SnapshotServiceName = ''control.v1.SnapshotService''"

definition OrderServicePlaceOrderProcedure :: string where
  "OrderServicePlaceOrderProcedure = ''/control.v1.OrderService/PlaceOrder''"
definition OrderServiceCancelOrderProcedure :: string where
  "OrderServiceCancelOrderProcedure = ''/control.v1.OrderService/CancelOrder''"
definition OrderServiceListOrdersProcedure :: string where
  "OrderServiceListOrdersProcedure = ''/control.v1.OrderService/ListOrders''"
definition EventServiceStreamEventsProcedure :: string where
  "EventServiceStreamEventsProcedure = ''/control.v1.EventService/StreamEvents''"
definition SnapshotServiceGetLastSnapshotProcedure :: string where
  "SnapshotServiceGetLastSnapshotProcedure = ''/control.v1.SnapshotService/GetLastSnapshot''"

lemmas procedure_defs = OrderServicePlaceOrderProcedure_def OrderServiceCancelOrderProcedure_def OrderServiceListOrdersProcedure_def
  EventServiceStreamEventsProcedure_def SnapshotServiceGetLastSnapshotProcedure_def

subsection \<open>Routing\<close>

text \<open>What becomes of a request: a procedure runs, a library serves it, it is redirected, or it is not found.\<close>

datatype Answer = Runs Rpc | Library string | Redirect string | NotFound

type_synonym Handler = "string \<times> (string \<Rightarrow> Answer)" \<comment> \<open>the path it is mounted on, and what it does with a path\<close>

definition NewOrderServiceHandler :: Handler where
  "NewOrderServiceHandler = (''/control.v1.OrderService/'', \<lambda>path.
     if path = OrderServicePlaceOrderProcedure then Runs RpcPlaceOrder
     else if path = OrderServiceCancelOrderProcedure then Runs RpcCancelOrder
     else if path = OrderServiceListOrdersProcedure then Runs RpcListOrders
     else NotFound)"

definition NewEventServiceHandler :: Handler where
  "NewEventServiceHandler = (''/control.v1.EventService/'', \<lambda>path.
     if path = EventServiceStreamEventsProcedure then Runs RpcStreamEvents else NotFound)"

definition NewSnapshotServiceHandler :: Handler where
  "NewSnapshotServiceHandler = (''/control.v1.SnapshotService/'', \<lambda>path.
     if path = SnapshotServiceGetLastSnapshotProcedure then Runs RpcGetLastSnapshot else NotFound)"

text \<open>
  The multiplexer of \<open>net/http\<close>: \<open>Handle\<close> panics on a pattern that is mounted already; a pattern with a final
  slash matches the paths under it, another one itself; the longest match serves the request, after a path
  that is not clean, or lacks the final slash, has been redirected.
\<close>

definition mux_Handle :: "Handler \<Rightarrow> Handler list \<Rightarrow> Handler list option" where
  "mux_Handle h mux = (if fst h = [] \<or> fst h \<in> fst ` set mux then None else Some (mux @ [h]))"

fun mux_HandleAll :: "Handler list \<Rightarrow> Handler list \<Rightarrow> Handler list option" where
  "mux_HandleAll [] mux = Some mux"
| "mux_HandleAll (h # hs) mux = Option.bind (mux_Handle h mux) (mux_HandleAll hs)"

definition pathMatch :: "string \<Rightarrow> string \<Rightarrow> bool" where
  "pathMatch pattern path \<longleftrightarrow> (if last pattern = CHR ''/'' then HasPrefix path pattern else path = pattern)"

fun longest :: "string \<Rightarrow> Handler list \<Rightarrow> Handler option" where
  "longest path [] = None"
| "longest path (h # hs) = (case longest path hs of
     None \<Rightarrow> if pathMatch (fst h) path then Some h else None
   | Some k \<Rightarrow> if pathMatch (fst h) path \<and> length (fst k) \<le> length (fst h) then Some h else Some k)"

definition cleanPath :: "string \<Rightarrow> string" where
  "cleanPath p =
    (if p = [] then ''/''
     else let p1 = (if hd p = CHR ''/'' then p else CHR ''/'' # p); np = path_Clean p1 in
       if last p1 = CHR ''/'' \<and> np \<noteq> ''/'' then np @ ''/'' else np)"

definition mux_serve :: "Handler list \<Rightarrow> string \<Rightarrow> Answer" where
  "mux_serve mux path =
    (if cleanPath path \<noteq> path then Redirect (cleanPath path)
     else (case longest path mux of
         Some h \<Rightarrow> snd h path
       | None \<Rightarrow> if (path @ ''/'') \<in> fst ` set mux then Redirect (path @ ''/'') else NotFound))"

text \<open>\<open>NewServer\<close>: the three services, then the handlers of the libraries.\<close>

definition NewServer :: "Handler list \<Rightarrow> Handler list option" where
  "NewServer libs = mux_HandleAll ([NewSnapshotServiceHandler, NewEventServiceHandler, NewOrderServiceHandler] @ libs) []"

text \<open>What the libraries document of their handlers: the health and the reflection services live under \<open>/grpc.\<close> paths of their own.\<close>

definition libs_law :: "Handler list \<Rightarrow> bool" where
  "libs_law libs \<longleftrightarrow> distinct (map fst libs)
     \<and> (\<forall>(pattern, serve)\<in>set libs. HasPrefix pattern ''/grpc.'' \<and> (\<forall>path m. serve path \<noteq> Runs m))"

subsection \<open>Clients\<close>

fun procedure :: "Rpc \<Rightarrow> string" where
  "procedure RpcPlaceOrder = OrderServicePlaceOrderProcedure"
| "procedure RpcCancelOrder = OrderServiceCancelOrderProcedure"
| "procedure RpcListOrders = OrderServiceListOrdersProcedure"
| "procedure RpcStreamEvents = EventServiceStreamEventsProcedure"
| "procedure RpcGetLastSnapshot = SnapshotServiceGetLastSnapshotProcedure"

definition TrimRightSlash :: "string \<Rightarrow> string" where
  "TrimRightSlash s = rev (dropWhile (\<lambda>c. c = CHR ''/'') (rev s))"

text \<open>The URL that \<open>New\<dots>ServiceClient\<close> gives to the client of a procedure.\<close>

definition clientURL :: "string \<Rightarrow> Rpc \<Rightarrow> string" where
  "clientURL baseURL m = TrimRightSlash baseURL @ procedure m"

text \<open>The path that a request for a URL asks for.\<close>

definition urlPath :: "string \<Rightarrow> string option" where
  "urlPath url = map_option (\<lambda>rest. takeWhile (\<lambda>c. c \<notin> set ''?#'') (dropWhile (\<lambda>c. c \<notin> set ''/?#'') rest)) (CutPrefix url ''http://'')"

text \<open>
  The handlers of the services, and what the connect library does around them: the interceptor refuses a request
  that is not valid, and a client turns a status that is no answer of a procedure into an error.
\<close>

record 'w Services =
  sc_PlaceOrder :: "PlaceOrderRequest \<Rightarrow> 'w \<Rightarrow> (RpcErr + PlaceOrderResponse) \<times> 'w"
  sc_CancelOrder :: "string \<Rightarrow> 'w \<Rightarrow> (RpcErr + proto_enum) \<times> 'w"
  sc_ListOrders :: "ListOrdersRequest \<Rightarrow> 'w \<Rightarrow> (RpcErr + ListOrdersResponse) \<times> 'w"
  sc_GetLastSnapshot :: "string \<Rightarrow> string \<Rightarrow> 'w \<Rightarrow> (RpcErr + ProtoCheckpoint) \<times> 'w"
  sc_StreamEvents :: "string \<Rightarrow> 'w \<Rightarrow> (Err + ProtoEvent list \<times> Err option) \<times> 'w"

record ConnectLib =
  co_validPlace :: "PlaceOrderRequest \<Rightarrow> RpcErr option"
  co_validCancel :: "string \<Rightarrow> RpcErr option"
  co_validList :: "ListOrdersRequest \<Rightarrow> RpcErr option"
  co_validSnapshot :: "string \<Rightarrow> string \<Rightarrow> RpcErr option"
  co_validStream :: "string \<Rightarrow> Err option"
  co_status :: "Answer option \<Rightarrow> RpcErr"
  co_streamStatus :: "Answer option \<Rightarrow> Err"

definition intercept :: "'e option \<Rightarrow> ('w \<Rightarrow> ('e + 'a) \<times> 'w) \<Rightarrow> 'w \<Rightarrow> ('e + 'a) \<times> 'w" where
  "intercept invalid h w = (case invalid of Some e \<Rightarrow> (Inl e, w) | None \<Rightarrow> h w)"

text \<open>A call: the request goes to the path of its URL, and the handler of the procedure answers it if it is routed there.\<close>

definition callRpc :: "(string \<Rightarrow> Answer) \<Rightarrow> (Answer option \<Rightarrow> 'e) \<Rightarrow> string \<Rightarrow> Rpc \<Rightarrow> ('w \<Rightarrow> ('e + 'a) \<times> 'w) \<Rightarrow> 'w \<Rightarrow> ('e + 'a) \<times> 'w" where
  "callRpc serve status baseURL m h w =
    (let answer = map_option serve (urlPath (clientURL baseURL m)) in
     if answer = Some (Runs m) then h w else (Inl (status answer), w))"

record 'w OrderServiceClient =
  oc_PlaceOrder :: "PlaceOrderRequest \<Rightarrow> 'w \<Rightarrow> (RpcErr + PlaceOrderResponse) \<times> 'w"
  oc_CancelOrder :: "string \<Rightarrow> 'w \<Rightarrow> (RpcErr + proto_enum) \<times> 'w"
  oc_ListOrders :: "ListOrdersRequest \<Rightarrow> 'w \<Rightarrow> (RpcErr + ListOrdersResponse) \<times> 'w"

definition NewOrderServiceClient :: "(string \<Rightarrow> Answer) \<Rightarrow> ConnectLib \<Rightarrow> 'w Services \<Rightarrow> string \<Rightarrow> 'w OrderServiceClient" where
  "NewOrderServiceClient serve co s baseURL = \<lparr>
     oc_PlaceOrder = (\<lambda>msg. callRpc serve (co_status co) baseURL RpcPlaceOrder (intercept (co_validPlace co msg) (sc_PlaceOrder s msg))),
     oc_CancelOrder = (\<lambda>cid. callRpc serve (co_status co) baseURL RpcCancelOrder (intercept (co_validCancel co cid) (sc_CancelOrder s cid))),
     oc_ListOrders = (\<lambda>msg. callRpc serve (co_status co) baseURL RpcListOrders (intercept (co_validList co msg) (sc_ListOrders s msg)))\<rparr>"

definition NewEventServiceClient :: "(string \<Rightarrow> Answer) \<Rightarrow> ConnectLib \<Rightarrow> 'w Services \<Rightarrow> string
    \<Rightarrow> string \<Rightarrow> 'w \<Rightarrow> (Err + ProtoEvent list \<times> Err option) \<times> 'w" where
  "NewEventServiceClient serve co s baseURL p =
     callRpc serve (co_streamStatus co) baseURL RpcStreamEvents (intercept (co_validStream co p) (sc_StreamEvents s p))"

definition NewSnapshotServiceClient :: "(string \<Rightarrow> Answer) \<Rightarrow> ConnectLib \<Rightarrow> 'w Services \<Rightarrow> string
    \<Rightarrow> string \<Rightarrow> string \<Rightarrow> 'w \<Rightarrow> (RpcErr + ProtoCheckpoint) \<times> 'w" where
  "NewSnapshotServiceClient serve co s baseURL v a =
     callRpc serve (co_status co) baseURL RpcGetLastSnapshot (intercept (co_validSnapshot co v a) (sc_GetLastSnapshot s v a))"

text \<open>The clients that \<open>run\<close> of \<open>cmd/ctl/main.go\<close> builds.\<close>

definition NewClients :: "(string \<Rightarrow> Answer) \<Rightarrow> ConnectLib \<Rightarrow> 'w Services \<Rightarrow> string \<Rightarrow> 'w Clients" where
  "NewClients serve co s baseURL = (let orderClient = NewOrderServiceClient serve co s baseURL in \<lparr>
     cl_PlaceOrder = oc_PlaceOrder orderClient, cl_CancelOrder = oc_CancelOrder orderClient, cl_ListOrders = oc_ListOrders orderClient,
     cl_GetLastSnapshot = NewSnapshotServiceClient serve co s baseURL,
     cl_StreamEvents = NewEventServiceClient serve co s baseURL\<rparr>)"

text \<open>What a client should be: the validation and the handler, with nothing in between.\<close>

definition directClients :: "ConnectLib \<Rightarrow> 'w Services \<Rightarrow> 'w Clients" where
  "directClients co s = \<lparr>
     cl_PlaceOrder = (\<lambda>msg. intercept (co_validPlace co msg) (sc_PlaceOrder s msg)),
     cl_CancelOrder = (\<lambda>cid. intercept (co_validCancel co cid) (sc_CancelOrder s cid)),
     cl_ListOrders = (\<lambda>msg. intercept (co_validList co msg) (sc_ListOrders s msg)),
     cl_GetLastSnapshot = (\<lambda>v a. intercept (co_validSnapshot co v a) (sc_GetLastSnapshot s v a)),
     cl_StreamEvents = (\<lambda>p. intercept (co_validStream co p) (sc_StreamEvents s p))\<rparr>"

subsection \<open>Every procedure has its path\<close>

definition ownHandlers :: "Handler list" where
  "ownHandlers = [NewSnapshotServiceHandler, NewEventServiceHandler, NewOrderServiceHandler]"

lemma own_defs: "ownHandlers = [NewSnapshotServiceHandler, NewEventServiceHandler, NewOrderServiceHandler]"
  "fst NewSnapshotServiceHandler = ''/control.v1.SnapshotService/''" "fst NewEventServiceHandler = ''/control.v1.EventService/''"
  "fst NewOrderServiceHandler = ''/control.v1.OrderService/''"
  by (simp_all add: ownHandlers_def NewSnapshotServiceHandler_def NewEventServiceHandler_def NewOrderServiceHandler_def)

lemma HasPrefix_iff: "HasPrefix s p \<longleftrightarrow> (\<exists>r. s = p @ r)"
  unfolding HasPrefix_def by (metis append_eq_conv_conj append_take_drop_id)

lemma libs_pattern:
  assumes "libs_law libs" "h \<in> set libs"
  obtains r where "fst h = ''/grpc.'' @ r" "\<And>path m. snd h path \<noteq> Runs m"
  using assms by (cases h) (fastforce simp: libs_law_def HasPrefix_iff)

lemma NewServer_built:
  assumes "libs_law libs"
  shows "NewServer libs = Some (ownHandlers @ libs)"
proof -
  have grow: "mux_HandleAll hs mux = Some (mux @ hs)"
    if "distinct (map fst (mux @ hs))" "\<forall>h\<in>set hs. fst h \<noteq> []" for hs mux
    using that
  proof (induction hs arbitrary: mux)
    case (Cons h hs)
    then have "mux_Handle h mux = Some (mux @ [h])" by (auto simp: mux_Handle_def)
    with Cons show ?case by simp
  qed simp
  have lib: "fst h \<noteq> [] \<and> fst h \<notin> fst ` set ownHandlers" if h: "h \<in> set libs" for h
    by (rule libs_pattern [OF assms h]) (simp add: own_defs)
  moreover have "distinct (map fst ownHandlers)" "\<forall>h\<in>set ownHandlers. fst h \<noteq> []" by (simp_all add: own_defs)
  moreover have "fst ` set ownHandlers \<inter> fst ` set libs = {}"
  proof (rule equals0I)
    fix x assume "x \<in> fst ` set ownHandlers \<inter> fst ` set libs"
    then obtain h where "h \<in> set libs" "x = fst h" "x \<in> fst ` set ownHandlers" by fast
    with lib [of h] show False by simp
  qed
  ultimately have d: "distinct (map fst (ownHandlers @ libs))" and "\<forall>h\<in>set ownHandlers. fst h \<noteq> []"
    using assms by (simp_all add: libs_law_def)
  then have "\<forall>h\<in>set (ownHandlers @ libs). fst h \<noteq> []" using lib by (metis Un_iff set_append)
  with d show ?thesis using grow [of "[]" "ownHandlers @ libs"] by (simp add: NewServer_def ownHandlers_def)
qed

lemma longest_Some: "longest path hs = Some h \<Longrightarrow> h \<in> set hs \<and> pathMatch (fst h) path"
  by (induction hs) (auto split: option.splits if_splits)

lemma longest_None: "longest path hs = None \<longleftrightarrow> (\<forall>h\<in>set hs. \<not> pathMatch (fst h) path)"
  by (induction hs) (auto split: option.splits if_splits)

lemma own_serves: "h \<in> set ownHandlers \<Longrightarrow> snd h path = Runs m \<Longrightarrow> path = procedure m"
  by (auto simp: own_defs NewSnapshotServiceHandler_def NewEventServiceHandler_def NewOrderServiceHandler_def split: if_splits)

lemma procedure_clean: "cleanPath (procedure m) = procedure m"
proof -
  have "list_all (\<lambda>m. cleanPath (procedure m) = procedure m) [RpcPlaceOrder, RpcCancelOrder, RpcListOrders, RpcStreamEvents, RpcGetLastSnapshot]"
    by code_simp
  then show ?thesis by (cases m) simp_all
qed

lemma procedure_own:
  obtains h where "h \<in> set ownHandlers" "pathMatch (fst h) (procedure m)"
proof -
  have "\<exists>h\<in>set ownHandlers. pathMatch (fst h) (procedure m)"
    by (cases m) (simp_all add: own_defs pathMatch_def HasPrefix_def procedure_defs)
  then show thesis using that by blast
qed

lemma own_match: "h \<in> set ownHandlers \<Longrightarrow> pathMatch (fst h) (procedure m) \<Longrightarrow> snd h (procedure m) = Runs m"
  by (cases m) (auto simp: own_defs pathMatch_def HasPrefix_def procedure_defs NewSnapshotServiceHandler_def NewEventServiceHandler_def
      NewOrderServiceHandler_def)

lemma lib_no_match:
  assumes "libs_law libs" "h \<in> set libs"
  shows "\<not> pathMatch (fst h) (procedure m)"
proof -
  obtain r where r: "fst h = ''/grpc.'' @ r" by (rule libs_pattern [OF assms])
  then show ?thesis by (cases m) (auto simp: pathMatch_def HasPrefix_iff procedure_defs)
qed

text \<open>A procedure runs for its own path and for no other.\<close>

lemma serve_iff:
  assumes "libs_law libs"
  shows "mux_serve (ownHandlers @ libs) path = Runs m \<longleftrightarrow> path = procedure m"
proof
  assume "mux_serve (ownHandlers @ libs) path = Runs m"
  then obtain h where h: "longest path (ownHandlers @ libs) = Some h" "snd h path = Runs m"
    by (auto simp: mux_serve_def split: if_splits option.splits)
  from longest_Some [OF h(1)] have "h \<in> set ownHandlers \<or> h \<in> set libs" by simp
  then show "path = procedure m"
  proof
    assume "h \<in> set libs"
    with h(2) show ?thesis using libs_pattern [OF assms] by blast
  qed (use h(2) own_serves in blast)
next
  assume p: "path = procedure m"
  obtain k where k: "k \<in> set ownHandlers" "pathMatch (fst k) path" unfolding p by (rule procedure_own)
  then obtain h where h: "longest path (ownHandlers @ libs) = Some h"
    using longest_None [of path "ownHandlers @ libs"] by fastforce
  from longest_Some [OF h] lib_no_match [OF assms, of h m] p have "h \<in> set ownHandlers" "pathMatch (fst h) path" by (auto simp del: split_paired_All)
  then have "snd h path = Runs m" unfolding p by (rule own_match)
  with h p procedure_clean show "mux_serve (ownHandlers @ libs) path = Runs m" by (simp add: mux_serve_def)
qed

subsection \<open>A client call is a call of the handler\<close>

definition plainHost :: "string \<Rightarrow> bool" where
  "plainHost host \<longleftrightarrow> host \<noteq> [] \<and> (\<forall>c\<in>set host. c \<notin> set ''/?#'')"

lemma urlPath_base:
  assumes "plainHost host"
  shows "urlPath (clientURL (''http://'' @ host) m) = Some (procedure m)"
proof -
  from assms have "TrimRightSlash (''http://'' @ host) = ''http://'' @ host"
    by (cases host rule: rev_cases) (auto simp: TrimRightSlash_def plainHost_def)
  then have "clientURL (''http://'' @ host) m = ''http://'' @ host @ procedure m" by (simp add: clientURL_def)
  moreover have "CutPrefix (''http://'' @ host @ procedure m) ''http://'' = Some (host @ procedure m)" by (simp add: CutPrefix_def HasPrefix_def)
  moreover have "dropWhile (\<lambda>c. c \<notin> set ''/?#'') (host @ procedure m) = procedure m"
    using assms by (cases m) (simp_all add: plainHost_def procedure_defs dropWhile_append2)
  moreover have "takeWhile (\<lambda>c. c \<notin> set ''?#'') (procedure m) = procedure m"
    by (cases m) (simp_all add: procedure_defs)
  ultimately show ?thesis by (simp add: urlPath_def)
qed

lemma client_base:
  assumes "NewHTTPClient addr = (client, baseURL)" "CutPrefix addr unixPrefix = None \<Longrightarrow> plainHost addr"
  obtains host where "baseURL = ''http://'' @ host" "plainHost host"
proof (cases "CutPrefix addr unixPrefix")
  case None
  then have plain: "plainHost addr" by (rule assms(2))
  show thesis
  proof (cases "HasPrefix addr '':''")
    case True
    with None assms(1) plain that [of "''localhost'' @ addr"] show thesis by (simp add: NewHTTPClient_def plainHost_def)
  next
    case False
    with None assms(1) plain that [of addr] show thesis by (simp add: NewHTTPClient_def)
  qed
next
  case (Some p)
  with assms(1) that [of "''localhost''"] show thesis by (simp add: NewHTTPClient_def plainHost_def)
qed

lemma callRpc_routed:
  assumes "libs_law libs" "plainHost host"
  shows "callRpc (mux_serve (ownHandlers @ libs)) status (''http://'' @ host) m h = h"
  using serve_iff [OF assms(1), of "procedure m" m] urlPath_base [OF assms(2), of m] by (simp add: callRpc_def fun_eq_iff)


text \<open>The health and reflection handlers, as the libraries mount them.\<close>

definition demo_libs :: "Handler list" where
  "demo_libs = [(''/grpc.health.v1.Health/'', \<lambda>_. Library ''health''), (''/grpc.reflection.v1.ServerReflection/'', \<lambda>_. Library ''reflection''),
     (''/grpc.reflection.v1alpha.ServerReflection/'', \<lambda>_. Library ''reflection'')]"

lemma demo_libs_law: "libs_law demo_libs"
  by (simp add: libs_law_def demo_libs_def HasPrefix_def)

definition demo_connect :: ConnectLib where
  "demo_connect = \<lparr>co_validPlace = (\<lambda>msg. if po_Venue msg = [] then Some (ConnectError CodeInvalidArgument (EText ''venue'')) else None),
     co_validCancel = (\<lambda>_. None), co_validList = (\<lambda>_. None), co_validSnapshot = (\<lambda>_ _. None), co_validStream = (\<lambda>_. None),
     co_status = (\<lambda>_. ConnectError CodeUnavailable (EText ''status'')), co_streamStatus = (\<lambda>_. EText ''status'')\<rparr>"

definition demo_services :: "nat Services" where
  "demo_services = \<lparr>sc_PlaceOrder = (\<lambda>_ w. (Inl Panicked, w)), sc_CancelOrder = (\<lambda>_ w. (Inr 5, w + 1)), sc_ListOrders = (\<lambda>_ w. (Inl Panicked, w)),
     sc_GetLastSnapshot = (\<lambda>_ _ w. (Inl Panicked, w)), sc_StreamEvents = (\<lambda>_ w. (Inr ([], None), w))\<rparr>"


subsection \<open>Shutting down\<close>

text \<open>
  The requests that are open, by their procedure and whether their own client has gone. The context of a request
  is done when its client has gone or when the base context of the server is canceled, which the function
  registered in \<open>NewServer\<close> does. \<open>Shutdown\<close> closes the listener, calls the registered function on a goroutine of
  its own, and returns when no request is open.
\<close>

record Serving =
  sg_open :: "(Rpc \<times> bool) multiset"
  sg_closed :: bool
  sg_baseDone :: bool
  sg_returned :: bool

definition ctxDone :: "Serving \<Rightarrow> Rpc \<times> bool \<Rightarrow> bool" where
  "ctxDone st r \<longleftrightarrow> snd r \<or> sg_baseDone st"

text \<open>
  The handler of a stream returns when its context is done, or when sending fails because the client has gone; the
  other handlers return by themselves.
\<close>

inductive serving_step :: "Serving \<Rightarrow> Serving \<Rightarrow> bool" where
  accepts: "\<not> sg_closed st \<Longrightarrow> serving_step st (st\<lparr>sg_open := add_mset (m, False) (sg_open st)\<rparr>)"
| leaves: "sg_open st = add_mset (m, False) rest \<Longrightarrow> serving_step st (st\<lparr>sg_open := add_mset (m, True) rest\<rparr>)"
| handled: "sg_open st = add_mset r rest \<Longrightarrow> fst r \<noteq> RpcStreamEvents \<or> ctxDone st r \<Longrightarrow> serving_step st (st\<lparr>sg_open := rest\<rparr>)"
| shutdown: "\<not> sg_closed st \<Longrightarrow> serving_step st (st\<lparr>sg_closed := True\<rparr>)"
| onShutdown: "sg_closed st \<Longrightarrow> \<not> sg_baseDone st \<Longrightarrow> serving_step st (st\<lparr>sg_baseDone := True\<rparr>)"
| returns: "sg_closed st \<Longrightarrow> sg_open st = {#} \<Longrightarrow> \<not> sg_returned st \<Longrightarrow> serving_step st (st\<lparr>sg_returned := True\<rparr>)"

inductive_cases serving_stepE: "serving_step st st'"

text \<open>What is left to do once the shutdown has begun.\<close>

definition leftover :: "Serving \<Rightarrow> nat" where
  "leftover st = 2 * size (sg_open st) + size (filter_mset (\<lambda>r. \<not> snd r) (sg_open st))
     + (if sg_baseDone st then 0 else 1) + (if sg_returned st then 0 else 1)"

lemma step_leftover: "serving_step st st' \<Longrightarrow> sg_closed st \<Longrightarrow> sg_closed st' \<and> leftover st' < leftover st"
  by (erule serving_stepE) (auto simp: leftover_def)

lemma step_possible:
  assumes "sg_closed st" "\<not> sg_returned st"
  shows "\<exists>st'. serving_step st st'"
proof (cases "sg_baseDone st")
  case False
  with assms show ?thesis by (blast intro: serving_step.onShutdown)
next
  case True
  show ?thesis
  proof (cases "sg_open st")
    case empty
    with assms show ?thesis by (blast intro: serving_step.returns)
  next
    case (add r rest)
    with True show ?thesis by (intro exI) (rule serving_step.handled [of st r rest], auto simp: ctxDone_def)
  qed
qed


definition demo_serving :: Serving where
  "demo_serving = \<lparr>sg_open = {#(RpcStreamEvents, False)#}, sg_closed = True, sg_baseDone = False, sg_returned = False\<rparr>"


end
