(* ===== verification/Health.thy ===== *)
theory Health
  imports Config
begin

section \<open>Connections and readiness\<close>

text \<open>
  \<open>Connect\<close>, \<open>migrate\<close> and \<open>Health\<close> of \<open>internal/adapters/postgres/postgres.go\<close>, \<open>New\<close> and \<open>Health\<close> of
  \<open>internal/adapters/questdb/questdb.go\<close>, and the handlers of \<open>internal/telemetry/telemetry.go\<close>. The pool, the migration
  tool, the line sender and the HTTP client are those of libraries and parameters; \<open>'w\<close> is the state they share.
\<close>

subsection \<open>Postgres\<close>

record ('w, 'p) Pgx =
  px_New :: "string \<Rightarrow> ('w, 'p) op"
  px_Ping :: "'p \<Rightarrow> ('w, unit) op"
  px_Close :: "'p \<Rightarrow> 'w \<Rightarrow> 'w"
  gs_SetDialect :: "string \<Rightarrow> ('w, unit) op"
  gs_Up :: "'p \<Rightarrow> string \<Rightarrow> ('w, unit) op"

definition migrate :: "('w, 'p) Pgx \<Rightarrow> 'p \<Rightarrow> ('w, unit) op" where
  "migrate px pool = bindS (wrapS ''postgres: goose dialect'' (gs_SetDialect px ''postgres''))
     (\<lambda>_. wrapS ''postgres: migrate'' (gs_Up px pool ''migrations''))"

text \<open>A failing step after the pool was opened closes it and returns its error.\<close>

definition orClose :: "('w, 'p) Pgx \<Rightarrow> 'p \<Rightarrow> ('w, unit) op \<Rightarrow> ('w, unit) op" where
  "orClose px pool m w = (case m w of (Inl err, w') \<Rightarrow> (Inl err, px_Close px pool w') | (Inr u, w') \<Rightarrow> (Inr u, w'))"

definition Connect :: "('w, 'p) Pgx \<Rightarrow> string \<Rightarrow> ('w, 'p) op" where
  "Connect px dsn = bindS (wrapS ''postgres: connect'' (px_New px dsn)) (\<lambda>pool.
     bindS (orClose px pool (wrapS ''postgres: ping'' (px_Ping px pool))) (\<lambda>_.
     bindS (orClose px pool (migrate px pool)) (\<lambda>_. returnS pool)))"

record ('w) HealthChecker =
  hc_Name :: string
  hc_Check :: "('w, unit) op"

definition postgres_NewHealth :: "('w, 'p) Pgx \<Rightarrow> 'p \<Rightarrow> 'w HealthChecker" where
  "postgres_NewHealth px pool = \<lparr>hc_Name = ''postgres'', hc_Check = px_Ping px pool\<rparr>"

subsection \<open>QuestDB\<close>

definition questdb_New :: "(string \<Rightarrow> ('w, 's) op) \<Rightarrow> string \<Rightarrow> ('w, 's) op" where
  "questdb_New lineSenderFromConf conf = wrapS ''questdb: connect'' (lineSenderFromConf conf)"

text \<open>The address and the scheme that a part of the configuration string sets.\<close>

definition healthPart :: "string \<Rightarrow> string \<times> string \<Rightarrow> string \<times> string" where
  "healthPart part as = (case as of (addr, scheme) \<Rightarrow>
     case CutPrefix part ''http::addr='' of Some v \<Rightarrow> (v, scheme)
   | None \<Rightarrow> (case CutPrefix part ''https::addr='' of Some v \<Rightarrow> (v, ''https'')
   | None \<Rightarrow> (case CutPrefix part ''addr='' of Some v \<Rightarrow> (v, scheme)
   | None \<Rightarrow> (addr, scheme))))"

definition healthURL :: "string \<Rightarrow> string" where
  "healthURL conf = (case fold healthPart (splitOn CHR '';'' conf) (''localhost:9000'', ''http'') of
     (addr, scheme) \<Rightarrow> scheme @ ''://'' @ addr @ ''/ping'')"

text \<open>\<open>newRequest\<close> refuses a URL that does not parse; \<open>do\<close> gives the status code.\<close>

record ('w) HttpDo =
  hd_NewRequest :: "string \<Rightarrow> Err option"
  hd_Do :: "string \<Rightarrow> ('w, int) op"

definition questdb_NewHealth :: "'w HttpDo \<Rightarrow> string \<Rightarrow> 'w HealthChecker" where
  "questdb_NewHealth http conf = \<lparr>hc_Name = ''questdb'', hc_Check =
     (case hd_NewRequest http (healthURL conf) of
        Some err \<Rightarrow> failS err
      | None \<Rightarrow> bindS (hd_Do http (healthURL conf)) (\<lambda>status.
          if status \<ge> 300 then failS (EText (''questdb: ping status '' @ fmt_d status)) else returnS ()))\<rparr>"

subsection \<open>The operational server\<close>

record Response =
  rs_Code :: nat
  rs_Body :: string

definition newline :: string where "newline = [CHR 0x0A]"

definition healthz :: Response where
  "healthz = \<lparr>rs_Code = 200, rs_Body = ''ok'' @ newline\<rparr>"

fun readyz :: "'w HealthChecker list \<Rightarrow> 'w \<Rightarrow> Response \<times> 'w" where
  "readyz [] w = (\<lparr>rs_Code = 200, rs_Body = ''ready'' @ newline\<rparr>, w)"
| "readyz (c # cs) w = (case hc_Check c w of
     (Inl err, w') \<Rightarrow> (\<lparr>rs_Code = 503, rs_Body = ''not ready: '' @ hc_Name c @ newline\<rparr>, w')
   | (Inr u, w') \<Rightarrow> readyz cs w')"

subsection \<open>Opening leaves nothing open but what it returns\<close>

text \<open>
  What the pool documents: opening adds the pool to the open ones, closing takes it away, pinging it and
  migrating over it leave the open ones alone.
\<close>

definition pool_law :: "('w, 'p) Pgx \<Rightarrow> ('w \<Rightarrow> 'p set) \<Rightarrow> bool" where
  "pool_law px pools \<longleftrightarrow>
     (\<forall>dsn w e w'. px_New px dsn w = (Inl e, w') \<longrightarrow> pools w' = pools w)
   \<and> (\<forall>dsn w p w'. px_New px dsn w = (Inr p, w') \<longrightarrow> p \<notin> pools w \<and> pools w' = insert p (pools w))
   \<and> (\<forall>p w. pools (snd (px_Ping px p w)) = pools w)
   \<and> (\<forall>p w. pools (px_Close px p w) = pools w - {p})
   \<and> (\<forall>t w. pools (snd (gs_SetDialect px t w)) = pools w)
   \<and> (\<forall>p t w. pools (snd (gs_Up px p t w)) = pools w)"

lemma pool_New:
  assumes "pool_law px pools"
  shows "px_New px dsn w = (Inl e, w') \<Longrightarrow> pools w' = pools w"
    and "px_New px dsn w = (Inr p, w') \<Longrightarrow> p \<notin> pools w \<and> pools w' = insert p (pools w)"
  using assms unfolding pool_law_def by (elim conjE; simp)+

lemma orClose_pools:
  assumes "pool_law px pools" "\<And>w. pools (snd (m w)) = pools w" "orClose px p m w = (r, w')"
  shows "pools w' = (case r of Inl _ \<Rightarrow> pools w - {p} | Inr _ \<Rightarrow> pools w)"
proof -
  obtain r1 w1 where m: "m w = (r1, w1)" by (cases "m w")
  with assms(2) [of w] have "pools w1 = pools w" by simp
  with m assms(1,3) show ?thesis by (cases r1) (auto simp: orClose_def pool_law_def)
qed

lemma migrate_pools:
  assumes "pool_law px pools"
  shows "pools (snd (migrate px p w)) = pools w"
proof -
  obtain r1 w1 where d: "gs_SetDialect px ''postgres'' w = (r1, w1)" by (cases "gs_SetDialect px ''postgres'' w")
  from assms have "pools (snd (gs_SetDialect px ''postgres'' w)) = pools w" and "pools (snd (gs_Up px p ''migrations'' w1)) = pools w1"
    unfolding pool_law_def by blast+
  with d show ?thesis by (cases r1) (auto simp: migrate_def bindS_def wrapS_def mapErrS_def split: prod.splits sum.splits)
qed

text \<open>A connection that fails leaves no pool open; one that succeeds opens exactly the pool it returns, pinged and migrated.\<close>

lemma Connect_pools:
  assumes "pool_law px pools" "Connect px dsn w = (r, w')"
  shows "case r of Inl _ \<Rightarrow> pools w' = pools w | Inr p \<Rightarrow> p \<notin> pools w \<and> pools w' = insert p (pools w)"
proof -
  obtain r1 w1 where n: "px_New px dsn w = (r1, w1)" by (cases "px_New px dsn w")
  show ?thesis
  proof (cases r1)
    case (Inl e)
    with pool_New(1) [OF assms(1)] n have "pools w1 = pools w" by simp
    with n Inl assms(2) show ?thesis by (auto simp: Connect_def bindS_def wrapS_def mapErrS_def)
  next
    case (Inr p)
    with pool_New(2) [OF assms(1)] n have p: "p \<notin> pools w" "pools w1 = insert p (pools w)" by auto
    let ?ping = "orClose px p (wrapS ''postgres: ping'' (px_Ping px p))"
    obtain r2 w2 where pi: "?ping w1 = (r2, w2)" by (cases "?ping w1")
    obtain r3 w3 where mi: "orClose px p (migrate px p) w2 = (r3, w3)" by (cases "orClose px p (migrate px p) w2")
    have "pools (snd (wrapS ''postgres: ping'' (px_Ping px p) w)) = pools w" for w using assms(1) by (simp add: pool_law_def)
    note 2 = orClose_pools [OF assms(1) this pi] and 3 = orClose_pools [OF assms(1) migrate_pools [OF assms(1)] mi]
    from assms(2) n Inr pi mi p 2 3 show ?thesis
      by (cases r2; cases r3) (auto simp: Connect_def bindS_def wrapS_def mapErrS_def returnS_def)
  qed
qed

subsection \<open>Readiness\<close>

text \<open>
  Ready means that every check passed, each in the state the ones before left; otherwise the answer names the
  first that did not, and the rest are not run.
\<close>

lemma readyz_iff: "rs_Code (fst (readyz cs w)) = 200 \<longleftrightarrow> fst (forS hc_Check cs w) = Inr ()"
  by (induction cs arbitrary: w) (auto simp: bindS_def returnS_def split: prod.splits sum.splits)

lemma readyz_names_first:
  assumes "readyz cs w = (resp, w')" "rs_Code resp \<noteq> 200"
  obtains pre c rest w1 e where "cs = pre @ c # rest" "forS hc_Check pre w = (Inr (), w1)" "hc_Check c w1 = (Inl e, w')"
    "resp = \<lparr>rs_Code = 503, rs_Body = ''not ready: '' @ hc_Name c @ newline\<rparr>"
proof -
  have "\<exists>pre c rest w1 e. cs = pre @ c # rest \<and> forS hc_Check pre w = (Inr (), w1) \<and> hc_Check c w1 = (Inl e, w')
      \<and> resp = \<lparr>rs_Code = 503, rs_Body = ''not ready: '' @ hc_Name c @ newline\<rparr>"
    using assms
  proof (induction cs arbitrary: w)
    case (Cons c cs)
    show ?case
    proof (cases "hc_Check c w")
      case (Pair r w1)
      show ?thesis
      proof (cases r)
        case (Inl e)
        have "forS hc_Check [] w = (Inr (), w)" by simp
        with Cons.prems Pair Inl show ?thesis by (intro exI [of _ "[]"] exI [of _ c] exI [of _ cs] exI [of _ w] exI [of _ e]) simp
      next
        case (Inr u)
        from Cons.IH [of w1] Cons.prems Pair Inr obtain pre d rest w2 e where
          "cs = pre @ d # rest" "forS hc_Check pre w1 = (Inr (), w2)" "hc_Check d w2 = (Inl e, w')"
          "resp = \<lparr>rs_Code = 503, rs_Body = ''not ready: '' @ hc_Name d @ newline\<rparr>" by (auto simp del: append.simps)
        with Pair Inr show ?thesis by (intro exI [of _ "c # pre"] exI [of _ d] exI [of _ rest] exI [of _ w2] exI [of _ e]) simp
      qed
    qed
  qed auto
  then show thesis by (elim exE conjE) (rule that)
qed

text \<open>
  The URL of the check follows the configuration string when its address comes first; when it comes later, the
  scheme of the string is lost.
\<close>

lemma healthURL_https: "healthURL ''https::addr=db:9000;username=u;'' = ''https://db:9000/ping''"
  by code_simp

lemma healthURL_loses_scheme: "healthURL ''https::username=u;addr=db:9000;'' = ''http://db:9000/ping''"
  by code_simp

end
