(* ===== verification/Metrics.thy ===== *)
theory Metrics
  imports Snapshot_Service "HOL-Library.Multiset"
begin

section \<open>Metrics\<close>

text \<open>
  \<open>metrics.go\<close> of \<open>internal/service/order\<close>, \<open>outbox\<close>, \<open>reconcile\<close>, \<open>snapshot\<close> and of \<open>internal/api\<close>,
  \<open>registerBusMetrics\<close> of \<open>internal/app/app.go\<close> and \<open>NewRegistry\<close> of \<open>internal/telemetry/telemetry.go\<close>. The registry is
  that of the Prometheus library, modelled by the names it holds: it refuses a collector whose name it has.
  The samples are a map from a name and the values of its labels; values are exact, which a \<open>float64\<close> is for
  counts below \<open>2^53\<close> and whole seconds.
\<close>

subsection \<open>The registry\<close>

type_synonym CollectorNames = "string list"

definition Register :: "string \<Rightarrow> CollectorNames \<Rightarrow> Err + CollectorNames" where
  "Register name reg = (if name \<in> set reg then Inl (EText ''duplicate metrics collector registration attempted'') else Inr (reg @ [name]))"

text \<open>The loop of every \<open>NewMetrics\<close>.\<close>

definition registerAll :: "string list \<Rightarrow> CollectorNames \<Rightarrow> Err + CollectorNames" where
  "registerAll names = foldR Register names"

text \<open>
  \<open>NewRegistry\<close> registers the collectors of the Go runtime and of the process on an empty registry, or panics. Their
  names are the library's and documented to start with \<open>go_\<close> and \<open>process_\<close>.
\<close>

definition telemetry_NewRegistry :: "string list \<Rightarrow> Err + CollectorNames" where
  "telemetry_NewRegistry runtime = registerAll runtime []"

definition runtime_law :: "string list \<Rightarrow> bool" where
  "runtime_law runtime \<longleftrightarrow> distinct runtime \<and> (\<forall>n\<in>set runtime. HasPrefix n ''go_'' \<or> HasPrefix n ''process_'')"

definition order_NewMetrics :: "CollectorNames \<Rightarrow> Err + CollectorNames" where
  "order_NewMetrics = registerAll [''order_events_dropped_total'', ''ledger_unmatched_sells_total'']"

definition outbox_NewMetrics :: "CollectorNames \<Rightarrow> Err + CollectorNames" where
  "outbox_NewMetrics = registerAll [''outbox_published_total'', ''outbox_unpublished_rows'', ''outbox_oldest_unpublished_age_seconds'']"

definition reconcile_NewMetrics :: "CollectorNames \<Rightarrow> Err + CollectorNames" where
  "reconcile_NewMetrics = registerAll [''reconcile_diffs_total'', ''reconcile_duration_seconds'',
     ''reconcile_last_success_timestamp_seconds'', ''reconcile_orphans'']"

definition snapshot_NewMetrics :: "CollectorNames \<Rightarrow> Err + CollectorNames" where
  "snapshot_NewMetrics = registerAll [''snapshot_duration_seconds'', ''snapshot_errors_total'', ''snapshot_last_success_timestamp_seconds'']"

definition api_NewMetrics :: "CollectorNames \<Rightarrow> Err + CollectorNames" where
  "api_NewMetrics = registerAll [''api_event_payload_malformed_total'']"

definition registerBusMetrics :: "CollectorNames \<Rightarrow> Err + CollectorNames" where
  "registerBusMetrics = Register ''bus_dropped_total''"

subsection \<open>Observing\<close>

type_synonym Labels = "(string \<times> string) list"

text \<open>A counter or gauge has a value, a histogram a count and a sum.\<close>

record Samples =
  sp_value :: "string \<times> Labels \<Rightarrow> rat"
  sp_count :: "string \<times> Labels \<Rightarrow> nat"
  sp_sum :: "string \<times> Labels \<Rightarrow> rat"

definition noSamples :: Samples where
  "noSamples = \<lparr>sp_value = (\<lambda>_. 0), sp_count = (\<lambda>_. 0), sp_sum = (\<lambda>_. 0)\<rparr>"

definition Add :: "string \<Rightarrow> Labels \<Rightarrow> rat \<Rightarrow> Samples \<Rightarrow> Samples" where
  "Add name ls x s = s\<lparr>sp_value := (sp_value s)((name, ls) := sp_value s (name, ls) + x)\<rparr>"

definition Inc :: "string \<Rightarrow> Labels \<Rightarrow> Samples \<Rightarrow> Samples" where
  "Inc name ls = Add name ls 1"

definition SetTo :: "string \<Rightarrow> Labels \<Rightarrow> rat \<Rightarrow> Samples \<Rightarrow> Samples" where
  "SetTo name ls x s = s\<lparr>sp_value := (sp_value s)((name, ls) := x)\<rparr>"

definition Observe :: "string \<Rightarrow> Labels \<Rightarrow> rat \<Rightarrow> Samples \<Rightarrow> Samples" where
  "Observe name ls x s = s\<lparr>sp_count := (sp_count s)((name, ls) := sp_count s (name, ls) + 1),
     sp_sum := (sp_sum s)((name, ls) := sp_sum s (name, ls) + x)\<rparr>"

definition Seconds :: "Duration \<Rightarrow> rat" where "Seconds d = of_int d / 1000000000"

text \<open>\<open>Time.Unix\<close>, with the model's instants counted from Go's zero instant, 62135596800 seconds before the epoch.\<close>

definition Unix :: "Time \<Rightarrow> int" where "Unix t = nanos t div 1000000000 - 62135596800"

definition order_observeDropped :: "VenueID \<Rightarrow> string \<Rightarrow> Samples \<Rightarrow> Samples" where
  "order_observeDropped venue reason = Inc ''order_events_dropped_total'' [(''venue'', venue), (''reason'', reason)]"

definition order_observeUnmatched :: "VenueID \<Rightarrow> Samples \<Rightarrow> Samples" where
  "order_observeUnmatched venue = Inc ''ledger_unmatched_sells_total'' [(''venue'', venue)]"

definition outbox_observePublished :: "nat \<Rightarrow> Samples \<Rightarrow> Samples" where
  "outbox_observePublished n = Add ''outbox_published_total'' [] (of_nat n)"

definition outbox_observeBacklog :: "int \<Rightarrow> Duration \<Rightarrow> Samples \<Rightarrow> Samples" where
  "outbox_observeBacklog rows oldest s =
    SetTo ''outbox_oldest_unpublished_age_seconds'' [] (Seconds oldest) (SetTo ''outbox_unpublished_rows'' [] (of_int rows) s)"

definition reconcile_observeDiff :: "VenueID \<Rightarrow> string \<Rightarrow> Samples \<Rightarrow> Samples" where
  "reconcile_observeDiff venue kind = Inc ''reconcile_diffs_total'' [(''venue'', venue), (''kind'', kind)]"

definition reconcile_observeSuccess :: "VenueID \<Rightarrow> Duration \<Rightarrow> Time \<Rightarrow> int \<Rightarrow> Samples \<Rightarrow> Samples" where
  "reconcile_observeSuccess venue duration t orphans s =
    (let labels = [(''venue'', venue)] in
     SetTo ''reconcile_orphans'' labels (of_int orphans)
       (SetTo ''reconcile_last_success_timestamp_seconds'' labels (of_int (Unix t))
         (Observe ''reconcile_duration_seconds'' labels (Seconds duration) s)))"

definition targetLabels :: "Target \<Rightarrow> Labels" where
  "targetLabels t = [(''venue'', tg_Venue t), (''account'', tg_Account t)]"

definition snapshot_observeSuccess :: "Target \<Rightarrow> Duration \<Rightarrow> Time \<Rightarrow> Samples \<Rightarrow> Samples" where
  "snapshot_observeSuccess t d instant s =
    SetTo ''snapshot_last_success_timestamp_seconds'' (targetLabels t) (of_int (Unix instant))
      (Observe ''snapshot_duration_seconds'' (targetLabels t) (Seconds d) s)"

definition snapshot_observeError :: "Target \<Rightarrow> Samples \<Rightarrow> Samples" where
  "snapshot_observeError t = Inc ''snapshot_errors_total'' (targetLabels t)"

definition api_recordMalformed :: "string \<Rightarrow> Samples \<Rightarrow> Samples" where
  "api_recordMalformed subject = Inc ''api_event_payload_malformed_total'' [(''subject'', subject)]"

text \<open>Everything the process ever reports: the order service of \<open>internal/service/order\<close>, the relay, the reconciler, the
  snapshot service and the event stream of the control API.\<close>

datatype Observation =
    OrderDropped VenueID string
  | OrderUnmatched VenueID
  | RowsPublished nat
  | Backlog int Duration
  | DiffFound VenueID string
  | PassDone VenueID Duration Time int
  | SnapshotTaken Target Duration Time
  | SnapshotFailed Target
  | PayloadMalformed string

fun observe :: "Observation \<Rightarrow> Samples \<Rightarrow> Samples" where
  "observe (OrderDropped v r) = order_observeDropped v r"
| "observe (OrderUnmatched v) = order_observeUnmatched v"
| "observe (RowsPublished n) = outbox_observePublished n"
| "observe (Backlog rows oldest) = outbox_observeBacklog rows oldest"
| "observe (DiffFound v k) = reconcile_observeDiff v k"
| "observe (PassDone v d t n) = reconcile_observeSuccess v d t n"
| "observe (SnapshotTaken t d i) = snapshot_observeSuccess t d i"
| "observe (SnapshotFailed t) = snapshot_observeError t"
| "observe (PayloadMalformed subject) = api_recordMalformed subject"

definition observeAll :: "Observation list \<Rightarrow> Samples" where
  "observeAll es = fold observe es noSamples"

subsection \<open>What a counter and a gauge promise\<close>

text \<open>A counter moves by what each observation is worth to it; a gauge holds what the last observation that concerns it set.\<close>

locale counter =
  fixes step :: "'e \<Rightarrow> 's \<Rightarrow> 's" and reading :: "'s \<Rightarrow> rat" and worth :: "'e \<Rightarrow> rat"
  assumes step_adds: "reading (step e s) = reading s + worth e"
begin

lemma reading_fold: "reading (fold step es s) = reading s + sum_list (map worth es)"
  by (induction es arbitrary: s) (simp_all add: step_adds)

end

locale gauge =
  fixes step :: "'e \<Rightarrow> 's \<Rightarrow> 's" and reading :: "'s \<Rightarrow> rat" and sets :: "'e \<Rightarrow> rat option"
  assumes step_sets: "reading (step e s) = (case sets e of None \<Rightarrow> reading s | Some x \<Rightarrow> x)"
begin

lemma reading_same: "\<forall>e\<in>set es. sets e = None \<Longrightarrow> reading (fold step es s) = reading s"
  by (induction es arbitrary: s) (simp_all add: step_sets)

lemma reading_last:
  assumes "sets e = Some x" "\<forall>e\<in>set later. sets e = None"
  shows "reading (fold step (earlier @ e # later) s) = x"
  using assms by (simp add: reading_same step_sets)

end

lemmas metric_defs = order_observeDropped_def order_observeUnmatched_def outbox_observePublished_def outbox_observeBacklog_def
  reconcile_observeDiff_def reconcile_observeSuccess_def snapshot_observeSuccess_def snapshot_observeError_def
  api_recordMalformed_def Inc_def Add_def SetTo_def Observe_def Let_def targetLabels_def

text \<open>What an observation is worth to a counter that is incremented by one.\<close>

definition one :: "Observation \<Rightarrow> Observation \<Rightarrow> rat" where
  "one e e' = (if e' = e then 1 else 0)"

fun publishedBy :: "Observation \<Rightarrow> rat" where
  "publishedBy (RowsPublished n) = of_nat n"
| "publishedBy _ = 0"

lemma sum_one: "sum_list (map (one e) es) = of_nat (count_list es e)"
  by (induction es) (simp_all add: one_def)

lemma Target_eq: "tg_Venue t = tg_Venue t' \<and> tg_Account t = tg_Account t' \<longleftrightarrow> t = (t' :: Target)"
  by (cases t; cases t') auto

interpretation dropped: counter observe "\<lambda>s. sp_value s (''order_events_dropped_total'', [(''venue'', v), (''reason'', r)])"
    "one (OrderDropped v r)" for v r
  by unfold_locales (rename_tac e s, case_tac e; auto simp: metric_defs one_def)

interpretation unmatched: counter observe "\<lambda>s. sp_value s (''ledger_unmatched_sells_total'', [(''venue'', v)])"
    "one (OrderUnmatched v)" for v
  by unfold_locales (rename_tac e s, case_tac e; auto simp: metric_defs one_def)

interpretation published: counter observe "\<lambda>s. sp_value s (''outbox_published_total'', [])" publishedBy
  by unfold_locales (rename_tac e s, case_tac e; auto simp: metric_defs)

interpretation diffs: counter observe "\<lambda>s. sp_value s (''reconcile_diffs_total'', [(''venue'', v), (''kind'', k)])"
    "one (DiffFound v k)" for v k
  by unfold_locales (rename_tac e s, case_tac e; auto simp: metric_defs one_def)

interpretation errors: counter observe "\<lambda>s. sp_value s (''snapshot_errors_total'', targetLabels t)"
    "one (SnapshotFailed t)" for t
  by unfold_locales (rename_tac e s, case_tac e; auto simp: metric_defs one_def simp flip: Target_eq)

interpretation malformed: counter observe "\<lambda>s. sp_value s (''api_event_payload_malformed_total'', [(''subject'', x)])"
    "one (PayloadMalformed x)" for x
  by unfold_locales (rename_tac e s, case_tac e; auto simp: metric_defs one_def)

fun backlogRows :: "Observation \<Rightarrow> rat option" where
  "backlogRows (Backlog rows _) = Some (of_int rows)"
| "backlogRows _ = None"

fun passOf :: "VenueID \<Rightarrow> Observation \<Rightarrow> rat option" where
  "passOf v (PassDone v' _ t _) = (if v' = v then Some (of_int (Unix t)) else None)"
| "passOf _ _ = None"

fun snapshotOf :: "Target \<Rightarrow> Observation \<Rightarrow> rat option" where
  "snapshotOf t (SnapshotTaken t' _ instant) = (if t' = t then Some (of_int (Unix instant)) else None)"
| "snapshotOf _ _ = None"

interpretation backlog: gauge observe "\<lambda>s. sp_value s (''outbox_unpublished_rows'', [])" backlogRows
  by unfold_locales (rename_tac e s, case_tac e; auto simp: metric_defs)

interpretation lastPass: gauge observe
    "\<lambda>s. sp_value s (''reconcile_last_success_timestamp_seconds'', [(''venue'', v)])" "passOf v" for v
  by unfold_locales (rename_tac e s, case_tac e; auto simp: metric_defs)

interpretation lastSnapshot: gauge observe
    "\<lambda>s. sp_value s (''snapshot_last_success_timestamp_seconds'', targetLabels t)" "snapshotOf t" for t
  by unfold_locales (rename_tac e s, case_tac e; auto simp: metric_defs simp flip: Target_eq)

subsection \<open>The numbers are the events\<close>

lemma noSamples_value [simp]: "sp_value noSamples k = 0"
  by (simp add: noSamples_def)

text \<open>
  Whatever the components report and however their reports interleave, every counter the process exposes is the
  number of its own events, for its own labels, and no report of another component moves it: the dropped order
  events by venue and reason, the unmatched sells, the rows published (in batches), the differences found, the
  failed snapshots and the malformed payloads.
\<close>

theorem counters_count_events:
  "sp_value (observeAll es) (''order_events_dropped_total'', [(''venue'', v), (''reason'', r)])
      = of_nat (count_list es (OrderDropped v r)) \<and>
   sp_value (observeAll es) (''ledger_unmatched_sells_total'', [(''venue'', v)]) = of_nat (count_list es (OrderUnmatched v)) \<and>
   sp_value (observeAll es) (''outbox_published_total'', []) = sum_list (map publishedBy es) \<and>
   sp_value (observeAll es) (''reconcile_diffs_total'', [(''venue'', v), (''kind'', k)]) = of_nat (count_list es (DiffFound v k)) \<and>
   sp_value (observeAll es) (''snapshot_errors_total'', targetLabels t) = of_nat (count_list es (SnapshotFailed t)) \<and>
   sp_value (observeAll es) (''api_event_payload_malformed_total'', [(''subject'', x)])
      = of_nat (count_list es (PayloadMalformed x))"
  by (simp add: observeAll_def dropped.reading_fold unmatched.reading_fold published.reading_fold diffs.reading_fold
        errors.reading_fold malformed.reading_fold sum_one)

text \<open>The last-success gauges hold the instant of the last success of their own venue or target, whatever came after.\<close>

lemma last_success_is_last:
  assumes "\<forall>e\<in>set later. passOf v e = None"
  shows "sp_value (observeAll (earlier @ PassDone v d t n # later))
      (''reconcile_last_success_timestamp_seconds'', [(''venue'', v)]) = of_int (Unix t)"
  unfolding observeAll_def using assms by (intro lastPass.reading_last) simp_all

lemma last_snapshot_is_last:
  assumes "\<forall>e\<in>set later. snapshotOf tg e = None"
  shows "sp_value (observeAll (earlier @ SnapshotTaken tg d t # later))
      (''snapshot_last_success_timestamp_seconds'', targetLabels tg) = of_int (Unix t)"
  unfolding observeAll_def using assms by (intro lastSnapshot.reading_last) simp_all

lemma backlog_is_last:
  assumes "\<forall>e\<in>set later. backlogRows e = None"
  shows "sp_value (observeAll (earlier @ Backlog rows oldest # later)) (''outbox_unpublished_rows'', []) = of_int rows"
  unfolding observeAll_def using assms by (intro backlog.reading_last) simp_all

subsection \<open>Every constructor registers\<close>

lemma registerAll_Nil [simp]: "registerAll [] reg = Inr reg"
  by (simp add: registerAll_def)

lemma registerAll_Cons [simp]:
  "registerAll (n # ns) reg = (if n \<in> set reg then Inl (EText ''duplicate metrics collector registration attempted'')
     else registerAll ns (reg @ [n]))"
  by (simp add: registerAll_def Register_def)

lemma registerAll_ok: "distinct ns \<Longrightarrow> set ns \<inter> set reg = {} \<Longrightarrow> registerAll ns reg = Inr (reg @ ns)"
  by (induction ns arbitrary: reg) auto

lemma registerAll_twice: "n \<in> set ns \<Longrightarrow> n \<in> set reg \<Longrightarrow> \<exists>e. registerAll ns reg = Inl e"
  by (induction ns arbitrary: reg) auto

definition metricNames :: "string list list" where
  "metricNames =
    [[''order_events_dropped_total'', ''ledger_unmatched_sells_total''],
     [''outbox_published_total'', ''outbox_unpublished_rows'', ''outbox_oldest_unpublished_age_seconds''],
     [''reconcile_diffs_total'', ''reconcile_duration_seconds'', ''reconcile_last_success_timestamp_seconds'', ''reconcile_orphans''],
     [''snapshot_duration_seconds'', ''snapshot_errors_total'', ''snapshot_last_success_timestamp_seconds''],
     [''api_event_payload_malformed_total''], [''bus_dropped_total'']]"

definition constructors :: "(CollectorNames \<Rightarrow> Err + CollectorNames) list" where
  "constructors = [order_NewMetrics, outbox_NewMetrics, reconcile_NewMetrics, snapshot_NewMetrics, api_NewMetrics, registerBusMetrics]"

lemma constructors_names: "constructors = map registerAll metricNames"
  by (simp add: constructors_def metricNames_def order_NewMetrics_def outbox_NewMetrics_def reconcile_NewMetrics_def
      snapshot_NewMetrics_def api_NewMetrics_def registerBusMetrics_def fun_eq_iff Register_def)

definition build :: "(CollectorNames \<Rightarrow> Err + CollectorNames) list \<Rightarrow> CollectorNames \<Rightarrow> Err + CollectorNames" where
  "build fs = foldR (\<lambda>f reg. f reg) fs"

lemma build_names:
  "distinct (concat bs) \<Longrightarrow> set (concat bs) \<inter> set reg = {} \<Longrightarrow> build (map registerAll bs) reg = Inr (reg @ concat bs)"
proof (induction bs arbitrary: reg)
  case Nil
  then show ?case by (simp add: build_def)
next
  case (Cons b bs)
  have "registerAll b reg = Inr (reg @ b)"
    using Cons.prems by (intro registerAll_ok) auto
  moreover have "build (map registerAll bs) (reg @ b) = Inr ((reg @ b) @ concat bs)"
    using Cons.prems by (intro Cons.IH) auto
  ultimately show ?case by (simp add: build_def)
qed

lemma mset_map_reorder:
  assumes "mset fs = mset (map f xs)"
  shows "\<exists>ys. mset ys = mset xs \<and> fs = map f ys"
  using assms
proof (induction fs arbitrary: xs)
  case Nil
  then show ?case by simp
next
  case (Cons g fs)
  then have "g \<in> set (map f xs)"
    using mset_eq_setD [OF Cons.prems] by auto
  then obtain x where x: "x \<in> set xs" "g = f x" by auto
  then obtain a b where ab: "xs = a @ x # b" by (meson split_list)
  have "mset fs = mset (map f (a @ b))" using Cons.prems x ab by simp
  from Cons.IH [OF this] obtain ys where "mset ys = mset (a @ b)" "fs = map f ys" by blast
  then have "mset (x # ys) = mset xs" "g # fs = map f (x # ys)" using x ab by simp_all
  then show ?case by (intro exI conjI)
qed

lemma metricNames_distinct: "distinct (concat metricNames)"
  by (simp add: metricNames_def)

lemma metricNames_own: "n \<in> set (concat metricNames) \<Longrightarrow> \<not> HasPrefix n ''go_'' \<and> \<not> HasPrefix n ''process_''"
  by (auto simp: metricNames_def HasPrefix_def)

lemma mset_concat_eq: "mset bs = mset cs \<Longrightarrow> mset (concat bs) = mset (concat cs)"
proof -
  assume "mset bs = mset cs"
  then have "mset (map mset bs) = mset (map mset cs)" by simp
  then show ?thesis by (simp add: mset_concat flip: sum_mset_sum_list)
qed

lemma build_any_order:
  assumes "mset fs = mset constructors" "runtime_law runtime"
  shows "\<exists>reg. bindR (telemetry_NewRegistry runtime) (build fs) = Inr reg \<and> mset reg = mset runtime + mset (concat metricNames)"
proof -
  obtain bs where bs: "mset bs = mset metricNames" "fs = map registerAll bs"
    using mset_map_reorder [OF assms(1) [unfolded constructors_names]] by blast
  have all: "mset (concat bs) = mset (concat metricNames)" by (rule mset_concat_eq [OF bs(1)])
  have "distinct (concat bs)" using metricNames_distinct mset_eq_imp_distinct_iff [OF all] by blast
  moreover have "set (concat bs) \<inter> set runtime = {}"
    using assms(2) metricNames_own mset_eq_setD [OF all] unfolding runtime_law_def by blast
  moreover have "telemetry_NewRegistry runtime = Inr runtime"
    using assms(2) registerAll_ok [of runtime "[]"] by (simp add: telemetry_NewRegistry_def runtime_law_def)
  ultimately have "bindR (telemetry_NewRegistry runtime) (build fs) = Inr (runtime @ concat bs)"
    using build_names bs(2) by simp
  then show ?thesis using all by (intro exI [of _ "runtime @ concat bs"]) (simp only: mset_append)
qed

lemma metricNames_nonempty: "b \<in> set metricNames \<Longrightarrow> b \<noteq> []"
  by (auto simp: metricNames_def)



end
