(* ===== verification/Startup.thy ===== *)
theory Startup
  imports Snapshot_World Trading_Safety Lifecycle Api_Server Health Metrics
begin

section \<open>From the command line to the services\<close>

text \<open>
  \<open>cmd/daemon/main.go\<close>, the constructors of the services in \<open>internal/app/app.go\<close> with the \<open>New\<close> functions they call,
  \<open>internal/log/log.go\<close>, \<open>internal/app/fxlog.go\<close> and the multiplexer of \<open>internal/telemetry/telemetry.go\<close>. The parsing of
  a level is zerolog's and a parameter; fx, which calls the constructors, is too, through \<open>Lifecycle.wired\<close>.
\<close>

subsection \<open>The daemon's command line\<close>

record DaemonFlags =
  df_config :: string
  df_explicit :: bool

text \<open>What \<open>main\<close> does with its arguments: the flag set of the process exits, or the application runs.\<close>

datatype Daemon = Exit nat | RunApp string bool

definition daemonFlag :: "string \<Rightarrow> (string \<Rightarrow> DaemonFlags \<Rightarrow> Err + DaemonFlags) option" where
  "daemonFlag name = (if name = ''config'' then Some (\<lambda>v _. Inr \<lparr>df_config = v, df_explicit = True\<rparr>) else None)"

definition daemon_main :: "string list \<Rightarrow> Daemon" where
  "daemon_main args = (case flagParse daemonFlag args \<lparr>df_config = ''config.yaml'', df_explicit = False\<rparr> of
     Inl err \<Rightarrow> Exit (if err = EText ''flag: help requested'' then 0 else 2)
   | Inr (fl, _) \<Rightarrow> RunApp (df_config fl) (df_explicit fl))"

subsection \<open>Logging\<close>

record 'l Logger =
  lo_Level :: 'l
  lo_Console :: bool
  lo_Fields :: "(string \<times> string) list"

definition log_New :: "(string \<Rightarrow> Err + 'l) \<Rightarrow> LogCfg \<Rightarrow> Err + 'l Logger" where
  "log_New parseLevel cfg = (case parseLevel (lg_Level cfg) of
     Inl err \<Rightarrow> Inl (wrap (''parse log level '' @ fmt_q (lg_Level cfg)) err)
   | Inr level \<Rightarrow> Inr \<lparr>lo_Level = level, lo_Console = (lg_Format cfg = ''console''), lo_Fields = []\<rparr>)"

definition log_Component :: "'l Logger \<Rightarrow> string \<Rightarrow> 'l Logger" where
  "log_Component l name = l\<lparr>lo_Fields := lo_Fields l @ [(''component'', name)]\<rparr>"

text \<open>zerolog documents that it parses the names of its levels.\<close>

definition level_law :: "(string \<Rightarrow> Err + 'l) \<Rightarrow> bool" where
  "level_law parseLevel \<longleftrightarrow> (\<forall>name \<in> set [''trace'', ''debug'', ''info'', ''warn'', ''error'', ''fatal'', ''panic''].
     \<exists>level. parseLevel name = Inr level)"

datatype FxEvent =
    OnStartExecuted string "Err option"
  | OnStopExecuted string "Err option"
  | Provided string "Err option"
  | Invoked string "Err option"
  | FxStarted "Err option"
  | FxStopped "Err option"
  | OtherFxEvent

text \<open>A line: its error, its fields and its message; the lines without an error are those at debug level.\<close>

datatype LogLine = ErrorLine Err "(string \<times> string) list" string | DebugLine string

fun LogEvent :: "FxEvent \<Rightarrow> LogLine list" where
  "LogEvent (OnStartExecuted callee err) = (case err of Some e \<Rightarrow> [ErrorLine e [(''callee'', callee)] ''OnStart hook failed''] | None \<Rightarrow> [])"
| "LogEvent (OnStopExecuted callee err) = (case err of Some e \<Rightarrow> [ErrorLine e [(''callee'', callee)] ''OnStop hook failed''] | None \<Rightarrow> [])"
| "LogEvent (Provided ctor err) = (case err of Some e \<Rightarrow> [ErrorLine e [(''constructor'', ctor)] ''provide failed''] | None \<Rightarrow> [])"
| "LogEvent (Invoked f err) = (case err of Some e \<Rightarrow> [ErrorLine e [(''function'', f)] ''invoke failed''] | None \<Rightarrow> [])"
| "LogEvent (FxStarted err) = (case err of Some e \<Rightarrow> [ErrorLine e [] ''start failed''] | None \<Rightarrow> [DebugLine ''started''])"
| "LogEvent (FxStopped err) = (case err of Some e \<Rightarrow> [ErrorLine e [] ''stop failed''] | None \<Rightarrow> [DebugLine ''stopped''])"
| "LogEvent OtherFxEvent = []"

fun fxErr :: "FxEvent \<Rightarrow> Err option" where
  "fxErr (OnStartExecuted _ err) = err"
| "fxErr (OnStopExecuted _ err) = err"
| "fxErr (Provided _ err) = err"
| "fxErr (Invoked _ err) = err"
| "fxErr (FxStarted err) = err"
| "fxErr (FxStopped err) = err"
| "fxErr OtherFxEvent = None"

text \<open>Every error of a lifecycle event is logged, once, and no other line is at error level.\<close>

lemma LogEvent_errors: "[e. ErrorLine e _ _ \<leftarrow> LogEvent event] = (case fxErr event of Some e \<Rightarrow> [e] | None \<Rightarrow> [])"
  by (cases event) (auto split: option.splits)

subsection \<open>The services\<close>

text \<open>What the \<open>New\<close> functions take from the process: the clock, the libraries and the metrics.\<close>

record 'w Proc =
  pc_clk :: "'w \<Rightarrow> Time"
  pc_newID :: "'w \<Rightarrow> string"
  pc_Retry :: "('w \<Rightarrow> bool) \<Rightarrow> Duration \<Rightarrow> ('w, Ack) attempt \<Rightarrow> ('w, Ack) op"
  pc_ended :: "Duration \<Rightarrow> 'w \<Rightarrow> bool \<times> 'w"
  pc_wake :: "Duration \<Rightarrow> 'w \<Rightarrow> Wake \<times> 'w"
  pc_Publish :: "BusPayload BusEvent \<Rightarrow> ('w, unit) op"
  pc_dropped :: "VenueID \<Rightarrow> string \<Rightarrow> 'w \<Rightarrow> 'w"
  pc_unmatched :: "VenueID \<Rightarrow> 'w \<Rightarrow> 'w"
  pc_diff :: "VenueID \<Rightarrow> string \<Rightarrow> 'w \<Rightarrow> 'w"
  pc_success :: "VenueID \<Rightarrow> Duration \<Rightarrow> Time \<Rightarrow> int \<Rightarrow> 'w \<Rightarrow> 'w"

definition order_New :: "'w Proc \<Rightarrow> 'w Venue list \<Rightarrow> 'w OrderCommandStore \<Rightarrow> 'w OrderEventStore \<Rightarrow> Duration \<Rightarrow> 'w OrderSvc" where
  "order_New pc venues commands events submitBudget = \<lparr>
     sv_venues = byID venues, sv_commands = commands, sv_events = events, sv_clk = pc_clk pc, sv_newID = pc_newID pc,
     sv_Retry = pc_Retry pc, sv_submitBudget = submitBudget, sv_wait = pc_ended pc,
     sv_observeDropped = pc_dropped pc, sv_observeUnmatched = pc_unmatched pc\<rparr>"

definition reconcile_New :: "'w Proc \<Rightarrow> (VenueID \<times> 'w OrderPlacer) list \<Rightarrow> 'w OrderReconcileStore \<Rightarrow> 'w OrderEventStore \<Rightarrow> Duration
    \<Rightarrow> 'w ReconcileSvc \<times> 'w venueLoop list" where
  "reconcile_New pc venues store events interval = (\<lparr>
     rc_orders = store, rc_events = events, rc_Publish = pc_Publish pc, rc_clk = pc_clk pc, rc_interval = interval,
     rc_wait = pc_wake pc, rc_observeDiff = pc_diff pc, rc_observeSuccess = pc_success pc\<rparr>, map newLoop venues)"

definition newOrderService :: "'w Proc \<Rightarrow> Config \<Rightarrow> 'w Venue list \<Rightarrow> 'w OrderCommandStore \<Rightarrow> 'w OrderEventStore \<Rightarrow> 'w OrderSvc" where
  "newOrderService pc cfg venues commands events = order_New pc venues commands events (c_Order_SubmitBudget cfg)"

definition newReconcileService :: "'w Proc \<Rightarrow> Config \<Rightarrow> 'w Venue list \<Rightarrow> 'w OrderReconcileStore \<Rightarrow> 'w OrderEventStore
    \<Rightarrow> 'w ReconcileSvc \<times> 'w venueLoop list" where
  "newReconcileService pc cfg venues store events =
     reconcile_New pc (map (\<lambda>v. (ve_ID v, ve_Placer v)) venues) store events (c_Reconcile_Interval cfg)"

text \<open>
  The snapshot service: \<open>proc\<close> holds what its \<open>New\<close> takes from the process, the clock, the bus, the libraries and the
  metrics; the venues, the stores, the interval and the targets are those of the arguments and the configuration.
\<close>

definition newSnapshotService :: "'w SnapshotSvc \<Rightarrow> Config \<Rightarrow> 'w Registry \<Rightarrow> 'w BalanceSeriesWriter \<Rightarrow> 'w SnapshotRecorder \<Rightarrow> 'w SnapshotSvc" where
  "newSnapshotService proc cfg registry series checkpoints = proc\<lparr>sn_Get := rg_Get registry, sn_series := series,
     sn_recorder := checkpoints, sn_interval := c_Snapshot_Interval cfg, sn_targets := snapshotTargets cfg\<rparr>"

text \<open>The relay: the interval of its ticker, and the settings of its passes.\<close>

definition newOutboxService :: "Config \<Rightarrow> (nat \<Rightarrow> bool) \<Rightarrow> (nat \<Rightarrow> Time) \<Rightarrow> Duration \<times> RelayConfig" where
  "newOutboxService cfg ctxErr clk = (oc_Interval (c_Outbox cfg), \<lparr>rc_batch = oc_Batch (c_Outbox cfg), rc_ctxErr = ctxErr, rc_clkNow = clk\<rparr>)"

text \<open>A trading venue of \<open>newExchangeProducts\<close>, with the operations of its connection run in the world of the process.\<close>

definition inWorld :: "(VenueID \<Rightarrow> 'c OrderPlacer \<Rightarrow> 'w OrderPlacer) \<Rightarrow> ('v GctExchange \<Rightarrow> 'w PrivateStreamer)
    \<Rightarrow> ('v, 'c) TradingVenue \<Rightarrow> 'w Venue" where
  "inWorld place stream tv = \<lparr>ve_ID = tv_ID tv, ve_Placer = place (tv_ID tv) (tv_Placer tv), ve_Streamer = Some (stream (tv_Streams tv))\<rparr>"

definition newQuestDBHealth :: "'w HttpDo \<Rightarrow> Config \<Rightarrow> 'w HealthChecker" where
  "newQuestDBHealth http cfg = questdb_NewHealth http (c_QuestDB_Conf cfg)"

subsection \<open>The operational server\<close>

datatype Served = Answered Response | MovedPermanently string | PageNotFound | MethodNotAllowed

text \<open>
  Its multiplexer: a pattern with the method \<open>GET\<close> and no final slash serves \<open>GET\<close> and \<open>HEAD\<close> requests of its own path.
\<close>

definition telemetry_NewServer :: "('w \<Rightarrow> Response \<times> 'w) \<Rightarrow> 'w HealthChecker list \<Rightarrow> string \<Rightarrow> string \<Rightarrow> 'w \<Rightarrow> Served \<times> 'w" where
  "telemetry_NewServer metrics checks httpMethod path w =
    (if cleanPath path \<noteq> path then (MovedPermanently (cleanPath path), w)
     else if path \<notin> set [''/metrics'', ''/healthz'', ''/readyz''] then (PageNotFound, w)
     else if httpMethod \<notin> set [''GET'', ''HEAD''] then (MethodNotAllowed, w)
     else apfst Answered (if path = ''/metrics'' then metrics w else if path = ''/healthz'' then (healthz, w) else readyz checks w))"

lemma healthz_always: "httpMethod \<in> {''GET'', ''HEAD''} \<Longrightarrow> telemetry_NewServer metrics checks httpMethod ''/healthz'' w = (Answered healthz, w)"
proof -
  have "cleanPath ''/healthz'' = ''/healthz''" by code_simp
  then show "httpMethod \<in> {''GET'', ''HEAD''} \<Longrightarrow> ?thesis" by (auto simp: telemetry_NewServer_def)
qed

lemma readyz_served: "httpMethod \<in> {''GET'', ''HEAD''} \<Longrightarrow>
    telemetry_NewServer metrics checks httpMethod ''/readyz'' w = apfst Answered (readyz checks w)"
proof -
  have "cleanPath ''/readyz'' = ''/readyz''" by code_simp
  then show "httpMethod \<in> {''GET'', ''HEAD''} \<Longrightarrow> ?thesis" by (auto simp: telemetry_NewServer_def)
qed

subsection \<open>The models of the trading world are the wired services\<close>

definition procOf :: "'v App \<Rightarrow> 'v World Proc" where
  "procOf app = \<lparr>pc_clk = (\<lambda>w. w_time w (w_step w)), pc_newID = (\<lambda>w. w_ulid w (w_step w)), pc_Retry = ap_Retry app,
     pc_ended = (\<lambda>d w. tick (ap_ended app (w_step w)) w), pc_wake = (\<lambda>d w. tick (ap_wake app (w_step w)) w),
     pc_Publish = worldPublish, pc_dropped = metric, pc_unmatched = (\<lambda>venue. metric venue ''unmatched''),
     pc_diff = metric, pc_success = (\<lambda>venue d t n. metric venue ''success'')\<rparr>"

lemma orderService_wired:
  "ap_submitBudget app = c_Order_SubmitBudget cfg \<Longrightarrow>
   orderService app = newOrderService (procOf app) cfg (map venueOf (ap_venues app)) pgCommands (pgEvents (ap_Div app) (ap_sha256 app))"
  by (simp add: orderService_def newOrderService_def order_New_def procOf_def)

lemma reconcileService_wired:
  "ap_interval app = c_Reconcile_Interval cfg \<Longrightarrow>
   reconcileService app = fst (newReconcileService (procOf app) cfg (map venueOf (ap_venues app)) pgReads (pgEvents (ap_Div app) (ap_sha256 app)))"
  by (simp add: reconcileService_def newReconcileService_def reconcile_New_def procOf_def)

lemma snapshotService_wired:
  "za_interval app = c_Snapshot_Interval cfg \<Longrightarrow> za_targets app = snapshotTargets cfg \<Longrightarrow>
   snapshotService app = newSnapshotService (snapshotService app) cfg (NewRegistry (map worldExchange (za_exchanges app)))
     (sn_series (snapshotService app)) (sn_recorder (snapshotService app))"
  by (simp add: newSnapshotService_def snapshotService_def)

subsection \<open>Trading venues\<close>

lemma byID_None: "byID vs i \<noteq> None \<longleftrightarrow> i \<in> ve_ID ` set vs"
  by (simp add: byID_def map_of_eq_None_iff image_image)

lemma connectVenues_trading:
  "connectVenues lib cfg names = Inr (exs, tvs) \<Longrightarrow>
   map tv_ID tvs = map NewVenueID (filter (\<lambda>name. vc_Trading (venueOrNone cfg name)) names)"
  by (induction names arbitrary: exs tvs) (auto simp: Let_def split: if_splits option.splits)

lemma venueOrNone_entry: "distinct (map fst (c_Venues cfg)) \<Longrightarrow> (name, vc) \<in> set (c_Venues cfg) \<Longrightarrow> venueOrNone cfg name = vc"
  by (simp add: venueOrNone_def)

definition trades :: "Config \<Rightarrow> VenueID \<Rightarrow> bool" where
  "trades cfg v \<longleftrightarrow> (\<exists>(name, vc) \<in> set (c_Venues cfg). vc_Trading vc \<and> NewVenueID name = v)"

lemma trading_ids:
  assumes "distinct (map fst (c_Venues cfg))" "list_all (\<lambda>(name, v). venue_ok v) (c_Venues cfg)"
    and "newExchangeProducts lib cfg = Inr (exs, tvs)"
  shows "v \<in> tv_ID ` set tvs \<longleftrightarrow> trades cfg v"
proof -
  let ?names = "filter (\<lambda>name. vc_Trading (venueOrNone cfg name)) (EnabledVenues cfg)"
  have "tv_ID ` set tvs = NewVenueID ` set ?names"
    using arg_cong [OF connectVenues_trading [OF assms(3) [unfolded newExchangeProducts_def]], of set] by simp
  moreover have "name \<in> set ?names \<longleftrightarrow> (\<exists>vc. (name, vc) \<in> set (c_Venues cfg) \<and> vc_Trading vc)" for name
  proof
    assume "name \<in> set ?names"
    then obtain vc where "(name, vc) \<in> set (c_Venues cfg)" "vc_Trading (venueOrNone cfg name)" by (auto simp: EnabledVenues_def)
    with venueOrNone_entry [OF assms(1)] show "\<exists>vc. (name, vc) \<in> set (c_Venues cfg) \<and> vc_Trading vc" by auto
  next
    assume "\<exists>vc. (name, vc) \<in> set (c_Venues cfg) \<and> vc_Trading vc"
    then obtain vc where vc: "(name, vc) \<in> set (c_Venues cfg)" "vc_Trading vc" by blast
    with assms(2) have "vc_Enabled vc" by (auto simp: list_all_iff venue_ok_def)
    with vc have "name \<in> set (EnabledVenues cfg)" by (force simp: EnabledVenues_def)
    with vc venueOrNone_entry [OF assms(1) vc(1)] show "name \<in> set ?names" by simp
  qed
  ultimately show ?thesis unfolding trades_def by (auto simp: image_iff Bex_def)
qed

lemma hooks_trading:
  assumes "wired n addr hooks"
  shows "Service Orders True \<in> set hooks \<longleftrightarrow> n > 0" "Service Reconciler False \<in> set hooks \<longleftrightarrow> n > 0"
proof -
  from assms obtain rs where "hooks = rs @ invoked n addr" "set rs = {CloseBus, ClosePool, CloseWriter}"
    unfolding wired_def by blast
  then show "Service Orders True \<in> set hooks \<longleftrightarrow> n > 0" "Service Reconciler False \<in> set hooks \<longleftrightarrow> n > 0"
    by (auto simp: invoked_def startSnapshotService_def startOutboxService_def startTelemetryServer_def startReconcileService_def
        startOrderService_def startAPIServer_def startService_def)
qed

text \<open>
  C15: no order can be placed on a venue that is not reconciled. In the process that is built from a configuration
  that loaded, the order service accepts a venue exactly when the configuration lets it trade, and exactly
  then the reconciler has a loop for it; the two services are started exactly when there is such a venue; the
  logger is built; and the retry budget, the intervals and the batch that the services get are within their bounds.
\<close>

theorem tradable_iff_reconciled:
  assumes "Load ko os path explicit = Inr cfg" "distinct (map fst (c_Venues cfg))" "level_law parseLevel"
    and "newExchangeProducts lib cfg = Inr (exs, tvs)" "wired (length tvs) (c_API_Addr cfg) hooks"
    and "newOrderService pc cfg (map (inWorld place stream) tvs) commands events = osvc"
    and "newReconcileService pc cfg (map (inWorld place stream) tvs) reads events = (reconciler, loops)"
    and "newOutboxService cfg ctxErr clk = (interval, relay)"
  shows "(\<forall>v. sv_venues osvc v \<noteq> None \<longleftrightarrow> trades cfg v)
    \<and> (\<forall>v. v \<in> vl_ID ` set loops \<longleftrightarrow> trades cfg v)
    \<and> (Service Orders True \<in> set hooks \<longleftrightarrow> (\<exists>v. trades cfg v))
    \<and> (Service Reconciler False \<in> set hooks \<longleftrightarrow> (\<exists>v. trades cfg v))
    \<and> (\<exists>logger. log_New parseLevel (c_Log cfg) = Inr logger)
    \<and> second \<le> sv_submitBudget osvc \<and> sv_submitBudget osvc \<le> minute
    \<and> 5 * second \<le> rc_interval reconciler \<and> rc_interval reconciler \<le> 5 * minute
    \<and> 200 * millisecond \<le> interval \<and> interval \<le> second \<and> 1 \<le> rc_batch relay \<and> rc_batch relay \<le> 1000"
proof -
  from assms(1) have v: "Validate cfg = []" by (rule Load_Inr)
  then have ok: "list_all (\<lambda>(name, v). venue_ok v) (c_Venues cfg)" and b: "within_bounds cfg"
    and level: "lg_Level (c_Log cfg) \<in> set validLevels" by (simp_all add: Validate_iff)
  note ids = trading_ids [OF assms(2) ok assms(4)]
  have "sv_venues osvc v \<noteq> None \<longleftrightarrow> trades cfg v" for v
    using byID_None [of "map (inWorld place stream) tvs" v] assms(6)
    by (auto simp: newOrderService_def order_New_def image_image inWorld_def simp flip: ids)
  moreover have "v \<in> vl_ID ` set loops \<longleftrightarrow> trades cfg v" for v
    using assms(7) by (auto simp: newReconcileService_def reconcile_New_def newLoop_def image_image inWorld_def simp flip: ids)
  moreover have "0 < length tvs \<longleftrightarrow> (\<exists>v. trades cfg v)"
    using ids by (metis empty_iff image_is_empty length_greater_0_conv list.set_intros(1) neq_Nil_conv set_empty imageI)
  moreover have "\<exists>logger. log_New parseLevel (c_Log cfg) = Inr logger"
    using assms(3) level by (auto simp: log_New_def level_law_def validLevels_def)
  moreover note hooks_trading [OF assms(5)] b assms(6-8)
  ultimately show ?thesis
    by (auto simp: within_bounds_def newOrderService_def order_New_def newReconcileService_def reconcile_New_def newOutboxService_def duration_defs)
qed

definition demo_loaded :: Config where
  "demo_loaded = demo_cfg\<lparr>c_Venues := [(''bybit'', \<lparr>vc_Enabled = True, vc_Trading = True, vc_Accounts = [''spot''],
     vc_Rate = \<lparr>RPS = Finite 5, Burst = 10\<rparr>, vc_APIKey = ''key'', vc_APISecret = ''s3cret'', vc_APIKeyFile = [], vc_APISecretFile = ''~/secret''\<rparr>)]\<rparr>"

definition demo_start_app :: "(unit, nat, nat) conn App" where
  "demo_start_app = \<lparr>ap_Div = (/), ap_sha256 = (\<lambda>x. x), ap_venues = [], ap_Retry = once, ap_submitBudget = 10 * second,
     ap_interval = 30 * second, ap_ended = (\<lambda>_. True), ap_wake = (\<lambda>_. ContextDone)\<rparr>"

lemma demo_loaded_loads: "Load demo_koanf demo_os ''config.yaml'' False = Inr demo_loaded"
  by (simp add: demo_loaded_def Load_def demo_koanf_def demo_os_def demo_cfg_def Let_def mapErr_def resolveVenue_def resolveSecret_def CutPrefix_def
      HasPrefix_def path_Join_def path_Clean_def cleanStep_def TrimSpace_def is_space_def Validate_def complain_def validLevels_def
      venue_validate_def duration_defs)

lemma demo_loaded_products: "\<exists>exs tvs. newExchangeProducts demo_libraries demo_loaded = Inr (exs, tvs)"
  by (simp add: newExchangeProducts_def EnabledVenues_def demo_loaded_def demo_libraries_def demo_engine_def gct_New_def wrapR_def
      venueOrNone_def Let_def Decorate_def WithBreaker_def)

theorem tradable_iff_reconciled_witness:
  "\<exists>exs tvs. newExchangeProducts demo_libraries demo_loaded = Inr (exs, tvs)
     \<and> sv_venues (newOrderService (procOf demo_start_app) demo_loaded (map (inWorld wire (\<lambda>_. streamOf (\<lambda>_. Inr []))) tvs)
         pgCommands (pgEvents (/) (\<lambda>x. x))) ''bybit'' \<noteq> None
     \<and> Service Orders True \<in> set ([CloseBus, ClosePool, CloseWriter] @ invoked (length tvs) (c_API_Addr demo_loaded))"
proof -
  obtain exs tvs where p: "newExchangeProducts demo_libraries demo_loaded = Inr (exs, tvs)"
    using demo_loaded_products by (elim exE)
  have one_each: "distinct (map fst (c_Venues demo_loaded))" by (simp add: demo_loaded_def)
  have level: "level_law (\<lambda>name. Inr name)" by (simp add: level_law_def)
  have w: "wired (length tvs) (c_API_Addr demo_loaded) ([CloseBus, ClosePool, CloseWriter] @ invoked (length tvs) (c_API_Addr demo_loaded))"
    unfolding wired_def by (intro exI [of _ "[CloseBus, ClosePool, CloseWriter]"]) auto
  have bybit: "trades demo_loaded ''bybit''" by (simp add: trades_def demo_loaded_def demo_venue)
  note all = tradable_iff_reconciled [OF demo_loaded_loads one_each level p w refl prod.collapse [symmetric] prod.collapse [symmetric]]
  from all [THEN conjunct1] bybit all [THEN conjunct2, THEN conjunct2, THEN conjunct1] p show ?thesis
    by (intro exI [of _ exs] exI [of _ tvs] conjI) blast+
qed

text \<open>The daemon reads \<open>config.yaml\<close> and forgives that it is missing only when no path is given.\<close>

lemma daemon_default: "daemon_main [] = RunApp ''config.yaml'' False"
  by (simp add: daemon_main_def)

lemma daemon_path: "daemon_main [''-config'', path] = RunApp path True"
  by (simp add: daemon_main_def daemonFlag_def splitFlag_def)

lemma daemonFlag_explicit: "daemonFlag n = Some assign \<Longrightarrow> assign v st = Inr st' \<Longrightarrow> df_explicit st'"
  by (auto simp: daemonFlag_def split: if_splits)

lemma flagParse_first:
  assumes "flagParse formal (a # args') st = Inr (fl, rest)"
  shows "fl = st \<or> (\<exists>n assign v st' args''. formal n = Some assign \<and> assign v st = Inr st' \<and> length args'' \<le> length args'
      \<and> flagParse formal args'' st' = Inr (fl, rest))"
proof -
  obtain n v where nv: "splitFlag (drop (if a ! 1 = CHR ''-'' then 2 else 1) a) = (n, v)" by (cases "splitFlag (drop (if a ! 1 = CHR ''-'' then 2 else 1) a)")
  show ?thesis
  proof (cases "fl = st")
    case False
    with assms nv obtain assign where "formal n = Some assign"
      by (cases "formal n") (auto simp: Let_def split: if_splits)
    with assms nv False show ?thesis
      by (auto simp: Let_def split: if_splits option.splits sum.splits list.splits; blast intro: le_SucI)
  qed simp
qed

lemma flagParse_explicit:
  "flagParse daemonFlag args st = Inr (fl, rest) \<Longrightarrow> fl = st \<or> df_explicit fl"
proof (induction "length args" arbitrary: args st rule: less_induct)
  case less
  show ?case
  proof (cases args)
    case (Cons a args')
    show ?thesis
      using flagParse_first [OF less.prems [unfolded Cons]]
    proof (elim disjE exE conjE)
      fix n assign v st' args''
      assume "daemonFlag n = Some assign" "assign v st = Inr st'" and m: "length args'' \<le> length args'" "flagParse daemonFlag args'' st' = Inr (fl, rest)"
      then have "df_explicit st'" by (intro daemonFlag_explicit)
      with less.hyps [of args'' st'] m Cons show ?thesis by auto
    qed simp
  qed (use less.prems in simp)
qed

lemma daemon_implicit: "daemon_main args = RunApp path False \<Longrightarrow> path = ''config.yaml''"
  by (auto simp: daemon_main_def dest!: flagParse_explicit split: sum.splits)

lemma Load_missing_file:
  assumes "ko_LoadMap ko defaults (ko_New ko) = Inr k" "ko_LoadFile ko path k = Inl err" "explicit \<or> \<not> errors_Is err FsErrNotExist"
  shows "Load ko os path explicit = Inl (LoadFile path err)"
  using assms by (auto simp: Load_def mapErr_def)

end
