(* ===== verification/Spec2Isabelle.thy ===== *)
theory Spec2Isabelle
  imports Api_Errors Placer_Contract Startup
begin

text \<open>
  \<^bold>\<open>Verification of delta-works\<close>

  delta-works is a trading daemon written in Go. A client places, cancels and lists orders through an RPC
  service (\<open>internal/api\<close>). The order service (\<open>internal/service/order\<close>) stores an order as pending before it
  submits it to a venue, and applies acknowledgements and the events of private streams to it. The reconciler
  (\<open>internal/service/reconcile\<close>) compares what the venues report with what is stored. Every change of an order
  goes through \<open>ApplyEvent\<close> of the Postgres store (\<open>internal/adapters/postgres\<close>), which runs the state machine of
  \<open>internal/domain/order\<close> in one transaction, posts fills to a FIFO lot ledger (\<open>internal/domain/ledger\<close>), keeps
  an audit trail and writes outbox rows. The outbox relay (\<open>internal/service/outbox\<close>) publishes those rows on the
  in-process bus (\<open>internal/bus\<close>). The snapshot service (\<open>internal/service/snapshot\<close>) polls balances and writes them
  to QuestDB with a checkpoint in Postgres. Venues are reached through an adapter of a trading library
  (\<open>internal/adapters/gct\<close>) behind a rate limiter and a circuit breaker (\<open>internal/exchange\<close>).
  \<open>internal/config\<close> and \<open>internal/app\<close> load the configuration, wire the parts and start and stop them. The client
  program \<open>cmd/ctl\<close> calls the RPC service over a socket or TCP.

  \<^bold>\<open>How the code is modelled\<close>

  Structs are records, string enumerations are strings with the constants of the source, errors are values of
  \<open>Prelude.Err\<close> with the sentinels that \<open>errors.Is\<close> looks for and the wrapping of \<open>fmt.Errorf\<close>. A fallible call is
  a function from the state to a sum and the new state. \<open>decimal.Decimal\<close> is an exact rational; 64-bit
  arithmetic that can wrap is written out with \<open>wrap64\<close>, and \<open>float64\<close> has its infinities and \<open>NaN\<close>.

  The theories and the files they model, in the order of their imports:

  \<^item> \<open>Prelude\<close>: results and errors, loops over state (\<open>forS\<close>, \<open>keeps\<close>), times and durations, strings.
  \<^item> \<open>Instrument\<close>: \<open>domain/money\<close>, \<open>domain/instrument\<close>, \<open>domain/account\<close>, \<open>domain/marketdata\<close>. Pairs print and parse back.
  \<^item> \<open>Ledger\<close>: \<open>domain/ledger\<close>. The locale of the \<open>LotSelector\<close> interface and its interpretation by FIFO, which
    equals a closed form over prefix sums.
  \<^item> \<open>Order_Machine\<close>: \<open>domain/order\<close>. \<open>Transition\<close> computes a join of a stored state and an event; hence events
    may come in any order and any number of times. The decision table lists every branch.
  \<^item> \<open>Schema\<close>: the tables, constraints and statements of \<open>adapters/postgres/sqlcgen\<close> and the migrations; a database
    with a durable and a working copy, and a connection that fails before or after any statement.
  \<^item> \<open>Posting\<close>, \<open>Order_Store\<close>: \<open>adapters/postgres/ledger.go\<close> and \<open>orders.go\<close>. \<open>ApplyEvent\<close> is atomic under every
    pattern of faults.
  \<^item> \<open>Store_Invariant\<close>, \<open>Store_Safety\<close>, \<open>Store_Reach\<close>: the invariant of the tables, its preservation by every
    operation, and reachability: a database is reachable when any sequence of calls of the stores, with any
    arguments and faults, made it from the empty one. The balance of the inventory, the accounting of fills,
    the audit trail and the agreement of lots and closures hold in every reachable database.
  \<^item> \<open>Store_Refinement\<close>, \<open>Store_Progress\<close>, \<open>Store_Advance\<close>, \<open>Store_Errors\<close>: the store implements the state
    machine and is idempotent; an event that is well-formed is always applied; orders only advance; the error
    for an unknown order means that it is not stored.
  \<^item> \<open>Bus\<close>, \<open>Outbox\<close>: \<open>bus/bus.go\<close>, \<open>adapters/postgres/outbox.go\<close> and \<open>service/outbox\<close>. Delivery on the bus is at
    most once and in order; the relay marks only what it published, drains the backlog and ends.
  \<^item> \<open>Trading_Ports\<close>: the interfaces of \<open>ports/store.go\<close> and \<open>ports/trading.go\<close> as records of operations, and the
    contracts of the stores and of a placer as locales (\<open>event_store\<close>, extended to \<open>command_store\<close> and
    \<open>reconcile_store\<close>).
  \<^item> \<open>Order_Service\<close>, \<open>Reconcile\<close>: \<open>service/order/order.go\<close> and \<open>service/reconcile/reconcile.go\<close>, with their
    lemmas proved once in locales over those contracts.
  \<^item> \<open>Trading_World\<close>, \<open>Trading_Safety\<close>: the services over the Postgres store, interpretations of the locales, and the
    properties of the composition: a row before a submit, the intent before a cancel, what a placement
    returns, that a pass catches up.
  \<^item> \<open>Exchange_Stack\<close>: \<open>exchange/middleware.go\<close> and \<open>registry.go\<close>. Every decorated call takes one way.
  \<^item> \<open>Config\<close>: \<open>config/config.go\<close> and \<open>load.go\<close>. What \<open>Load\<close> returns is within its bounds.
  \<^item> \<open>Snapshot_Ports\<close>, \<open>Snapshot_Service\<close>: the checkpoint store of \<open>adapters/postgres/postgres.go\<close>, the writer of
    \<open>adapters/questdb\<close> and \<open>service/snapshot\<close>, with a locale for the ports.
  \<^item> \<open>Gct_Adapter\<close>: \<open>adapters/gct\<close>. Statuses are known to the state machine, balances are neither lost nor counted
    twice, an order is unknown only when the venue says so.
  \<^item> \<open>Snapshot_World\<close>: connecting the venues in \<open>app/app.go\<close>, the targets, and the snapshot service over the stores.
    A checkpoint that says ok means that the data reached the series store.
  \<^item> \<open>Base64\<close>, \<open>Api_Orders\<close>, \<open>Api_Paging\<close>, \<open>Api_Errors\<close>: \<open>api/orders.go\<close>. Following the page tokens ends and lists
    every order once; a client sees only public errors, and an answer names a stored order.
  \<^item> \<open>Api_Events\<close>: \<open>api/events.go\<close> and \<open>api/snapshot.go\<close>. A stream sends what was published on the bus and matches
    its prefix, in that order; the last checkpoint of an account is the latest.
  \<^item> \<open>Control_Addr\<close>: \<open>api/listen.go\<close>, \<open>api/client.go\<close> and \<open>run\<close> of \<open>cmd/ctl/main.go\<close>. Opening the control socket never
    takes anything away, and a client with the same configuration and environment reaches the daemon.
  \<^item> \<open>Ctl_Orders\<close>, \<open>Ctl_Watch\<close>, \<open>Ctl_Main\<close>: the commands of \<open>cmd/ctl\<close> from their arguments to the lines they print and
    the view they draw. The listing prints the newest orders, as many as asked for.
  \<^item> \<open>Lifecycle\<close>: the hooks of \<open>app/app.go\<close> and the start of the reconciler, as a step relation over all
    interleavings. The parts start and stop in a safe order.
  \<^item> \<open>Health\<close>: connecting in \<open>adapters/postgres/postgres.go\<close> and \<open>adapters/questdb\<close>, the health checks and the handlers
    of \<open>telemetry\<close>. A connection that fails leaves no pool open; ready means that every check passed.
  \<^item> \<open>Api_Server\<close>: \<open>api/server.go\<close> and the handlers and clients that connect generates under \<open>api/gen\<close>. A call of a client
    is a call of the handler, whatever the address; shutting the server down ends the streams that are open.
  \<^item> \<open>Placer_Contract\<close>: \<open>ports/portstest/order_placer.go\<close>, the contract that adapters are tested against. Cleaning up
    ends, and when it succeeds no placed order is open; a venue that opens a second order under the same client
    order ID can pass the contract.
  \<^item> \<open>Metrics\<close>: the \<open>metrics.go\<close> of the services and of \<open>api\<close>, with locales for a counter and a gauge. The collectors
    register in every order of construction; each counter counts its own events.
  \<^item> \<open>Startup\<close>: \<open>cmd/daemon/main.go\<close>, \<open>log/log.go\<close>, \<open>app/fxlog.go\<close>, the constructors of the services in \<open>app/app.go\<close> and the
    routes of \<open>telemetry\<close>. The services of \<open>Trading_World\<close> and \<open>Snapshot_World\<close> are the ones that are wired, and a venue
    that can be traded is reconciled.

  \<^bold>\<open>Interleaving, loops and bounds\<close>

  The goroutines share the database. Before every call that a service makes, the rest of the process may have
  made any sequence of calls of the stores (\<open>w_others\<close> in \<open>Trading_World\<close>, and likewise in \<open>Snapshot_World\<close>, where
  the mutex of the series writer keeps others from the buffer while it is held). The properties of the
  services hold for every such interference. The bus is a step relation over all interleavings of its
  operations, and so are a stream with the bus and the life of the process. One relay runs at a time; \<open>SKIP LOCKED\<close> then skips nothing.

  Loops over finite data are structural. \<open>drainLoop\<close> is a \<open>partial_function\<close> with a proof that it returns. The
  loops that the program runs until its context is done (\<open>consumeStream\<close>, the loops of the reconciler and of the
  snapshot service, the relay) take a number of turns, or a list of ticks; \<open>None\<close> means that they are still
  running, and the properties hold for every number. \<open>fetchPages\<close> takes a number of requests, and one more than
  there are orders is shown to be enough. \<open>listLoop\<close> ends because every page that does not end it prints an order.
  \<open>cleanupLoop\<close> takes the waits between its polls, and as many as the venue needs to settle are shown to be enough.
  \<open>follow\<close> resolves at most forty symbolic links, as the operating system does.

  \<^bold>\<open>Parameters\<close>

  Code outside the repository is an argument, with the documented behaviour that is relied on as a named
  hypothesis: the rounding division and the text form of the decimal library, SHA-256, the JSON codec
  (\<open>token_codec\<close>: a token reads back as it was written; encoding fails for years outside 0 to 9999), the retry
  loop (\<open>retries\<close>: at least one attempt, another one only after a transient error), the rate limiter and the
  breaker, koanf (\<open>koanf_law\<close>), fx (\<open>fx_law\<close>: the order of its calls), the connection pool (\<open>pool_law\<close>), the
  handlers of the health and reflection libraries (\<open>libs_law\<close>), the runtime's collectors (\<open>runtime_law\<close>), the names of
  log levels (\<open>level_law\<close>), the terminal library, the trading library, the QuestDB sender, and the errors of the Postgres driver
  (\<open>driver_faults\<close>: never the sentinel for a missing row). Statements fail at arbitrary points, but a statement
  that succeeds has the effect the schema gives it. Text is taken to be valid UTF-8, and text columns are ordered
  by their bytes.

  \<^bold>\<open>Not modelled\<close>

  The message types and descriptors that \<open>protoc\<close> generates under \<open>api/gen\<close> (records stand for them), the wire formats
  of connect, and the validation of requests made from the proto files, which appears as hypotheses on requests;
  the text of log lines other than those of \<open>app/fxlog.go\<close>; the buckets of histograms; dependency injection in
  \<open>app/app.go\<close>, of which only the order of the hooks and the constructors are used; the styles and the table of the
  terminal view; other processes that change the directory entry of the socket while \<open>Listen\<close> runs; drawing ULIDs.
\<close>

end
